(* ===== verification/Prelude.thy ===== *)
theory Prelude
  imports Main "HOL-Library.Word" "HOL-Library.Sublist" "HOL-Library.Multiset"
    "HOL-Library.List_Lexorder" "HOL-Library.Char_ord"
begin

text \<open>
  The shared vocabulary of the development: the fixed-width integer types of the Go code, the
  result type of fallible calls, Go's \<open>sort.Slice\<close> as an interface with an executable instance,
  and generic lemmas on lists, maps and words that several components use.
\<close>

section \<open>Machine integers and results\<close>

type_synonym i32 = "32 word"
type_synonym i64 = "64 word"
type_synonym u64 = "64 word"

text \<open>An error of code outside the repository: whether it is a not-found error, and its text.\<close>

record ext_err =
  ee_not_found :: bool
  ee_msg :: string

named_theorems len_simps \<open>lengths and bounds of the lists the components return\<close>

abbreviation is_ok :: "'e + 'a \<Rightarrow> bool" where
  "is_ok r \<equiv> \<not> isl r"

text \<open>Go's conversion \<open>int32(len(xs))\<close>.\<close>

definition i32_len :: "'a list \<Rightarrow> i32" where
  "i32_len xs = of_nat (length xs)"

lemma unat_i32_len: "unat (i32_len xs) = length xs mod 2 ^ 32"
  by (simp add: i32_len_def unat_of_nat)

lemma unat_i32_len_small [simp]: "length xs < 2 ^ 32 \<Longrightarrow> unat (i32_len xs) = length xs"
  by (simp add: unat_i32_len)

section \<open>Lists\<close>

lemma subseq_filter_map: "subseq (filter P xs) xs"
  by (rule subseq_filter_left)

lemma subseq_map_filter:
  "subseq (List.map_filter f xs) (map (the \<circ> f) (filter (\<lambda>x. f x \<noteq> None) xs))"
  by (simp add: List.map_filter_def)

lemma map_filter_append [simp]:
  "List.map_filter f (xs @ ys) = List.map_filter f xs @ List.map_filter f ys"
  by (simp add: List.map_filter_def)

lemma length_map_filter_le [len_simps]: "length (List.map_filter f xs) \<le> length xs"
  by (simp add: List.map_filter_def)

lemma map_filter_take_prefix: "prefix (List.map_filter f (take n xs)) (List.map_filter f xs)"
  by (metis append_take_drop_id map_filter_append prefixI)

lemma set_map_filter_eq: "set (List.map_filter f xs) = {y. \<exists>x \<in> set xs. f x = Some y}"
  by (auto simp: List.map_filter_def image_iff) force

lemma set_map_filterD: "y \<in> set (List.map_filter f xs) \<Longrightarrow> \<exists>x \<in> set xs. f x = Some y"
  by (auto simp: List.map_filter_def)

section \<open>Go's sort.Slice\<close>

text \<open>
  \<open>sort.Slice(xs, less)\<close> permutes a slice so that no element is less than an earlier one. It
  is not stable: which of several permutations it returns is not fixed. The components take the
  sorting routine as an argument; what they may rely on is this interface.
\<close>

type_synonym 'a sorter = "('a \<Rightarrow> 'a \<Rightarrow> bool) \<Rightarrow> 'a list \<Rightarrow> 'a list"

definition weak_order :: "('a \<Rightarrow> 'a \<Rightarrow> bool) \<Rightarrow> bool" where
  "weak_order lt \<longleftrightarrow>
     (\<forall>x. \<not> lt x x) \<and> (\<forall>x y z. lt x y \<longrightarrow> lt y z \<longrightarrow> lt x z) \<and>
     (\<forall>x y z. \<not> lt x y \<longrightarrow> \<not> lt y z \<longrightarrow> \<not> lt x z)"

lemma weak_order_key: "weak_order (\<lambda>x y. key x < (key y :: 'k::linorder))"
  by (auto simp: weak_order_def)

lemma weak_order_key_desc: "weak_order (\<lambda>x y. key x > (key y :: 'k::linorder))"
  by (auto simp: weak_order_def)

locale slice_sort =
  fixes srt :: "'a sorter"
  assumes srt_perm: "mset (srt lt xs) = mset xs"
    and srt_ordered: "weak_order lt \<Longrightarrow> sorted_wrt (\<lambda>x y. \<not> lt y x) (srt lt xs)"
begin

lemma set_srt [simp]: "set (srt lt xs) = set xs"
  by (metis srt_perm set_mset_mset)

lemma length_srt [simp]: "length (srt lt xs) = length xs"
  by (metis srt_perm size_mset)

lemma distinct_srt [simp]: "distinct (srt lt xs) = distinct xs"
  by (metis srt_perm mset_eq_imp_distinct_iff)

lemma sorted_srt_key: "sorted (map key (srt (\<lambda>x y. key x < key y) xs))"
  for key :: "'a \<Rightarrow> 'k::linorder"
  using srt_ordered [OF weak_order_key, of key xs]
  by (simp add: sorted_wrt_map not_less)

lemma sorted_srt_key_desc: "sorted_wrt (\<lambda>x y. key x \<ge> key y) (srt (\<lambda>x y. key x > key y) xs)"
  for key :: "'a \<Rightarrow> 'k::linorder"
  using srt_ordered [OF weak_order_key_desc, of key xs]
  by (simp add: not_less)

text \<open>With distinct keys the result is determined: the order of the input plays no part.\<close>

lemma srt_key_unique:
  fixes key :: "'a \<Rightarrow> 'k::linorder"
  assumes "mset xs = mset ys" and "distinct (map key xs)"
  shows "srt (\<lambda>x y. key x < key y) xs = sort_key key ys"
proof (rule map_inj_on)
  let ?zs = "srt (\<lambda>x y. key x < key y) xs"
  have "mset (map key ?zs) = mset (map key ys)"
    using assms(1) by (simp add: srt_perm)
  then have "map key ?zs = sort (map key ys)"
    using sorted_srt_key [of key xs] by (metis properties_for_sort)
  moreover have "map key (sort_key key ys) = sort (map key ys)"
    by (metis mset_map mset_sort properties_for_sort sorted_sort_key)
  ultimately show "map key ?zs = map key (sort_key key ys)" by simp
  have "inj_on key (set xs)" using assms(2) by (simp add: distinct_map)
  moreover have "set ys = set xs" by (metis assms(1) set_mset_mset)
  ultimately show "inj_on key (set ?zs \<union> set (sort_key key ys))" by simp
qed

text \<open>The first \<open>n\<close> elements of a descending sort dominate the ones cut off.\<close>

lemma take_srt_desc_dominates:
  fixes key :: "'a \<Rightarrow> 'k::linorder"
  assumes "x \<in> set (take n (srt (\<lambda>x y. key x > key y) xs))"
    and "y \<in> set (drop n (srt (\<lambda>x y. key x > key y) xs))"
  shows "key x \<ge> key y"
proof -
  let ?zs = "srt (\<lambda>x y. key x > key y) xs"
  have "sorted_wrt (\<lambda>x y. key x \<ge> key y) (take n ?zs @ drop n ?zs)"
    unfolding append_take_drop_id by (rule sorted_srt_key_desc)
  then show ?thesis using assms unfolding sorted_wrt_append by blast
qed

lemma in_top_or_below:
  fixes key :: "'a \<Rightarrow> 'k::linorder"
  assumes "x \<in> set xs"
  shows "x \<in> set (take n (srt (\<lambda>x y. key x > key y) xs)) \<or>
    (\<forall>y \<in> set (take n (srt (\<lambda>x y. key x > key y) xs)). key x \<le> key y)"
proof -
  let ?zs = "srt (\<lambda>x y. key x > key y) xs"
  have "x \<in> set (take n ?zs) \<union> set (drop n ?zs)"
    using assms by (metis append_take_drop_id set_append set_srt)
  then show ?thesis using take_srt_desc_dominates by blast
qed

end

text \<open>Insertion sort over a strict order: the executable instance.\<close>

fun insert_by :: "('a \<Rightarrow> 'a \<Rightarrow> bool) \<Rightarrow> 'a \<Rightarrow> 'a list \<Rightarrow> 'a list" where
  "insert_by lt x [] = [x]"
| "insert_by lt x (y # ys) = (if lt y x then y # insert_by lt x ys else x # y # ys)"

fun sort_by :: "('a \<Rightarrow> 'a \<Rightarrow> bool) \<Rightarrow> 'a list \<Rightarrow> 'a list" where
  "sort_by lt [] = []"
| "sort_by lt (x # xs) = insert_by lt x (sort_by lt xs)"

lemma mset_insert_by: "mset (insert_by lt x ys) = add_mset x (mset ys)"
  by (induction ys) auto

lemma mset_sort_by: "mset (sort_by lt xs) = mset xs"
  by (induction xs) (auto simp: mset_insert_by)

lemma set_insert_by: "set (insert_by lt x ys) = insert x (set ys)"
  by (metis mset_insert_by set_mset_mset set_mset_add_mset_insert)

lemma sorted_insert_by:
  assumes "weak_order lt"
  shows "sorted_wrt (\<lambda>x y. \<not> lt y x) ys \<Longrightarrow> sorted_wrt (\<lambda>x y. \<not> lt y x) (insert_by lt x ys)"
proof (induction ys)
  case (Cons y ys)
  show ?case
  proof (cases "lt y x")
    case True
    then have "\<not> lt x y" using assms by (meson weak_order_def)
    with True Cons show ?thesis by (auto simp: set_insert_by)
  next
    case False
    have "\<not> lt z x" if "z \<in> set ys" for z
      using that False Cons.prems assms unfolding weak_order_def by (metis sorted_wrt.simps(2))
    with False Cons show ?thesis by simp
  qed
qed simp

lemma sorted_sort_by: "weak_order lt \<Longrightarrow> sorted_wrt (\<lambda>x y. \<not> lt y x) (sort_by lt xs)"
  by (induction xs) (auto intro: sorted_insert_by)

interpretation isort: slice_sort sort_by
  by unfold_locales (simp_all add: mset_sort_by sorted_sort_by)

end
