(* ===== verification/GoStrings.thy ===== *)
theory GoStrings
  imports Prelude
begin

text \<open>
  Go strings are byte sequences, here \<open>string\<close> (a list of 8-bit characters). This theory holds
  what the components use of Go's \<open>strings\<close>, \<open>unicode/utf8\<close>, \<open>strconv\<close> and \<open>fmt\<close> packages:
  searching and splitting, the decoding of a string into runes, white space, and decimal and
  hexadecimal rendering. The lemmas give the inversion properties (split against join, last index,
  injectivity of the decimal rendering) that the parsers of the components rest on.
\<close>

section \<open>Bytes\<close>

abbreviation byte :: "char \<Rightarrow> nat" where
  "byte c \<equiv> of_char c"

definition is_hex :: "char \<Rightarrow> bool" where
  "is_hex c \<longleftrightarrow> (48 \<le> byte c \<and> byte c \<le> 57) \<or> (97 \<le> byte c \<and> byte c \<le> 102)"

lemma not_hex_dash [simp]: "\<not> is_hex (CHR ''-'')"
  by (simp add: is_hex_def)

section \<open>Searching and splitting\<close>

text \<open>\<open>strings.Index\<close> and \<open>strings.LastIndex\<close> with a one-byte separator; None is -1.\<close>

fun index_of :: "char \<Rightarrow> string \<Rightarrow> nat option" where
  "index_of c [] = None"
| "index_of c (x # xs) = (if x = c then Some 0 else map_option Suc (index_of c xs))"

fun last_index_of :: "char \<Rightarrow> string \<Rightarrow> nat option" where
  "last_index_of c [] = None"
| "last_index_of c (x # xs) =
     (case last_index_of c xs of
        Some i \<Rightarrow> Some (Suc i)
      | None \<Rightarrow> if x = c then Some 0 else None)"

lemma index_of_None [simp]: "index_of c s = None \<longleftrightarrow> c \<notin> set s"
  by (induction s) auto

lemma last_index_of_None [simp]: "last_index_of c s = None \<longleftrightarrow> c \<notin> set s"
  by (induction s) (auto split: option.splits)

lemma index_of_append [simp]: "c \<notin> set s \<Longrightarrow> index_of c (s @ c # t) = Some (length s)"
  by (induction s) auto

lemma last_index_of_append [simp]: "c \<notin> set t \<Longrightarrow> last_index_of c (s @ c # t) = Some (length s)"
proof (induction s)
  case Nil
  then have "last_index_of c t = None" by simp
  then show ?case by (simp del: last_index_of_None)
qed simp

lemma index_of_Some: "index_of c s = Some i \<Longrightarrow> \<exists>t. s = take i s @ c # t \<and> c \<notin> set (take i s)"
  by (induction s arbitrary: i) (auto split: if_splits)

lemma last_index_of_Some:
  "last_index_of c s = Some i \<Longrightarrow> s = take i s @ c # drop (Suc i) s \<and> c \<notin> set (drop (Suc i) s)"
proof (induction s arbitrary: i)
  case (Cons x s)
  show ?case
  proof (cases "last_index_of c s")
    case None
    then have "c \<notin> set s" by simp
    then show ?thesis using Cons.prems None by (auto split: if_splits)
  next
    case (Some j)
    then show ?thesis using Cons by auto
  qed
qed simp

text \<open>\<open>strings.Split\<close> with a one-byte separator: never empty.\<close>

fun split_on :: "char \<Rightarrow> string \<Rightarrow> string list" where
  "split_on c [] = [[]]"
| "split_on c (x # xs) =
     (if x = c then [] # split_on c xs
      else (case split_on c xs of [] \<Rightarrow> [[x]] | p # ps \<Rightarrow> (x # p) # ps))"

fun join_with :: "char \<Rightarrow> string list \<Rightarrow> string" where
  "join_with c [] = []"
| "join_with c [p] = p"
| "join_with c (p # q # ps) = p @ c # join_with c (q # ps)"

lemma split_on_nonempty [simp]: "split_on c s \<noteq> []"
  by (induction s) (auto split: list.splits)

lemma join_split: "join_with c (split_on c s) = s"
proof (induction s)
  case (Cons x s)
  obtain p ps where p: "split_on c s = p # ps" by (meson neq_Nil_conv split_on_nonempty)
  with Cons show ?case by (cases ps) auto
qed simp

lemma split_on_parts: "p \<in> set (split_on c s) \<Longrightarrow> c \<notin> set p"
proof (induction s arbitrary: p)
  case (Cons x s)
  obtain q qs where q: "split_on c s = q # qs" by (meson neq_Nil_conv split_on_nonempty)
  with Cons show ?case by (auto split: if_splits)
qed simp

lemma split_on_no_sep: "c \<notin> set s \<Longrightarrow> split_on c s = [s]"
  by (induction s) auto

lemma split_on_cons: "c \<notin> set p \<Longrightarrow> split_on c (p @ c # s) = p # split_on c s"
  by (induction p) auto

lemma split_join: "ps \<noteq> [] \<Longrightarrow> \<forall>p \<in> set ps. c \<notin> set p \<Longrightarrow> split_on c (join_with c ps) = ps"
  by (induction ps rule: join_with.induct) (auto simp: split_on_no_sep split_on_cons)

lemma split_on_append: "split_on c (v @ c # w) = split_on c v @ split_on c w"
  by (induction v) (auto split: list.splits)

lemma split_on_eq_iff:
  "split_on c s = ps \<longleftrightarrow> ps \<noteq> [] \<and> s = join_with c ps \<and> (\<forall>p \<in> set ps. c \<notin> set p)"
  using split_on_nonempty join_split split_on_parts split_join by metis

section \<open>Runes\<close>

text \<open>
  \<open>utf8.DecodeRuneInString\<close> at the head of a non-empty string: the code point and the width. An
  invalid sequence is U+FFFD of width 1. \<open>runes\<close> is what \<open>range s\<close> visits, each code point with
  the bytes it was read from.
\<close>

definition cont :: "nat \<Rightarrow> nat \<Rightarrow> char \<Rightarrow> bool" where
  "cont lo hi c \<longleftrightarrow> lo \<le> byte c \<and> byte c \<le> hi"

definition decode_rune :: "string \<Rightarrow> nat \<times> nat" where
  "decode_rune s =
     (case s of [] \<Rightarrow> (0xFFFD, 0)
      | c0 # s1 \<Rightarrow>
        let b0 = byte c0; bad = (0xFFFD, 1) in
        if b0 < 0x80 then (b0, 1)
        else if 0xC2 \<le> b0 \<and> b0 \<le> 0xDF then
          (case s1 of
             c1 # _ \<Rightarrow> if cont 0x80 0xBF c1 then ((b0 - 0xC0) * 64 + (byte c1 - 0x80), 2) else bad
           | _ \<Rightarrow> bad)
        else if 0xE0 \<le> b0 \<and> b0 \<le> 0xEF then
          (case s1 of
             c1 # c2 # _ \<Rightarrow>
               if cont (if b0 = 0xE0 then 0xA0 else 0x80) (if b0 = 0xED then 0x9F else 0xBF) c1
                  \<and> cont 0x80 0xBF c2
               then ((b0 - 0xE0) * 4096 + (byte c1 - 0x80) * 64 + (byte c2 - 0x80), 3) else bad
           | _ \<Rightarrow> bad)
        else if 0xF0 \<le> b0 \<and> b0 \<le> 0xF4 then
          (case s1 of
             c1 # c2 # c3 # _ \<Rightarrow>
               if cont (if b0 = 0xF0 then 0x90 else 0x80) (if b0 = 0xF4 then 0x8F else 0xBF) c1
                  \<and> cont 0x80 0xBF c2 \<and> cont 0x80 0xBF c3
               then ((b0 - 0xF0) * 262144 + (byte c1 - 0x80) * 4096 + (byte c2 - 0x80) * 64
                     + (byte c3 - 0x80), 4) else bad
           | _ \<Rightarrow> bad)
        else bad)"

lemma decode_rune_width: "s \<noteq> [] \<Longrightarrow> 0 < snd (decode_rune s)"
  by (auto simp: decode_rune_def Let_def split: list.splits)

function runes :: "string \<Rightarrow> (nat \<times> string) list" where
  "runes s =
     (if s = [] then []
      else (let (r, w) = decode_rune s in (r, take w s) # runes (drop w s)))"
  by pat_completeness auto
termination
  by (relation "measure length") (use decode_rune_width in \<open>auto simp: prod_eq_iff\<close>)

declare runes.simps [simp del]

lemma runes_Nil [simp]: "runes [] = []"
  by (simp add: runes.simps)

lemma runes_ascii: "byte c < 0x80 \<Longrightarrow> runes (c # s) = (byte c, [c]) # runes s"
  by (simp add: runes.simps [of "c # s"] decode_rune_def)

lemma concat_runes: "concat (map snd (runes s)) = s"
proof (induction s rule: runes.induct)
  case (1 s)
  then show ?case by (auto simp: runes.simps [of s] split: prod.splits)
qed

text \<open>A code point below 128 was read from that one byte, any other from bytes of 128 and above.\<close>

lemma decode_rune_high:
  assumes "s \<noteq> []" and "decode_rune s = (r, w)"
  shows "if byte (hd s) < 0x80 then r = byte (hd s) \<and> w = 1
         else 0x7e < r \<and> 0x80 \<le> byte (hd s)"
proof (cases s)
  case (Cons c0 s1)
  then show ?thesis using assms(2)
    by (auto simp: decode_rune_def Let_def cont_def split: list.splits if_splits)
qed (use assms in simp)

text \<open>So a test for printable ASCII on runes is a test on bytes.\<close>

lemma runes_printable:
  "(\<forall>(r, bs) \<in> set (runes s). \<not> (r < 0x20 \<or> r > 0x7e)) \<longleftrightarrow> (\<forall>c \<in> set s. 0x20 \<le> byte c \<and> byte c \<le> 0x7e)"
proof (induction s rule: runes.induct)
  case (1 s)
  show ?case
  proof (cases s)
    case (Cons c s')
    obtain r w where rw: "decode_rune s = (r, w)" by fastforce
    note d = decode_rune_high [OF _ rw]
    show ?thesis
    proof (cases "byte c < 0x80")
      case True
      with d Cons have "decode_rune s = (byte c, 1)" using rw by auto
      moreover have "runes s = (byte c, [c]) # runes s'" using True Cons by (simp add: runes_ascii)
      moreover have "\<not> (byte c < 0x20 \<or> byte c > 0x7e) \<longleftrightarrow> 0x20 \<le> byte c \<and> byte c \<le> 0x7e" by auto
      ultimately show ?thesis using 1 Cons by (simp add: not_less)
    next
      case False
      with d Cons have "0x7e < r" by auto
      moreover have "\<not> byte c \<le> 0x7e" using False by simp
      moreover have "runes s = (r, take w s) # runes (drop w s)"
        using Cons rw by (subst runes.simps) simp
      ultimately show ?thesis using Cons by auto
    qed
  qed simp
qed

section \<open>White space\<close>

text \<open>\<open>unicode.IsSpace\<close>.\<close>

definition is_space :: "nat \<Rightarrow> bool" where
  "is_space r \<longleftrightarrow> r \<in> {0x09, 0x0A, 0x0B, 0x0C, 0x0D, 0x20, 0x85, 0xA0, 0x1680,
     0x2028, 0x2029, 0x202F, 0x205F, 0x3000} \<or> (0x2000 \<le> r \<and> r \<le> 0x200A)"

text \<open>\<open>strings.TrimSpace\<close> and \<open>strings.Fields\<close>.\<close>

definition TrimSpace :: "string \<Rightarrow> string" where
  "TrimSpace s =
     concat (map snd
       (rev (dropWhile (\<lambda>(r, _). is_space r) (rev (dropWhile (\<lambda>(r, _). is_space r) (runes s))))))"

fun fields_of :: "(nat \<times> string) list \<Rightarrow> string \<Rightarrow> string list" where
  "fields_of [] cur = (if cur = [] then [] else [cur])"
| "fields_of ((r, bs) # rs) cur =
     (if is_space r then (if cur = [] then fields_of rs [] else cur # fields_of rs [])
      else fields_of rs (cur @ bs))"

definition Fields :: "string \<Rightarrow> string list" where
  "Fields s = fields_of (runes s) []"

lemma fields_of_nonempty: "f \<in> set (fields_of rs cur) \<Longrightarrow> \<forall>(r, bs) \<in> set rs. bs \<noteq> [] \<Longrightarrow> f \<noteq> []"
  by (induction rs cur rule: fields_of.induct) (auto split: if_splits)

section \<open>Rendering\<close>

text \<open>The verbs \<open>%d\<close>, \<open>%02x\<close> of package \<open>fmt\<close>.\<close>

definition digit :: "nat \<Rightarrow> char" where
  "digit d = char_of (48 + d :: nat)"

fun show_nat :: "nat \<Rightarrow> string" where
  "show_nat n = (if n < 10 then [digit n] else show_nat (n div 10) @ [digit (n mod 10)])"

declare show_nat.simps [simp del]

definition show_int :: "int \<Rightarrow> string" where
  "show_int i = (if i < 0 then CHR ''-'' # show_nat (nat (- i)) else show_nat (nat i))"

definition hex_digit :: "nat \<Rightarrow> char" where
  "hex_digit d = (if d < 10 then char_of (48 + d) else char_of (87 + d))"

definition hex2 :: "char \<Rightarrow> string" where
  "hex2 c = [hex_digit (byte c div 16), hex_digit (byte c mod 16)]"

lemma byte_digit: "d < 10 \<Longrightarrow> byte (digit d) = 48 + d"
  by (simp add: digit_def)

lemma digit_inj: "d < 10 \<Longrightarrow> e < 10 \<Longrightarrow> digit d = digit e \<longleftrightarrow> d = e"
  by (metis add_left_cancel byte_digit)

lemma show_nat_digits: "c \<in> set (show_nat n) \<Longrightarrow> 48 \<le> byte c \<and> byte c \<le> 57"
proof (induction n rule: show_nat.induct)
  case (1 n)
  then show ?case by (auto simp: show_nat.simps [of n] byte_digit split: if_splits)
qed

lemma show_nat_nonempty [simp]: "show_nat n \<noteq> []"
  by (subst show_nat.simps) simp

lemma show_nat_last: "last (show_nat n) = digit (n mod 10)"
  by (subst show_nat.simps) simp

lemma show_nat_butlast: "butlast (show_nat n) = (if n < 10 then [] else show_nat (n div 10))"
  by (subst show_nat.simps) simp

lemma show_nat_inj: "show_nat m = show_nat n \<longleftrightarrow> m = n"
proof (induction m arbitrary: n rule: show_nat.induct)
  case (1 m)
  show ?case
  proof
    assume eq: "show_nat m = show_nat n"
    then have mod10: "m mod 10 = n mod 10"
      using digit_inj by (metis mod_less_divisor show_nat_last zero_less_numeral)
    have "m div 10 = n div 10"
    proof (cases "m < 10 \<or> n < 10")
      case True
      then have "m < 10 \<and> n < 10"
        using eq show_nat_butlast [of m] show_nat_butlast [of n] by (metis show_nat_nonempty)
      then show ?thesis by simp
    next
      case False
      then have "show_nat (m div 10) = show_nat (n div 10)"
        using eq show_nat_butlast [of m] show_nat_butlast [of n] by simp
      then have "m div 10 = n div 10" using 1 False by blast
      then show ?thesis .
    qed
    with mod10 show "m = n" by (metis div_mult_mod_eq)
  qed simp
qed

lemma show_int_chars: "c \<in> set (show_int i) \<Longrightarrow> c = CHR ''-'' \<or> (48 \<le> byte c \<and> byte c \<le> 57)"
  using show_nat_digits by (auto simp: show_int_def split: if_splits)

lemma show_int_inj: "show_int i = show_int j \<longleftrightarrow> i = j"
proof -
  have "show_nat n \<noteq> CHR ''-'' # s" for n s
    using show_nat_digits [of "CHR ''-''" n] by (metis list.set_intros(1) not_hex_dash is_hex_def)
  then have "CHR ''-'' # s \<noteq> show_nat n" for n s by metis
  with \<open>\<And>n s. show_nat n \<noteq> CHR ''-'' # s\<close> show ?thesis
    by (simp add: show_int_def show_nat_inj) linarith
qed

lemma not_in_show_int: "byte c < 45 \<or> 57 < byte c \<Longrightarrow> c \<notin> set (show_int i)"
  using show_int_chars [of c i] by auto

lemma show_int_no_sep [simp]:
  "CHR ''|'' \<notin> set (show_int i)" "CHR '':'' \<notin> set (show_int i)"
  by (rule not_in_show_int, simp)+

lemma show_int_no_dot [simp]: "CHR ''.'' \<notin> set (show_int i)"
  using show_int_chars [of "CHR ''.''" i] by auto

text \<open>
  The verb \<open>%q\<close> (\<open>strconv.Quote\<close>). Which code points above Latin-1 are printable is a table of
  package \<open>unicode\<close>, here an argument.
\<close>

definition IsPrint :: "(nat \<Rightarrow> bool) \<Rightarrow> nat \<Rightarrow> bool" where
  "IsPrint table r =
     (if r \<le> 0xFF then (0x20 \<le> r \<and> r < 0x7F) \<or> (0xA1 \<le> r \<and> r \<noteq> 0xAD) else table r)"

fun hex_pad :: "nat \<Rightarrow> nat \<Rightarrow> string" where
  "hex_pad 0 n = []"
| "hex_pad (Suc w) n = hex_pad w (n div 16) @ [hex_digit (n mod 16)]"

definition quote_rune :: "(nat \<Rightarrow> bool) \<Rightarrow> nat \<times> string \<Rightarrow> string" where
  "quote_rune table = (\<lambda>(r, bs).
     if r = 0xFFFD \<and> length bs = 1 then CHR 0x5C # ''x'' @ concat (map hex2 bs)
     else if r = 0x22 \<or> r = 0x5C then CHR 0x5C # bs
     else if IsPrint table r then bs
     else if r = 0x07 then CHR 0x5C # ''a''
     else if r = 0x08 then CHR 0x5C # ''b''
     else if r = 0x0C then CHR 0x5C # ''f''
     else if r = 0x0A then CHR 0x5C # ''n''
     else if r = 0x0D then CHR 0x5C # ''r''
     else if r = 0x09 then CHR 0x5C # ''t''
     else if r = 0x0B then CHR 0x5C # ''v''
     else if r < 0x20 \<or> r = 0x7F then CHR 0x5C # ''x'' @ hex_pad 2 r
     else if r < 0x10000 then CHR 0x5C # ''u'' @ hex_pad 4 r
     else CHR 0x5C # ''U'' @ hex_pad 8 r)"

definition Quote :: "(nat \<Rightarrow> bool) \<Rightarrow> string \<Rightarrow> string" where
  "Quote table s = [CHR 0x22] @ concat (map (quote_rune table) (runes s)) @ [CHR 0x22]"

text \<open>The verb \<open>%t\<close>.\<close>

definition show_bool :: "bool \<Rightarrow> string" where
  "show_bool b = (if b then ''true'' else ''false'')"

text \<open>Prefix and suffix tests.\<close>

definition HasPrefix :: "string \<Rightarrow> string \<Rightarrow> bool" where
  "HasPrefix s p \<longleftrightarrow> length p \<le> length s \<and> take (length p) s = p"

definition HasSuffix :: "string \<Rightarrow> string \<Rightarrow> bool" where
  "HasSuffix s p \<longleftrightarrow> length p \<le> length s \<and> drop (length s - length p) s = p"

lemma HasPrefix_iff: "HasPrefix s p \<longleftrightarrow> (\<exists>t. s = p @ t)"
proof
  assume "HasPrefix s p"
  then have "s = p @ drop (length p) s" unfolding HasPrefix_def by (metis append_take_drop_id)
  then show "\<exists>t. s = p @ t" ..
qed (auto simp: HasPrefix_def)

lemma HasSuffix_iff: "HasSuffix s p \<longleftrightarrow> (\<exists>t. s = t @ p)"
proof
  assume "HasSuffix s p"
  then have "s = take (length s - length p) s @ p" unfolding HasSuffix_def by (metis append_take_drop_id)
  then show "\<exists>t. s = t @ p" ..
qed (auto simp: HasSuffix_def)

end
