(* ===== verification/Config.thy ===== *)
theory Config
  imports GoStrings
begin

text \<open>
  \<open>internal/config\<close>: the runtime configuration read from environment variables, with site, tenant
  and region back-filled from the search lines of \<open>/etc/resolv.conf\<close>. The environment is a function
  from names to values (unset is the empty string, as \<open>os.Getenv\<close> reports it); the file is its
  bytes, or None when it cannot be opened.
\<close>

section \<open>The configuration record\<close>

record config =
  SiteID :: string
  Tenant :: string
  Region :: string
  MCPVersion :: string
  OperatorNamespace :: string
  TawonNamespace :: string
  OperatorDeploymentName :: string
  WebhookConfigName :: string
  DirectiveLabelSelector :: string
  CRDAPIGroup :: string
  FieldManager :: string
  NATSURL :: string
  DefenseNATSURL :: string

definition defaultOperatorNamespace :: string where
  "defaultOperatorNamespace = ''operators''"
definition defaultTawonNamespace :: string where
  "defaultTawonNamespace = ''tawon-operator''"
definition defaultOperatorDeploymentName :: string where
  "defaultOperatorDeploymentName = ''tawon-operator-controller-manager''"
definition defaultWebhookConfigName :: string where
  "defaultWebhookConfigName = ''eob-mutate''"
definition defaultDirectiveSelector :: string where
  "defaultDirectiveSelector = ''app.kubernetes.io/name=tawon-directive''"
definition defaultCRDAPIGroup :: string where
  "defaultCRDAPIGroup = ''tawon.mantisnet.com''"
definition defaultFieldManager :: string where
  "defaultFieldManager = ''eob-mcp''"

lemmas config_defaults =
  defaultOperatorNamespace_def defaultTawonNamespace_def defaultOperatorDeploymentName_def
  defaultWebhookConfigName_def defaultDirectiveSelector_def defaultCRDAPIGroup_def
  defaultFieldManager_def

section \<open>Discovery from resolv.conf\<close>

text \<open>
  \<open>bufio.Scanner\<close> over lines: a line of 64 KiB or more (\<open>bufio.MaxScanTokenSize\<close>) ends the scan,
  a trailing carriage return is dropped, and an empty rest after the last newline is no line.
\<close>

definition MaxScanTokenSize :: nat where
  "MaxScanTokenSize = 65536"

definition dropCR :: "string \<Rightarrow> string" where
  "dropCR s = (if s \<noteq> [] \<and> last s = CHR 0x0D then butlast s else s)"

definition raw_lines :: "string \<Rightarrow> string list" where
  "raw_lines text =
     (let ls = split_on (CHR 0x0A) text in if last ls = [] then butlast ls else ls)"

definition scan_lines :: "string \<Rightarrow> string list" where
  "scan_lines text = map dropCR (takeWhile (\<lambda>l. length l < MaxScanTokenSize) (raw_lines text))"

definition parseTenantLocalToken :: "string \<Rightarrow> (string \<times> string) option" where
  "parseTenantLocalToken tok =
     (if \<not> HasSuffix tok ''.tenant.local'' then None
      else let parts = split_on (CHR ''.'') tok in
        if length parts \<noteq> 4 then None
        else if parts ! 0 = [] \<or> parts ! 1 = [] then None
        else Some (parts ! 0, parts ! 1))"

definition parseComputeInternalToken :: "string \<Rightarrow> string option" where
  "parseComputeInternalToken tok =
     (if \<not> HasSuffix tok ''.compute.internal'' then None
      else let parts = split_on (CHR ''.'') tok in
        if length parts \<noteq> 3 then None
        else if parts ! 0 = [] then None
        else Some (parts ! 0))"

type_synonym identity = "string \<times> string \<times> string"

definition discover_token :: "string \<Rightarrow> identity \<Rightarrow> identity" where
  "discover_token tok = (\<lambda>(site, tenant, region).
     (case parseTenantLocalToken tok of
        Some (s, t) \<Rightarrow>
          (if site = [] then s else site, if tenant = [] then t else tenant, region)
      | None \<Rightarrow>
          (case parseComputeInternalToken tok of
             Some r \<Rightarrow> (site, tenant, if region = [] then r else region)
           | None \<Rightarrow> (site, tenant, region))))"

definition discover_line :: "string \<Rightarrow> identity \<Rightarrow> identity" where
  "discover_line text st =
     (let line = TrimSpace text in
      if \<not> HasPrefix line ''search'' then st
      else let fields = Fields line in
        if length fields < 2 then st
        else fold discover_token (tl fields) st)"

definition discoverFromResolvConf :: "string option \<Rightarrow> identity" where
  "discoverFromResolvConf file =
     (case file of
        None \<Rightarrow> ([], [], [])
      | Some text \<Rightarrow> fold discover_line (scan_lines text) ([], [], []))"

section \<open>FromEnv\<close>

definition envOrDefault :: "(string \<Rightarrow> string) \<Rightarrow> string \<Rightarrow> string \<Rightarrow> string" where
  "envOrDefault env key def = (if env key \<noteq> [] then env key else def)"

definition FromEnv :: "(string \<Rightarrow> string) \<Rightarrow> string option \<Rightarrow> string \<Rightarrow> config" where
  "FromEnv env file mcpVersion =
     (let site = env ''EOB_SITE_ID''; tenant = env ''EOB_TENANT''; region = env ''EOB_REGION'';
          (site, tenant, region) =
            (if site = [] \<or> tenant = [] \<or> region = [] then
               (let (ds, dt, dr) = discoverFromResolvConf file in
                (if site = [] then ds else site,
                 if tenant = [] then dt else tenant,
                 if region = [] then dr else region))
             else (site, tenant, region))
      in \<lparr>SiteID = site, Tenant = tenant, Region = region, MCPVersion = mcpVersion,
          OperatorNamespace = envOrDefault env ''EOB_OPERATOR_NAMESPACE'' defaultOperatorNamespace,
          TawonNamespace = envOrDefault env ''EOB_TAWON_NAMESPACE'' defaultTawonNamespace,
          OperatorDeploymentName =
            envOrDefault env ''EOB_OPERATOR_DEPLOYMENT'' defaultOperatorDeploymentName,
          WebhookConfigName = envOrDefault env ''EOB_WEBHOOK_CONFIG'' defaultWebhookConfigName,
          DirectiveLabelSelector =
            envOrDefault env ''EOB_DIRECTIVE_SELECTOR'' defaultDirectiveSelector,
          CRDAPIGroup = envOrDefault env ''EOB_CRD_API_GROUP'' defaultCRDAPIGroup,
          FieldManager = envOrDefault env ''EOB_FIELD_MANAGER'' defaultFieldManager,
          NATSURL = env ''EOB_NATS_URL'',
          DefenseNATSURL = env ''EOB_DEFENSE_NATS_URL''\<rparr>)"

lemma envOrDefault_nonempty [simp]:
  "d \<noteq> [] \<Longrightarrow> envOrDefault env k d \<noteq> []" "d \<noteq> [] \<Longrightarrow> [] \<noteq> envOrDefault env k d"
  by (auto simp: envOrDefault_def)

section \<open>Lemmas: the token parsers\<close>

lemma split_dot_tenant_local:
  "split_on (CHR ''.'') ''tenant.local'' = [''tenant'', ''local'']"
  "split_on (CHR ''.'') ''compute.internal'' = [''compute'', ''internal'']"
  by simp_all

lemma list4: "length ps = 4 \<Longrightarrow> ps = [ps ! 0, ps ! 1, ps ! 2, ps ! 3]"
  by (rule nth_equalityI) (auto simp: less_Suc_eq numeral_eq_Suc)

lemma list3: "length ps = 3 \<Longrightarrow> ps = [ps ! 0, ps ! 1, ps ! 2]"
  by (rule nth_equalityI) (auto simp: less_Suc_eq numeral_eq_Suc)

lemma parseTenantLocalToken_complete:
  assumes "s \<noteq> []" "t \<noteq> []" "CHR ''.'' \<notin> set s" "CHR ''.'' \<notin> set t"
  shows "parseTenantLocalToken (s @ ''.'' @ t @ ''.tenant.local'') = Some (s, t)"
proof -
  let ?tok = "s @ CHR ''.'' # t @ ''.tenant.local''"
  have "split_on (CHR ''.'') ?tok = [s, t, ''tenant'', ''local'']"
    using assms(3,4) by (simp add: split_on_cons)
  moreover have "HasSuffix ?tok ''.tenant.local''"
    unfolding HasSuffix_iff by (rule exI [of _ "s @ CHR ''.'' # t"]) simp
  ultimately show ?thesis using assms(1,2) by (simp add: parseTenantLocalToken_def)
qed

lemma parseTenantLocalToken_sound:
  assumes "parseTenantLocalToken tok = Some (s, t)"
  shows "s \<noteq> [] \<and> t \<noteq> [] \<and> CHR ''.'' \<notin> set s \<and> CHR ''.'' \<notin> set t
         \<and> tok = s @ ''.'' @ t @ ''.tenant.local''"
proof -
  let ?parts = "split_on (CHR ''.'') tok"
  from assms have suf: "HasSuffix tok ''.tenant.local''" and len: "length ?parts = 4"
    and st: "?parts ! 0 = s" "?parts ! 1 = t" "s \<noteq> []" "t \<noteq> []"
    by (auto simp: parseTenantLocalToken_def Let_def split: if_splits)
  define p where "p = ?parts ! 2"
  define q where "q = ?parts ! 3"
  have parts: "?parts = [s, t, p, q]" using list4 [OF len] st(1,2) p_def q_def by simp
  then have nodot: "CHR ''.'' \<notin> set s" "CHR ''.'' \<notin> set t" "CHR ''.'' \<notin> set p" "CHR ''.'' \<notin> set q"
    and tok: "tok = s @ CHR ''.'' # t @ CHR ''.'' # p @ CHR ''.'' # q"
    using split_on_eq_iff [of "CHR ''.''" tok "[s, t, p, q]"] by auto
  from suf obtain u where u: "tok = u @ ''.tenant.local''" unfolding HasSuffix_iff by blast
  then have "tok = u @ CHR ''.'' # ''tenant.local''" by simp
  then have "split_on (CHR ''.'') tok = split_on (CHR ''.'') u @ [''tenant'', ''local'']"
    by (simp only: split_on_append split_dot_tenant_local)
  with parts have "[s, t] @ [p, q] = split_on (CHR ''.'') u @ [''tenant'', ''local'']" by simp
  then have "[p, q] = [''tenant'', ''local'']"
    by (rule append_eq_append_conv [THEN iffD1, THEN conjunct2, rotated]) simp
  with st nodot tok show ?thesis by simp
qed

lemma parseComputeInternalToken_Some:
  "parseComputeInternalToken tok = Some r \<Longrightarrow> r \<noteq> [] \<and> CHR ''.'' \<notin> set r"
proof -
  let ?parts = "split_on (CHR ''.'') tok"
  assume "parseComputeInternalToken tok = Some r"
  then have "length ?parts = 3" "?parts ! 0 = r" "r \<noteq> []"
    by (auto simp: parseComputeInternalToken_def Let_def split: if_splits)
  then show ?thesis
    by (metis nth_mem split_on_parts zero_less_numeral)
qed

section \<open>Lemmas: the scan\<close>

text \<open>The tokens the scan looks at, in order.\<close>

definition search_tokens :: "string \<Rightarrow> string list" where
  "search_tokens text =
     concat (map (\<lambda>l. let line = TrimSpace l in
                if HasPrefix line ''search'' then tl (Fields line) else []) (scan_lines text))"

text \<open>The first token of a list that parses.\<close>

fun first_parsed :: "(string \<Rightarrow> 'b option) \<Rightarrow> string list \<Rightarrow> 'b option" where
  "first_parsed f [] = None"
| "first_parsed f (x # xs) = (case f x of Some y \<Rightarrow> Some y | None \<Rightarrow> first_parsed f xs)"

lemma discover_line_tokens:
  "discover_line l = fold discover_token
     (let line = TrimSpace l in if HasPrefix line ''search'' then tl (Fields line) else [])"
proof
  fix st
  show "discover_line l st = fold discover_token
     (let line = TrimSpace l in if HasPrefix line ''search'' then tl (Fields line) else []) st"
    by (cases "Fields (TrimSpace l)")
       (auto simp: discover_line_def Let_def neq_Nil_conv numeral_eq_Suc less_Suc_eq_le)
qed

lemma fold_discover_lines:
  "fold discover_line ls st = fold discover_token
     (concat (map (\<lambda>l. let line = TrimSpace l in
                if HasPrefix line ''search'' then tl (Fields line) else []) ls)) st"
  by (induction ls arbitrary: st) (simp_all add: discover_line_tokens)

lemma discover_search_tokens:
  "discoverFromResolvConf (Some text) = fold discover_token (search_tokens text) ([], [], [])"
  by (simp add: discoverFromResolvConf_def search_tokens_def fold_discover_lines)

definition compute_only :: "string \<Rightarrow> string option" where
  "compute_only tok =
     (if parseTenantLocalToken tok = None then parseComputeInternalToken tok else None)"

lemma discover_token_tenant:
  "parseTenantLocalToken tok = Some (s, t) \<Longrightarrow>
     discover_token tok (site, tenant, region) =
       (if site = [] then s else site, if tenant = [] then t else tenant, region)"
  by (simp add: discover_token_def)

lemma discover_token_compute:
  "parseTenantLocalToken tok = None \<Longrightarrow>
     discover_token tok (site, tenant, region) =
       (site, tenant, case compute_only tok of
                        Some r \<Rightarrow> if region = [] then r else region | None \<Rightarrow> region)"
  by (auto simp: discover_token_def compute_only_def split: option.splits)

lemma compute_only_simps:
  "parseTenantLocalToken tok = Some p \<Longrightarrow> compute_only tok = None"
  "compute_only tok = Some r \<Longrightarrow> r \<noteq> []"
  by (auto simp: compute_only_def dest: parseComputeInternalToken_Some split: if_splits)

lemma fold_discover_set:
  assumes "site \<noteq> []" "tenant \<noteq> []"
  shows "fold discover_token toks (site, tenant, region) =
     (site, tenant, if region \<noteq> [] then region
                    else case first_parsed compute_only toks of Some r \<Rightarrow> r | None \<Rightarrow> [])"
  using assms
proof (induction toks arbitrary: region)
  case (Cons tok toks)
  show ?case
  proof (cases "parseTenantLocalToken tok")
    case None
    then show ?thesis using Cons
      by (auto simp: discover_token_compute dest: compute_only_simps(2) split: option.split)
  next
    case (Some p)
    then show ?thesis using Cons
      by (cases p) (simp add: discover_token_tenant compute_only_simps(1))
  qed
qed simp

lemma fold_discover_unset:
  "fold discover_token toks ([], [], region) =
     (case first_parsed parseTenantLocalToken toks of Some (s, t) \<Rightarrow> s | None \<Rightarrow> [],
      case first_parsed parseTenantLocalToken toks of Some (s, t) \<Rightarrow> t | None \<Rightarrow> [],
      if region \<noteq> [] then region
      else case first_parsed compute_only toks of Some r \<Rightarrow> r | None \<Rightarrow> [])"
proof (induction toks arbitrary: region)
  case (Cons tok toks)
  show ?case
  proof (cases "parseTenantLocalToken tok")
    case None
    then show ?thesis using Cons
      by (auto simp: discover_token_compute dest: compute_only_simps(2) split: option.split)
  next
    case (Some p)
    then obtain s t where "p = (s, t)" "s \<noteq> []" "t \<noteq> []"
      by (cases p) (auto dest: parseTenantLocalToken_sound)
    then show ?thesis using Some
      by (simp add: discover_token_tenant compute_only_simps(1) fold_discover_set)
  qed
qed simp

lemma first_parsed_Some: "first_parsed f xs = Some y \<Longrightarrow> \<exists>x \<in> set xs. f x = Some y"
  by (induction xs) (auto split: option.splits)

section \<open>Properties\<close>

text \<open>
  The tenant token parser accepts exactly the tokens \<open>site.tenant.tenant.local\<close> of four
  non-empty labels, and returns the first two.
\<close>

theorem parseTenantLocalToken_iff:
  "parseTenantLocalToken tok = Some (s, t) \<longleftrightarrow>
     s \<noteq> [] \<and> t \<noteq> [] \<and> CHR ''.'' \<notin> set s \<and> CHR ''.'' \<notin> set t \<and>
     tok = s @ ''.'' @ t @ ''.tenant.local''"
  using parseTenantLocalToken_complete parseTenantLocalToken_sound by blast

text \<open>
  C36. Discovery returns, over the tokens of all search lines in file order, the site and the tenant
  of the first tenant token (both from that one token) and the region of the first compute token;
  later entries never overwrite, and a file that cannot be opened gives nothing.
\<close>

theorem discover_first_match:
  "discoverFromResolvConf (Some text) =
     (case first_parsed parseTenantLocalToken (search_tokens text) of Some (s, t) \<Rightarrow> s | None \<Rightarrow> [],
      case first_parsed parseTenantLocalToken (search_tokens text) of Some (s, t) \<Rightarrow> t | None \<Rightarrow> [],
      case first_parsed compute_only (search_tokens text) of Some r \<Rightarrow> r | None \<Rightarrow> [])
   \<and> discoverFromResolvConf None = ([], [], [])"
  by (simp add: discover_search_tokens fold_discover_unset discoverFromResolvConf_def [of None])

text \<open>
  An explicit environment value of an identity field always wins over discovery, field by field,
  and the namespaces and resource names the Kubernetes lookups use are never empty.
\<close>

theorem FromEnv_fields:
  "SiteID (FromEnv env file v) =
     (if env ''EOB_SITE_ID'' \<noteq> [] then env ''EOB_SITE_ID'' else fst (discoverFromResolvConf file)) \<and>
   Tenant (FromEnv env file v) =
     (if env ''EOB_TENANT'' \<noteq> [] then env ''EOB_TENANT'' else fst (snd (discoverFromResolvConf file))) \<and>
   Region (FromEnv env file v) =
     (if env ''EOB_REGION'' \<noteq> [] then env ''EOB_REGION'' else snd (snd (discoverFromResolvConf file))) \<and>
   [] \<notin> {OperatorNamespace (FromEnv env file v), TawonNamespace (FromEnv env file v),
     OperatorDeploymentName (FromEnv env file v), WebhookConfigName (FromEnv env file v),
     DirectiveLabelSelector (FromEnv env file v), CRDAPIGroup (FromEnv env file v),
     FieldManager (FromEnv env file v)}"
  by (auto simp: FromEnv_def Let_def config_defaults split: prod.splits)

end
