(* ===== verification/GoTime.thy ===== *)
theory GoTime
  imports GoStrings
begin

text \<open>
  What the components use of Go's package \<open>time\<close>: instants with a zone offset, the zero time,
  durations, and the two layouts the service renders times in. An instant is a count of nanoseconds
  from the zero time (1 January of year 1, UTC), so \<open>IsZero\<close> is a test for 0. Dates follow the
  proleptic Gregorian calendar in 400-year eras, as the package computes them.
\<close>

record gotime =
  t_ns :: int
  t_off :: int

definition zero_time :: gotime where
  "zero_time = \<lparr>t_ns = 0, t_off = 0\<rparr>"

definition IsZero :: "gotime \<Rightarrow> bool" where
  "IsZero t \<longleftrightarrow> t_ns t = 0"

definition After :: "gotime \<Rightarrow> gotime \<Rightarrow> bool" where
  "After t u \<longleftrightarrow> t_ns t > t_ns u"

text \<open>\<open>t.Sub(u)\<close>: a duration in nanoseconds, saturating at the ends of int64.\<close>

definition Sub :: "gotime \<Rightarrow> gotime \<Rightarrow> int" where
  "Sub t u = max (- (2 ^ 63)) (min (2 ^ 63 - 1) (t_ns t - t_ns u))"

definition Second :: int where
  "Second = 10 ^ 9"

lemma IsZero_zero [simp]: "IsZero zero_time"
  by (simp add: IsZero_def zero_time_def)

text \<open>Year, month and day of a day number (day 0 is 1 January of year 1).\<close>

definition civil :: "int \<Rightarrow> int \<times> int \<times> int" where
  "civil days =
     (let z = days + 306; era = z div 146097; doe = z mod 146097;
          yoe = (doe - doe div 1460 + doe div 36524 - doe div 146096) div 365;
          doy = doe - (365 * yoe + yoe div 4 - yoe div 100);
          mp = (5 * doy + 2) div 153;
          d = doy - (153 * mp + 2) div 5 + 1;
          m = (if mp < 10 then mp + 3 else mp - 9)
      in (yoe + era * 400 + (if m \<le> 2 then 1 else 0), m, d))"

text \<open>Decimal rendering padded with zeros to a width.\<close>

definition pad :: "nat \<Rightarrow> int \<Rightarrow> string" where
  "pad w i =
     (let ds = show_nat (nat \<bar>i\<bar>)
      in (if i < 0 then ''-'' else []) @ replicate (w - length ds) (CHR ''0'') @ ds)"

text \<open>The wall clock \<open>2006-01-02T15:04:05\<close> of an instant in its own zone.\<close>

definition format_clock :: "gotime \<Rightarrow> string" where
  "format_clock t =
     (let s = t_ns t div Second + t_off t; sod = s mod 86400;
          (y, m, d) = civil (s div 86400)
      in pad 4 y @ ''-'' @ pad 2 m @ ''-'' @ pad 2 d @ ''T'' @
         pad 2 (sod div 3600) @ '':'' @ pad 2 (sod div 60 mod 60) @ '':'' @ pad 2 (sod mod 60))"

definition format_zone :: "int \<Rightarrow> string" where
  "format_zone off =
     (if off = 0 then ''Z''
      else let zone = \<bar>off\<bar> div 60 in
        (if zone > 0 \<and> off < 0 then ''-'' else ''+'') @ pad 2 (zone div 60) @ '':'' @ pad 2 (zone mod 60))"

definition format_RFC3339 :: "gotime \<Rightarrow> string" where
  "format_RFC3339 t = format_clock t @ format_zone (t_off t)"

text \<open>The layout \<open>2006-01-02T15:04:05Z\<close>: its Z is a literal, whatever the zone.\<close>

definition format_literal_Z :: "gotime \<Rightarrow> string" where
  "format_literal_Z t = format_clock t @ ''Z''"

text \<open>\<open>rfc3339OrEmpty\<close> (\<open>stream_list.go\<close>): the zero time is the empty string.\<close>

definition rfc3339OrEmpty :: "gotime \<Rightarrow> string" where
  "rfc3339OrEmpty t = (if IsZero t then [] else format_RFC3339 t)"

lemma rfc3339OrEmpty_Nil: "rfc3339OrEmpty t = [] \<longleftrightarrow> IsZero t"
  by (simp add: rfc3339OrEmpty_def format_RFC3339_def format_zone_def Let_def)

end
