(* ===== verification/Timestamps.thy ===== *)
theory Timestamps
  imports GoTime "HOL-Library.Monad_Syntax"
begin

text \<open>
  \<open>time.Parse\<close> for the layout \<open>time.RFC3339\<close>, which the service uses for the time windows of its stream calls,
  and the round trip with the rendering of \<open>GoTime\<close>: a time the service has shown is understood when a
  client sends it back. Parsing gives None where the library gives an error.
\<close>

section \<open>Dates\<close>

definition is_leap :: "int \<Rightarrow> bool" where
  "is_leap y \<longleftrightarrow> y mod 4 = 0 \<and> (y mod 100 \<noteq> 0 \<or> y mod 400 = 0)"

definition days_in :: "int \<Rightarrow> int \<Rightarrow> int" where
  "days_in m y = (if m = 2 then (if is_leap y then 29 else 28) else if m \<in> {4, 6, 9, 11} then 30 else 31)"

text \<open>The days before year \<open>y\<close> of an era that starts on 1 March, and the day number of a date.\<close>

definition days_before :: "int \<Rightarrow> int" where
  "days_before y = 365 * y + y div 4 - y div 100"

definition date_days :: "int \<Rightarrow> int \<Rightarrow> int \<Rightarrow> int" where
  "date_days y m d =
     (let y1 = (if m \<le> 2 then y - 1 else y); mp = (if m > 2 then m - 3 else m + 9)
      in y1 div 400 * 146097 + days_before (y1 mod 400) + (153 * mp + 2) div 5 + d - 1 - 306)"

section \<open>Parsing\<close>

definition is_digit :: "char \<Rightarrow> bool" where
  "is_digit c \<longleftrightarrow> 48 \<le> byte c \<and> byte c \<le> 57"

definition digit_val :: "char \<Rightarrow> int" where
  "digit_val c = int (byte c) - 48"

text \<open>The number that a string of digits shows.\<close>

definition digits_val :: "string \<Rightarrow> int" where
  "digits_val s = foldl (\<lambda>n c. 10 * n + digit_val c) 0 s"

fun skip :: "char \<Rightarrow> string \<Rightarrow> string option" where
  "skip c [] = None"
| "skip c (x # xs) = (if x = c then Some xs else None)"

text \<open>Two digits, or one where the width is not fixed.\<close>

fun getnum :: "bool \<Rightarrow> string \<Rightarrow> (int \<times> string) option" where
  "getnum fixed (a # b # s) =
     (if \<not> is_digit a then None
      else if is_digit b then Some (10 * digit_val a + digit_val b, s)
      else if fixed then None else Some (digit_val a, b # s))"
| "getnum fixed [a] = (if is_digit a \<and> \<not> fixed then Some (digit_val a, []) else None)"
| "getnum fixed [] = None"

definition get_year :: "string \<Rightarrow> (int \<times> string) option" where
  "get_year s =
     (if length s < 4 \<or> \<not> list_all is_digit (take 4 s) then None else Some (digits_val (take 4 s), drop 4 s))"

text \<open>A fraction of a second after a period or a comma: any number of digits, nine of which count.\<close>

definition get_fraction :: "string \<Rightarrow> int \<times> string" where
  "get_fraction s =
     (case s of
        c # d # r \<Rightarrow>
          if (c = CHR ''.'' \<or> c = CHR '','') \<and> is_digit d then
            (let ds = takeWhile is_digit (d # r); used = take 9 ds
             in (digits_val used * 10 ^ (9 - length used), dropWhile is_digit (d # r)))
          else (0, s)
      | _ \<Rightarrow> (0, s))"

text \<open>The zone: \<open>Z\<close>, or a sign, two digits, a colon and two digits.\<close>

definition get_zone :: "string \<Rightarrow> (int \<times> string) option" where
  "get_zone s =
     (case s of
        [] \<Rightarrow> None
      | c # r \<Rightarrow>
          if c = CHR ''Z'' then Some (0, r)
          else do {
            (hr, r) \<leftarrow> getnum True r;
            r \<leftarrow> skip (CHR '':'') r;
            (mm, r) \<leftarrow> getnum True r;
            if hr > 24 \<or> mm > 60 then None
            else if c = CHR ''+'' then Some (hr * 3600 + mm * 60, r)
            else if c = CHR ''-'' then Some (- (hr * 3600 + mm * 60), r)
            else None
          })"

definition in_range :: "int \<Rightarrow> int \<Rightarrow> (int \<times> 's) option \<Rightarrow> (int \<times> 's) option" where
  "in_range lo hi p = (case p of Some (n, s) \<Rightarrow> if lo \<le> n \<and> n \<le> hi then Some (n, s) else None | None \<Rightarrow> None)"

definition parse_RFC3339 :: "string \<Rightarrow> gotime option" where
  "parse_RFC3339 value = do {
     (year, s) \<leftarrow> get_year value;
     s \<leftarrow> skip (CHR ''-'') s;
     (month, s) \<leftarrow> in_range 1 12 (getnum True s);
     s \<leftarrow> skip (CHR ''-'') s;
     (day, s) \<leftarrow> getnum True s;
     s \<leftarrow> skip (CHR ''T'') s;
     (hour, s) \<leftarrow> in_range 0 23 (getnum False s);
     s \<leftarrow> skip (CHR '':'') s;
     (minute, s) \<leftarrow> in_range 0 59 (getnum True s);
     s \<leftarrow> skip (CHR '':'') s;
     (sec, s) \<leftarrow> in_range 0 59 (getnum True s);
     let (nsec, s) = get_fraction s;
     (off, s) \<leftarrow> get_zone s;
     if s \<noteq> [] \<or> day < 1 \<or> day > days_in month year then None
     else Some \<lparr>t_ns = (date_days year month day * 86400 + hour * 3600 + minute * 60 + sec - off) * Second + nsec,
                t_off = off\<rparr>
   }"

section \<open>The calendar\<close>

definition year_of_day :: "int \<Rightarrow> int" where
  "year_of_day doe = (doe - doe div 1460 + doe div 36524 - doe div 146096) div 365"

lemma days_before_parts:
  assumes "0 \<le> a" "a \<le> 3" "0 \<le> b" "b \<le> 24"
  shows "days_before (100 * c + 4 * b + a) = 36524 * c + 1461 * b + 365 * a"
proof -
  have "(100 * c + 4 * b + a) div 4 = 25 * c + b" by (rule int_div_pos_eq [of _ _ _ a]) (use assms in simp_all)
  moreover have "(100 * c + 4 * b + a) div 100 = c" by (rule int_div_pos_eq [of _ _ _ "4 * b + a"]) (use assms in simp_all)
  ultimately show ?thesis by (simp add: days_before_def)
qed

lemma year_of_day_parts:
  assumes "0 \<le> c" "c \<le> 3" "0 \<le> b" "b \<le> 24" "0 \<le> a" "a \<le> 3" "0 \<le> r" "r \<le> 365"
    and "r = 365 \<Longrightarrow> a = 3 \<and> (b < 24 \<or> c = 3)"
  shows "year_of_day (36524 * c + 1461 * b + 365 * a + r) = 100 * c + 4 * b + a"
proof -
  let ?doe = "36524 * c + 1461 * b + 365 * a + r"
  define x where "x = 24 * c + b + 365 * a + r"
  define e where "e = (if 1460 \<le> x then 1 else 0 :: int)"
  have x: "0 \<le> x" "x < 2920" using assms by (simp_all add: x_def)
  have "?doe div 1460 = 25 * c + b + e"
    by (rule int_div_pos_eq [of _ _ _ "x - 1460 * e"]) (use x in \<open>auto simp: x_def e_def\<close>)
  moreover have "?doe div 36524 - ?doe div 146096 = c"
  proof (cases "1461 * b + 365 * a + r = 36524")
    case True
    then have "c = 3" using assms by linarith
    then have "?doe = 146096" using True by simp
    then show ?thesis using \<open>c = 3\<close> by simp
  next
    case False
    then have less: "1461 * b + 365 * a + r < 36524" using assms by linarith
    have "?doe div 36524 = c" by (rule int_div_pos_eq [of _ _ _ "1461 * b + 365 * a + r"]) (use less assms in simp_all)
    moreover have "?doe div 146096 = 0" by (rule int_div_pos_eq [of _ _ _ ?doe]) (use less assms in simp_all)
    ultimately show ?thesis by simp
  qed
  ultimately have "year_of_day ?doe = (365 * (100 * c + 4 * b + a) + (r - e)) div 365"
    unfolding year_of_day_def by (simp add: algebra_simps)
  also have "\<dots> = 100 * c + 4 * b + a"
  proof (rule int_div_pos_eq [of _ _ _ "r - e"])
    show "0 \<le> r - e" using assms(1-8) by (auto simp: e_def x_def)
    show "r - e < 365" using assms by (cases "r = 365") (auto simp: e_def x_def)
  qed simp_all
  finally show ?thesis .
qed

text \<open>A day of an era is in the year that the formula gives; the 366th day exists only before a leap day.\<close>

lemma era_day:
  assumes "0 \<le> doe" "doe < 146097"
  obtains y r where "0 \<le> y" "y < 400" "doe = days_before y + r" "0 \<le> r" "r < 366" "r = 365 \<Longrightarrow> is_leap (y + 1)"
    "year_of_day doe = y"
proof -
  define c where "c = min 3 (doe div 36524)"
  define d1 where "d1 = doe - 36524 * c"
  define b where "b = d1 div 1461"
  define d2 where "d2 = d1 mod 1461"
  define a where "a = min 3 (d2 div 365)"
  define r where "r = d2 - 365 * a"
  have c: "0 \<le> c" "c \<le> 3" "0 \<le> d1" "d1 \<le> 36524" "c < 3 \<Longrightarrow> d1 < 36524"
    using assms unfolding c_def d1_def by (auto simp: min_def)
  then have b: "0 \<le> b" "b \<le> 24" "0 \<le> d2" "d2 < 1461" "d1 = 1461 * b + d2" unfolding b_def d2_def by auto
  then have a: "0 \<le> a" "a \<le> 3" "0 \<le> r" "r \<le> 365" "r = 365 \<Longrightarrow> a = 3" "d2 = 365 * a + r"
    unfolding a_def r_def by (auto simp: min_def split: if_splits)
  have doe: "doe = 36524 * c + 1461 * b + 365 * a + r" using a(6) b(5) by (simp add: d1_def)
  have last: "r = 365 \<Longrightarrow> a = 3 \<and> (b < 24 \<or> c = 3)" using a b c by linarith
  have leap: "is_leap (100 * c + 4 * b + a + 1)" if "r = 365"
  proof (cases "b < 24")
    case True
    have "a = 3" using last that by simp
    then have *: "100 * c + 4 * b + a + 1 = 100 * c + 4 * (b + 1)" by simp
    have "(100 * c + 4 * (b + 1)) mod 4 = 0" by (rule int_mod_pos_eq [of _ _ "25 * c + b + 1"]) simp_all
    moreover have "(100 * c + 4 * (b + 1)) mod 100 = 4 * (b + 1)"
      by (rule int_mod_pos_eq [of _ _ c]) (use True b(1) in simp_all)
    ultimately show ?thesis unfolding is_leap_def * using b(1) by simp
  next
    case False
    then have "b = 24" "c = 3" "a = 3" using last that b(2) by auto
    then show ?thesis by (simp add: is_leap_def)
  qed
  have y: "0 \<le> 100 * c + 4 * b + a" "100 * c + 4 * b + a < 400" using a b c by simp_all
  have "year_of_day doe = 100 * c + 4 * b + a"
    unfolding doe by (rule year_of_day_parts) (use a(1-4) b(1,2) c(1,2) last in simp_all)
  moreover have "doe = days_before (100 * c + 4 * b + a) + r"
    unfolding doe by (simp add: days_before_parts a(1,2) b(1,2))
  ultimately show thesis using that y a(3,4) leap by simp
qed

text \<open>The month and the day of the day \<open>r\<close> of a year that starts on 1 March.\<close>

lemma month_day:
  fixes r :: int
  assumes "0 \<le> r" "r < 366" and "mp = (5 * r + 2) div 153" "d = r - (153 * mp + 2) div 5 + 1"
    and "m = (if mp < 10 then mp + 3 else mp - 9)"
  shows "0 \<le> mp \<and> mp < 12 \<and> 1 \<le> d \<and>
    d \<le> (if m = 2 then if r = 365 then 29 else 28 else if m \<in> {4, 6, 9, 11} then 30 else 31)"
proof -
  have mp: "0 \<le> mp" "mp < 12" "153 * mp \<le> 5 * r + 2" "5 * r + 2 < 153 * mp + 153" using assms(1-3) by linarith+
  have "mp \<in> {0, 1, 2, 3, 4, 5, 6, 7, 8, 9, 10, 11}" using mp(1,2) by simp presburger
  then show ?thesis using assms(1,2,4,5) mp(3,4) by (elim insertE emptyE) simp_all
qed

lemma is_leap_era: "is_leap (y + 400 * era) = is_leap y"
proof -
  have "(y + 400 * era) mod 4 = y mod 4" "(y + 400 * era) mod 100 = y mod 100" "(y + 400 * era) mod 400 = y mod 400"
    using mod_mult_self2 [of y 4 "100 * era"] mod_mult_self2 [of y 100 "4 * era"] by simp_all
  then show ?thesis by (simp add: is_leap_def)
qed

lemma civil_date:
  assumes "civil z = (y, m, d)"
  shows "date_days y m d = z" "1 \<le> m" "m \<le> 12" "1 \<le> d" "d \<le> days_in m y"
proof -
  define era doe where "era = (z + 306) div 146097" and "doe = (z + 306) mod 146097"
  have z: "z + 306 = era * 146097 + doe" by (simp add: era_def doe_def)
  obtain y0 r where y0: "0 \<le> y0" "y0 < 400" and doe: "doe = days_before y0 + r" and r: "0 \<le> r" "r < 366"
    and leap: "r = 365 \<Longrightarrow> is_leap (y0 + 1)" and yod: "year_of_day doe = y0"
    by (rule era_day [of doe]) (simp_all add: doe_def)
  define mp where "mp = (5 * r + 2) div 153"
  have doy: "doe - (365 * y0 + y0 div 4 - y0 div 100) = r" by (simp add: doe days_before_def)
  have "civil z = (let m = (if mp < 10 then mp + 3 else mp - 9) in
      (y0 + era * 400 + (if m \<le> 2 then 1 else 0), m, r - (153 * mp + 2) div 5 + 1))"
    unfolding civil_def Let_def
    unfolding era_def [symmetric] doe_def [symmetric] yod [unfolded year_of_day_def] doy mp_def [symmetric] by (rule refl)
  then have m: "m = (if mp < 10 then mp + 3 else mp - 9)" and d: "d = r - (153 * mp + 2) div 5 + 1"
    and y: "y = y0 + era * 400 + (if m \<le> 2 then 1 else 0)"
    using assms by (simp_all add: Let_def)
  note md = month_day [OF r mp_def d m]
  then have mp: "0 \<le> mp" "mp < 12" by simp_all
  then show "1 \<le> m" "m \<le> 12" by (auto simp: m)
  show "1 \<le> d" using md by blast
  have "m \<le> 2 \<longleftrightarrow> \<not> mp < 10" using mp by (auto simp: m)
  then have undo: "(if m > 2 then m - 3 else m + 9) = mp" "(if m \<le> 2 then y - 1 else y) = y0 + era * 400"
    using mp by (auto simp: m y)
  have "(y0 + era * 400) div 400 = era" by (rule int_div_pos_eq [of _ _ _ y0]) (use y0 in simp_all)
  moreover have "(y0 + era * 400) mod 400 = y0" by (rule int_mod_pos_eq [of _ _ era]) (use y0 in simp_all)
  ultimately show "date_days y m d = z" using z by (simp add: date_days_def undo d doe)
  have "is_leap y" if "m = 2" "r = 365"
    using leap [OF that(2)] is_leap_era [of "y0 + 1" era] by (simp add: y that(1) ac_simps)
  with md show "d \<le> days_in m y" by (auto simp: days_in_def split: if_splits)
qed

section \<open>Reading what was rendered\<close>

primrec digits :: "nat \<Rightarrow> nat \<Rightarrow> string" where
  "digits 0 n = []"
| "digits (Suc w) n = digits w (n div 10) @ [digit (n mod 10)]"

lemma digits_zero: "digits w 0 = replicate w (CHR ''0'')"
proof (induction w)
  case (Suc w)
  have "digit 0 = CHR ''0''" by code_simp
  with Suc show ?case by (simp add: replicate_append_same)
qed simp

lemma padded: "n < 10 ^ w \<Longrightarrow> 0 < w \<Longrightarrow> replicate (w - length (show_nat n)) (CHR ''0'') @ show_nat n = digits w n"
proof (induction w arbitrary: n)
  case (Suc w)
  show ?case
  proof (cases "n < 10")
    case True
    then show ?thesis by (simp add: show_nat.simps [of n] digits_zero)
  next
    case False
    then have "0 < w" "n div 10 < 10 ^ w" using Suc.prems by (cases w; simp)+
    then show ?thesis using Suc.IH [of "n div 10"] False by (simp add: show_nat.simps [of n])
  qed
qed simp

lemma pad_digits: "0 \<le> i \<Longrightarrow> nat i < 10 ^ w \<Longrightarrow> 0 < w \<Longrightarrow> pad w i = digits w (nat i)"
  by (simp add: pad_def padded)

lemma digit_facts: "n < 10 \<Longrightarrow> is_digit (digit n)" "n < 10 \<Longrightarrow> digit_val (digit n) = int n"
  by (simp_all add: is_digit_def digit_val_def byte_digit)

lemma digits_val_digits: "n < 10 ^ w \<Longrightarrow> digits_val (digits w n) = int n"
proof (induction w arbitrary: n)
  case (Suc w)
  have "int n = 10 * int (n div 10) + int (n mod 10)" by (simp add: zdiv_int zmod_int)
  with Suc show ?case by (simp add: digits_val_def digit_facts)
qed (simp add: digits_val_def)

lemma length_digits [simp]: "length (digits w n) = w"
  by (induction w arbitrary: n) simp_all

lemma digits_are_digits: "list_all is_digit (digits w n)"
  by (induction w arbitrary: n) (simp_all add: digit_facts)

lemma getnum_pad: "0 \<le> i \<Longrightarrow> i < 100 \<Longrightarrow> getnum fixed (pad 2 i @ s) = Some (i, s)"
  using digits_val_digits [of "nat i" 2]
  by (simp add: pad_digits numeral_2_eq_2 digit_facts digits_val_def)

lemma get_year_pad: "0 \<le> i \<Longrightarrow> i < 10000 \<Longrightarrow> get_year (pad 4 i @ s) = Some (i, s)"
  using digits_val_digits [of "nat i" 4] by (simp add: pad_digits get_year_def digits_are_digits)

lemma in_range_Some: "lo \<le> n \<Longrightarrow> n \<le> hi \<Longrightarrow> in_range lo hi (Some (n, s)) = Some (n, s)"
  by (simp add: in_range_def)

text \<open>The instant that a rendering keeps: whole seconds.\<close>

definition to_second :: "gotime \<Rightarrow> gotime" where
  "to_second t = t\<lparr>t_ns := t_ns t div Second * Second\<rparr>"

definition local_year :: "gotime \<Rightarrow> int" where
  "local_year t = fst (civil ((t_ns t div Second + t_off t) div 86400))"

lemma zone_rendered:
  assumes "off mod 60 = 0" "\<bar>off\<bar> \<le> 86400"
  shows "get_fraction (format_zone off) = (0, format_zone off) \<and> get_zone (format_zone off) = Some (off, [])"
proof (cases "off = 0")
  case True
  then show ?thesis by (simp add: format_zone_def get_fraction_def get_zone_def)
next
  case False
  define zone where "zone = \<bar>off\<bar> div 60"
  have off: "\<bar>off\<bar> = 60 * zone" using assms(1) by (simp add: zone_def mod_eq_0_iff_dvd)
  with False assms(2) have zone: "0 < zone" "zone div 60 \<le> 24" "0 \<le> zone div 60" "0 \<le> zone mod 60" "zone mod 60 < 60"
    by auto
  have sign: "format_zone off = (if off < 0 then CHR ''-'' else CHR ''+'') # pad 2 (zone div 60) @ '':'' @ pad 2 (zone mod 60)"
    using False zone(1) by (simp add: format_zone_def Let_def flip: zone_def)
  have "get_zone (format_zone off) = Some (if off < 0 then - (zone div 60 * 3600 + zone mod 60 * 60)
      else zone div 60 * 3600 + zone mod 60 * 60, [])"
    using zone(2-5) getnum_pad [of "zone mod 60" True "[]"]
    by (simp add: sign get_zone_def getnum_pad)
  moreover have "zone div 60 * 3600 + zone mod 60 * 60 = \<bar>off\<bar>"
    using div_mult_mod_eq [of zone 60] unfolding off by linarith
  moreover have "get_fraction (format_zone off) = (0, format_zone off)"
    unfolding sign by (auto simp: get_fraction_def split: list.split)
  ultimately show ?thesis by (auto simp: abs_if split: if_splits)
qed

lemma parse_parts:
  assumes "0 \<le> y" "y < 10000" "1 \<le> m" "m \<le> 12" "1 \<le> d" "d \<le> days_in m y" "0 \<le> h" "h < 24" "0 \<le> mi" "mi < 60"
    "0 \<le> se" "se < 60" and "get_fraction z = (0, z) \<and> get_zone z = Some (off, [])"
  shows "parse_RFC3339 (pad 4 y @ ''-'' @ pad 2 m @ ''-'' @ pad 2 d @ ''T'' @ pad 2 h @ '':'' @ pad 2 mi @ '':'' @ pad 2 se @ z) =
    Some \<lparr>t_ns = (date_days y m d * 86400 + h * 3600 + mi * 60 + se - off) * Second, t_off = off\<rparr>"
proof -
  have "d < 100" using assms(6) by (simp add: days_in_def split: if_splits)
  then show ?thesis using assms
    by (simp add: parse_RFC3339_def get_year_pad getnum_pad in_range_Some)
qed

lemma parse_format_RFC3339:
  assumes "0 \<le> local_year t" "local_year t \<le> 9999" "t_off t mod 60 = 0" "\<bar>t_off t\<bar> \<le> 86400"
  shows "parse_RFC3339 (format_RFC3339 t) = Some (to_second t)"
proof -
  define s sod where "s = t_ns t div Second + t_off t" and "sod = s mod 86400"
  obtain y m d where ymd: "civil (s div 86400) = (y, m, d)" by (metis prod.exhaust)
  note date = civil_date [OF ymd]
  have y: "0 \<le> y" "y < 10000" using assms(1,2) by (simp_all add: local_year_def ymd flip: s_def)
  have "0 \<le> sod" "sod < 86400" by (simp_all add: sod_def)
  then have clock: "0 \<le> sod div 3600" "sod div 3600 < 24" "0 \<le> sod div 60 mod 60" "sod div 60 mod 60 < 60"
    "0 \<le> sod mod 60" "sod mod 60 < 60" by simp_all
  have "format_RFC3339 t = pad 4 y @ ''-'' @ pad 2 m @ ''-'' @ pad 2 d @ ''T'' @ pad 2 (sod div 3600) @ '':'' @
      pad 2 (sod div 60 mod 60) @ '':'' @ pad 2 (sod mod 60) @ format_zone (t_off t)"
    unfolding format_RFC3339_def format_clock_def Let_def s_def [symmetric] sod_def [symmetric] ymd by simp
  then have "parse_RFC3339 (format_RFC3339 t) = Some
      \<lparr>t_ns = (date_days y m d * 86400 + sod div 3600 * 3600 + sod div 60 mod 60 * 60 + sod mod 60 - t_off t) * Second,
       t_off = t_off t\<rparr>"
    using parse_parts [OF y date(2-5) clock zone_rendered [OF assms(3,4)]] by simp
  moreover have "sod div 3600 * 3600 + sod div 60 mod 60 * 60 + sod mod 60 = sod"
  proof -
    have "sod div 3600 = sod div 60 div 60" using zdiv_zmult2_eq [of 60 sod 60] by simp
    moreover have "sod div 60 div 60 * 60 + sod div 60 mod 60 = sod div 60" "sod div 60 * 60 + sod mod 60 = sod"
      by (rule div_mult_mod_eq)+
    ultimately show ?thesis by linarith
  qed
  moreover have "s div 86400 * 86400 + sod = s" by (simp add: sod_def)
  ultimately show ?thesis by (simp add: date(1) to_second_def s_def add.assoc)
qed

text \<open>A time that can be shown: in the years 1 to 9999 of its zone, which is a whole number of minutes.\<close>

definition shown_ok :: "gotime \<Rightarrow> bool" where
  "shown_ok t \<longleftrightarrow> Second \<le> t_ns t \<and> 0 \<le> local_year t \<and> local_year t \<le> 9999 \<and> t_off t mod 60 = 0 \<and> \<bar>t_off t\<bar> \<le> 86400"

lemma shown_not_zero: "shown_ok t \<Longrightarrow> \<not> IsZero t \<and> \<not> IsZero (to_second t)"
  by (auto simp: shown_ok_def IsZero_def to_second_def Second_def)

lemma parse_shown: "shown_ok t \<Longrightarrow> parse_RFC3339 (rfc3339OrEmpty t) = Some (to_second t)"
  using shown_not_zero by (simp add: rfc3339OrEmpty_def parse_format_RFC3339 shown_ok_def)

lemma to_second_le: "\<not> After (to_second t) t"
  using div_mult_mod_eq [of "t_ns t" Second] pos_mod_sign [of Second "t_ns t"]
  by (simp add: After_def to_second_def Second_def not_less)

lemma after_second: "\<not> After (to_second t) u \<longleftrightarrow> t_ns t div Second \<le> t_ns u div Second"
proof -
  have "t_ns t div Second * Second \<le> t_ns u \<longleftrightarrow> t_ns t div Second \<le> t_ns u div Second"
    using zdiv_mono1 [of "t_ns t div Second * Second" "t_ns u" Second] div_mult_mod_eq [of "t_ns u" Second]
      mult_right_mono [of "t_ns t div Second" "t_ns u div Second" Second] pos_mod_sign [of Second "t_ns u"]
    by (auto simp: Second_def)
  then show ?thesis by (simp add: After_def to_second_def not_less)
qed

end
