(* ===== verification/Externals.thy ===== *)
theory Externals
  imports Timestamps
begin

text \<open>
  The values the service exchanges with code outside the repository, and the functions of that code
  it calls. A decoded JSON value keeps integers (Kubernetes objects hold int64) apart from floats
  (mantissa and binary exponent). The functions are fields of a record that the definitions take as
  an argument: the JSON and YAML text coding, the protobuf struct constructor, the text of a time
  parsing error, the jq engine and the accessors of the Kubernetes library on unstructured objects.
\<close>

datatype json =
    JNull
  | JBool bool
  | JInt int
  | JFloat int int
  | JStr string
  | JArr "json list"
  | JObj "(string \<times> json) list"

text \<open>Outputs of a jq program: values or errors, possibly without end.\<close>

datatype jq_out = JqVal json | JqErr string

codatatype jq_iter = JqDone | JqYield jq_out jq_iter

text \<open>The jq engine: parse, compile, run on a value (a cancelled context ends a run with an error).\<close>

record ('q, 'code) gojq =
  gj_Parse :: "string \<Rightarrow> ext_err + 'q"
  gj_Compile :: "'q \<Rightarrow> ext_err + 'code"
  gj_Run :: "'code \<Rightarrow> json \<Rightarrow> jq_iter"

record codec =
  json_Marshal :: "json \<Rightarrow> ext_err + string"
  json_Unmarshal :: "string \<Rightarrow> ext_err + json"
  json_UnmarshalMap :: "string \<Rightarrow> ext_err + json"
  structpb_NewStruct :: "json \<Rightarrow> ext_err + json"
  yaml_YAMLToJSON :: "string \<Rightarrow> ext_err + string"
  time_ParseError :: "string \<Rightarrow> ext_err"
  unicode_table :: "nat \<Rightarrow> bool"
  unicode_ToLower :: "string \<Rightarrow> string"

text \<open>\<open>time.Parse(time.RFC3339, value)\<close>.\<close>

definition time_Parse :: "codec \<Rightarrow> string \<Rightarrow> ext_err + gotime" where
  "time_Parse cd value = (case parse_RFC3339 value of None \<Rightarrow> Inl (time_ParseError cd value) | Some t \<Rightarrow> Inr t)"

text \<open>Accessors of \<open>unstructured.Unstructured\<close>, on the object's content.\<close>

record unstructured_api =
  u_UnmarshalJSON :: "string \<Rightarrow> ext_err + json"
  u_GroupVersionKind :: "json \<Rightarrow> string \<times> string \<times> string"
  u_GetKind :: "json \<Rightarrow> string"
  u_GetAPIVersion :: "json \<Rightarrow> string"
  u_GetName :: "json \<Rightarrow> string"
  u_GetNamespace :: "json \<Rightarrow> string"
  u_GetUID :: "json \<Rightarrow> string"
  u_GetResourceVersion :: "json \<Rightarrow> string"
  u_GetGeneration :: "json \<Rightarrow> i64"
  u_GetCreationTimestamp :: "json \<Rightarrow> gotime"
  u_NestedString :: "json \<Rightarrow> string list \<Rightarrow> string option"
  u_NestedMap :: "json \<Rightarrow> string list \<Rightarrow> json option"
  u_NestedSlice :: "json \<Rightarrow> string list \<Rightarrow> json list option"

text \<open>A field of a struct value, and the string it holds (empty when absent or no string).\<close>

definition struct_field :: "string \<Rightarrow> json \<Rightarrow> json option" where
  "struct_field k v = (case v of JObj kvs \<Rightarrow> map_of kvs k | _ \<Rightarrow> None)"

definition struct_string :: "string \<Rightarrow> json \<Rightarrow> string" where
  "struct_string k v = (case struct_field k v of Some (JStr s) \<Rightarrow> s | _ \<Rightarrow> [])"

text \<open>\<open>strings.ToLower\<close>: byte by byte on ASCII; other strings go through the Unicode tables.\<close>

definition ToLower :: "codec \<Rightarrow> string \<Rightarrow> string" where
  "ToLower cd s =
     (if list_all (\<lambda>c. byte c < 128) s
      then map (\<lambda>c. if 65 \<le> byte c \<and> byte c \<le> 90 then char_of (byte c + 32) else c) s
      else unicode_ToLower cd s)"

end
