(* ===== verification/K8s.thy ===== *)
theory K8s
  imports Externals
begin

text \<open>
  \<open>internal/k8s\<close>: the Kubernetes clients the service holds, and the two computations of the package,
  the discovery of the streamstore Service and the resolution of a kind. The API objects carry the
  fields the service reads. The typed client answers from the cluster as it is during the call; the
  dynamic client reads and writes a cluster state \<open>'c\<close>. A namespace argument None is a call without
  \<open>.Namespace(...)\<close>.
\<close>

section \<open>API objects\<close>

record deployment =
  dep_Labels :: "string \<rightharpoonup> string"
  dep_Replicas :: "i32 option"
  dep_ReadyReplicas :: i32
  dep_Containers :: "(string \<times> string) list"

record statefulset =
  sts_Replicas :: "i32 option"
  sts_ReadyReplicas :: i32

record daemonset =
  ds_Name :: string
  ds_NumberReady :: i32
  ds_DesiredNumberScheduled :: i32
  ds_Selector :: "ext_err + string"

record owner_ref =
  or_Controller :: "bool option"
  or_Kind :: string
  or_Name :: string

record pod =
  pod_Name :: string
  pod_Namespace :: string
  pod_NodeName :: string
  pod_HostNetwork :: bool
  pod_ServiceAccountName :: string
  pod_Ports :: "(i32 \<times> i32) list list"
  pod_HostIP :: string
  pod_PodIP :: string
  pod_PodIPs :: "string list"
  pod_Conditions :: "(string \<times> string) list"
  pod_OwnerReferences :: "owner_ref list"

record k8s_service =
  svc_Name :: string
  svc_Namespace :: string
  svc_ClusterIP :: string

record node =
  nd_Name :: string
  nd_Addresses :: "(string \<times> string) list"

record kube_client =
  kc_ServerVersion :: "ext_err + string"
  kc_GetDeployment :: "string \<Rightarrow> string \<Rightarrow> ext_err + deployment"
  kc_GetStatefulSet :: "string \<Rightarrow> string \<Rightarrow> ext_err + statefulset"
  kc_GetMutatingWebhooks :: "string \<Rightarrow> ext_err + string list"
  kc_ListDaemonSets :: "string \<Rightarrow> string \<Rightarrow> ext_err + daemonset list"
  kc_GetDaemonSet :: "string \<Rightarrow> string \<Rightarrow> ext_err + daemonset"
  kc_ListPods :: "string \<Rightarrow> string \<Rightarrow> ext_err + pod list"
  kc_ListServices :: "string \<Rightarrow> string \<Rightarrow> ext_err + k8s_service list"
  kc_ListNodes :: "ext_err + node list"
  kc_WatchEvents :: "string \<Rightarrow> ext_err option"

record gvr =
  g_Group :: string
  g_Version :: string
  g_Resource :: string

record ApplyOptions =
  ao_FieldManager :: string
  ao_Force :: bool
  ao_DryRunAll :: bool

record WatchOptions =
  wo_LabelSelector :: string
  wo_ResourceVersion :: string
  wo_AllowWatchBookmarks :: bool

record 'c dyn_client =
  dc_RESTMapping :: "string \<Rightarrow> string \<Rightarrow> ext_err + (gvr \<times> bool)"
  dc_List :: "gvr \<Rightarrow> string option \<Rightarrow> string \<Rightarrow> 'c \<Rightarrow> ext_err + json list"
  dc_Get :: "gvr \<Rightarrow> string option \<Rightarrow> string \<Rightarrow> 'c \<Rightarrow> ext_err + json"
  dc_Apply :: "gvr \<Rightarrow> string option \<Rightarrow> string \<Rightarrow> json \<Rightarrow> ApplyOptions \<Rightarrow> 'c \<Rightarrow> (ext_err + json) \<times> 'c"
  dc_Delete :: "gvr \<Rightarrow> string option \<Rightarrow> string \<Rightarrow> 'c \<Rightarrow> ext_err option \<times> 'c"
  dc_Watch :: "gvr \<Rightarrow> string option \<Rightarrow> WatchOptions \<Rightarrow> ext_err option"

datatype k8s_error =
    NilClient | DynamicClient ext_err | DiscoveryClient ext_err | APIGroupResources ext_err
  | ResolveKind string string ext_err
  | ListServicesIn string ext_err
  | InClusterConfig ext_err | NoKubeconfig | LoadKubeconfig string ext_err | BuildClientset ext_err

section \<open>Clients (client.go, dynamic.go)\<close>

text \<open>
  \<open>New\<close> prefers the in-cluster configuration and falls back to a kubeconfig file. The library's
  \<open>InClusterConfig\<close> fails with \<open>ErrNotInCluster\<close> (None) or another error; \<open>'cfg\<close> is a REST config.
\<close>

record 'cfg kube_env =
  ke_InCluster :: "ext_err option + 'cfg"
  ke_KUBECONFIG :: string
  ke_HomeDir :: "ext_err + string"
  ke_Exists :: "string \<Rightarrow> bool"
  ke_BuildConfig :: "string \<Rightarrow> ext_err + 'cfg"
  ke_NewForConfig :: "'cfg \<Rightarrow> ext_err + kube_client"

definition kubeconfigPath :: "'cfg kube_env \<Rightarrow> string" where
  "kubeconfigPath env =
     (if ke_KUBECONFIG env \<noteq> [] then ke_KUBECONFIG env
      else case ke_HomeDir env of
        Inl e \<Rightarrow> []
      | Inr home \<Rightarrow>
          if home = [] then []
          else let candidate = home @ ''/.kube/config'' in
            if ke_Exists env candidate then candidate else [])"

definition loadConfig :: "'cfg kube_env \<Rightarrow> k8s_error + 'cfg" where
  "loadConfig env =
     (case ke_InCluster env of
        Inr cfg \<Rightarrow> Inr cfg
      | Inl (Some e) \<Rightarrow> Inl (InClusterConfig e)
      | Inl None \<Rightarrow>
          let path = kubeconfigPath env in
          if path = [] then Inl NoKubeconfig
          else (case ke_BuildConfig env path of
                  Inl e \<Rightarrow> Inl (LoadKubeconfig path e)
                | Inr cfg \<Rightarrow> Inr cfg))"

definition New_Client :: "'cfg kube_env \<Rightarrow> k8s_error + (kube_client \<times> 'cfg)" where
  "New_Client env =
     (case loadConfig env of
        Inl e \<Rightarrow> Inl e
      | Inr cfg \<Rightarrow>
          (case ke_NewForConfig env cfg of
             Inl e \<Rightarrow> Inl (BuildClientset e)
           | Inr cs \<Rightarrow> Inr (cs, cfg)))"

text \<open>\<open>NewDynClient\<close>; the three library calls it makes are the arguments.\<close>

definition NewDynClient ::
  "('cfg \<Rightarrow> ext_err + 'd) \<Rightarrow> ('cfg \<Rightarrow> ext_err + 'disc) \<Rightarrow> ('disc \<Rightarrow> ext_err + 'res) \<Rightarrow>
     ('d \<Rightarrow> 'res \<Rightarrow> 'c dyn_client) \<Rightarrow> (kube_client \<times> 'cfg option) option \<Rightarrow> k8s_error + 'c dyn_client" where
  "NewDynClient newDyn newDisc groupResources mk c =
     (case c of
        Some (_, Some cfg) \<Rightarrow>
          (case newDyn cfg of
             Inl e \<Rightarrow> Inl (DynamicClient e)
           | Inr d \<Rightarrow>
               (case newDisc cfg of
                  Inl e \<Rightarrow> Inl (DiscoveryClient e)
                | Inr dc \<Rightarrow>
                    (case groupResources dc of
                       Inl e \<Rightarrow> Inl (APIGroupResources e)
                     | Inr res \<Rightarrow> Inr (mk d res))))
      | _ \<Rightarrow> Inl NilClient)"

definition ResolveGVR :: "'c dyn_client \<Rightarrow> string \<Rightarrow> string \<Rightarrow> k8s_error + (gvr \<times> bool)" where
  "ResolveGVR d grp kind =
     (case dc_RESTMapping d grp kind of
        Inl e \<Rightarrow> Inl (ResolveKind grp kind e)
      | Inr m \<Rightarrow> Inr m)"

section \<open>Streamstore discovery (streamstore.go)\<close>

definition streamstoreLabelSelector :: string where
  "streamstoreLabelSelector = ''app=tawon-streamstore''"

definition streamstorePort :: int where "streamstorePort = 4222"

text \<open>The pattern \<open>^tawon-streamstore-[a-f0-9]+$\<close>.\<close>

definition streamstoreNamePattern :: "string \<Rightarrow> bool" where
  "streamstoreNamePattern s =
     (let p = ''tawon-streamstore-''; rest = drop (length p) s
      in HasPrefix s p \<and> rest \<noteq> [] \<and> list_all is_hex rest)"

fun first_match :: "k8s_service list \<Rightarrow> string" where
  "first_match [] = []"
| "first_match (s # ss) = (if streamstoreNamePattern (svc_Name s) then svc_Name s else first_match ss)"

definition findStreamStoreName :: "kube_client \<Rightarrow> string \<Rightarrow> k8s_error + string" where
  "findStreamStoreName kc ns =
     (case kc_ListServices kc ns streamstoreLabelSelector of
        Inl e \<Rightarrow> Inl (ListServicesIn ns e)
      | Inr svcs \<Rightarrow>
          if svcs \<noteq> [] then Inr (svc_Name (hd svcs))
          else (case kc_ListServices kc ns [] of
                  Inl e \<Rightarrow> Inl (ListServicesIn ns e)
                | Inr all \<Rightarrow> Inr (first_match all)))"

definition DiscoverStreamStoreURL :: "kube_client \<Rightarrow> string \<Rightarrow> k8s_error + string" where
  "DiscoverStreamStoreURL kc ns =
     (case findStreamStoreName kc ns of
        Inl e \<Rightarrow> Inl e
      | Inr name \<Rightarrow>
          if name = [] then Inr []
          else Inr (''nats://'' @ name @ ''.'' @ ns @ ''.svc:'' @ show_int streamstorePort))"

section \<open>Lemmas\<close>

lemma streamstoreNamePattern_iff:
  "streamstoreNamePattern s \<longleftrightarrow> (\<exists>h. s = ''tawon-streamstore-'' @ h \<and> h \<noteq> [] \<and> (\<forall>c \<in> set h. is_hex c))"
proof
  assume "streamstoreNamePattern s"
  then obtain h where "s = ''tawon-streamstore-'' @ h" "h \<noteq> []" "list_all is_hex h"
    by (auto simp: streamstoreNamePattern_def Let_def HasPrefix_iff)
  then show "\<exists>h. s = ''tawon-streamstore-'' @ h \<and> h \<noteq> [] \<and> (\<forall>c \<in> set h. is_hex c)"
    by (auto simp: list_all_iff)
next
  assume "\<exists>h. s = ''tawon-streamstore-'' @ h \<and> h \<noteq> [] \<and> (\<forall>c \<in> set h. is_hex c)"
  then obtain h where "s = ''tawon-streamstore-'' @ h" "h \<noteq> []" "\<forall>c \<in> set h. is_hex c" by blast
  then show "streamstoreNamePattern s"
    by (simp add: streamstoreNamePattern_def Let_def HasPrefix_def list_all_iff)
qed

lemma first_match_find:
  "first_match ss = (case find (\<lambda>s. streamstoreNamePattern (svc_Name s)) ss of
     None \<Rightarrow> [] | Some s \<Rightarrow> svc_Name s)"
  by (induction ss) auto

lemma first_match_Nil: "first_match ss = [] \<longleftrightarrow> \<not> (\<exists>s \<in> set ss. streamstoreNamePattern (svc_Name s))"
  by (induction ss) (auto simp: streamstoreNamePattern_iff)

section \<open>Properties\<close>

text \<open>
  C35. Discovery prefers the labelled Service, falls back to the first Service whose name is the
  chart's prefix and a hexadecimal suffix of one or more digits, and returns an empty URL without
  an error exactly when no Service of either kind exists.
\<close>

theorem DiscoverStreamStoreURL_spec:
  assumes "kc_ListServices kc ns streamstoreLabelSelector = Inr labelled"
    and "kc_ListServices kc ns [] = Inr all"
    and "\<forall>s \<in> set labelled. svc_Name s \<noteq> []"
  shows "DiscoverStreamStoreURL kc ns =
    (let url = (\<lambda>n. ''nats://'' @ n @ ''.'' @ ns @ ''.svc:4222'') in
     case (labelled, find (\<lambda>s. \<exists>h. svc_Name s = ''tawon-streamstore-'' @ h \<and> h \<noteq> [] \<and>
             (\<forall>c \<in> set h. is_hex c)) all) of
       (s # _, _) \<Rightarrow> Inr (url (svc_Name s))
     | ([], Some s) \<Rightarrow> Inr (url (svc_Name s))
     | ([], None) \<Rightarrow> Inr [])"
proof -
  have port: "show_int streamstorePort = ''4222''" by code_simp
  have pat: "(\<lambda>s. \<exists>h. svc_Name s = ''tawon-streamstore-'' @ h \<and> h \<noteq> [] \<and> (\<forall>c \<in> set h. is_hex c)) =
      (\<lambda>s. streamstoreNamePattern (svc_Name s))"
    by (simp add: streamstoreNamePattern_iff)
  show ?thesis
  proof (cases labelled)
    case (Cons s ss)
    then show ?thesis using assms
      by (simp add: DiscoverStreamStoreURL_def findStreamStoreName_def port Let_def)
  next
    case Nil
    have "svc_Name s \<noteq> []" if "find (\<lambda>s. streamstoreNamePattern (svc_Name s)) all = Some s" for s
      using that by (auto simp: find_Some_iff streamstoreNamePattern_iff)
    then show ?thesis using assms Nil unfolding pat
      by (auto simp: DiscoverStreamStoreURL_def findStreamStoreName_def port Let_def first_match_find
          split: option.splits)
  qed
qed

section \<open>Witness\<close>

definition ex_kube :: "k8s_service list \<Rightarrow> k8s_service list \<Rightarrow> kube_client" where
  "ex_kube labelled every =
     \<lparr>kc_ServerVersion = Inr ''v1.30.0'', kc_GetDeployment = (\<lambda>_ _. Inl \<lparr>ee_not_found = True, ee_msg = []\<rparr>),
      kc_GetStatefulSet = (\<lambda>_ _. Inl \<lparr>ee_not_found = True, ee_msg = []\<rparr>),
      kc_GetMutatingWebhooks = (\<lambda>_. Inr []), kc_ListDaemonSets = (\<lambda>_ _. Inr []),
      kc_GetDaemonSet = (\<lambda>_ _. Inl \<lparr>ee_not_found = True, ee_msg = []\<rparr>),
      kc_ListPods = (\<lambda>_ _. Inr []),
      kc_ListServices = (\<lambda>_ sel. if sel = [] then Inr every else Inr labelled),
      kc_ListNodes = Inr [], kc_WatchEvents = (\<lambda>_. None)\<rparr>"

definition ex_service :: "string \<Rightarrow> k8s_service" where
  "ex_service n = \<lparr>svc_Name = n, svc_Namespace = ''t'', svc_ClusterIP = ''10.0.0.9''\<rparr>"

lemma DiscoverStreamStoreURL_spec_witness:
  "let kc = ex_kube [] [ex_service ''web'', ex_service ''tawon-streamstore-'', ex_service ''tawon-streamstore-a'']
   in DiscoverStreamStoreURL kc ''t'' = Inr ''nats://tawon-streamstore-a.t.svc:4222''"
proof -
  let ?all = "[ex_service ''web'', ex_service ''tawon-streamstore-'', ex_service ''tawon-streamstore-a'']"
  let ?P = "\<lambda>s. \<exists>h. svc_Name s = ''tawon-streamstore-'' @ h \<and> h \<noteq> [] \<and> (\<forall>c \<in> set h. is_hex c)"
  have "find ?P ?all = Some (ex_service ''tawon-streamstore-a'')"
    by (simp add: ex_service_def is_hex_def)
  moreover have "kc_ListServices (ex_kube [] ?all) ''t'' streamstoreLabelSelector = Inr []"
    "kc_ListServices (ex_kube [] ?all) ''t'' [] = Inr ?all"
    by (simp_all add: ex_kube_def streamstoreLabelSelector_def)
  ultimately show ?thesis
    using DiscoverStreamStoreURL_spec [of "ex_kube [] ?all" "''t''" "[]" ?all]
    by (simp add: ex_service_def Let_def)
qed

end
