(* ===== verification/JqFilter.thy ===== *)
theory JqFilter
  imports Externals
begin

text \<open>
  \<open>internal/filter/filter.go\<close>: a compiled jq expression and its match against a decoded value. A jq
  program may yield outputs without end, so a match is an option: None is a call that never returns.
\<close>

datatype filter_error = EmptyExpression | ParseJq string ext_err | CompileJq string ext_err | EvalJq string

definition Compile :: "('q, 'code) gojq \<Rightarrow> string \<Rightarrow> filter_error + 'code" where
  "Compile gj expr =
     (if expr = [] then Inl EmptyExpression
      else case gj_Parse gj expr of
        Inl e \<Rightarrow> Inl (ParseJq expr e)
      | Inr q \<Rightarrow>
          (case gj_Compile gj q of
             Inl e \<Rightarrow> Inl (CompileJq expr e)
           | Inr code \<Rightarrow> Inr code))"

fun isTruthy :: "json \<Rightarrow> bool" where
  "isTruthy JNull = False"
| "isTruthy (JBool b) = b"
| "isTruthy _ = True"

partial_function (option) match_loop :: "jq_iter \<Rightarrow> (filter_error + bool) option" where
  "match_loop it =
     (case it of
        JqDone \<Rightarrow> Some (Inr False)
      | JqYield out it' \<Rightarrow>
          (case out of
             JqErr e \<Rightarrow> Some (Inl (EvalJq e))
           | JqVal v \<Rightarrow> if isTruthy v then Some (Inr True) else match_loop it'))"

definition Match :: "('q, 'code) gojq \<Rightarrow> 'code \<Rightarrow> json \<Rightarrow> (filter_error + bool) option" where
  "Match gj f v = match_loop (gj_Run gj f v)"

section \<open>Lemmas\<close>

lemma isTruthy_iff: "isTruthy v \<longleftrightarrow> v \<noteq> JNull \<and> v \<noteq> JBool False"
  by (cases v) auto

lemma match_loop_simps [simp]:
  "match_loop JqDone = Some (Inr False)"
  "match_loop (JqYield (JqErr e) it) = Some (Inl (EvalJq e))"
  "isTruthy v \<Longrightarrow> match_loop (JqYield (JqVal v) it) = Some (Inr True)"
  "\<not> isTruthy v \<Longrightarrow> match_loop (JqYield (JqVal v) it) = match_loop it"
  by (subst match_loop.simps, simp)+

text \<open>An iterator that first yields the given values.\<close>

fun after_values :: "json list \<Rightarrow> jq_iter \<Rightarrow> jq_iter" where
  "after_values [] it = it"
| "after_values (v # vs) it = JqYield (JqVal v) (after_values vs it)"

lemma match_after_falsy: "\<forall>v \<in> set vs. \<not> isTruthy v \<Longrightarrow> match_loop (after_values vs it) = match_loop it"
  by (induction vs) auto

text \<open>The point at which a run decides a match, and its verdict.\<close>

inductive decides :: "jq_iter \<Rightarrow> filter_error + bool \<Rightarrow> bool" where
  exhausted: "decides JqDone (Inr False)"
| error: "decides (JqYield (JqErr e) it) (Inl (EvalJq e))"
| truthy: "isTruthy v \<Longrightarrow> decides (JqYield (JqVal v) it) (Inr True)"

lemma match_decides: "decides it r \<Longrightarrow> match_loop it = Some r"
  by (induction rule: decides.induct) auto

lemma match_loop_Some:
  assumes "match_loop it = Some r"
  shows "\<exists>vs rest. it = after_values vs rest \<and> (\<forall>v \<in> set vs. \<not> isTruthy v) \<and> decides rest r"
proof (rule match_loop.raw_induct [where P = "\<lambda>it r. \<exists>vs rest. it = after_values vs rest \<and>
      (\<forall>v \<in> set vs. \<not> isTruthy v) \<and> decides rest r", OF _ assms])
  fix f it r
  assume IH: "\<And>it r. f it = Some r \<Longrightarrow>
      \<exists>vs rest. it = after_values vs rest \<and> (\<forall>v \<in> set vs. \<not> isTruthy v) \<and> decides rest r"
    and eq: "(case it of JqDone \<Rightarrow> Some (Inr False)
      | JqYield (JqVal v) it' \<Rightarrow> if isTruthy v then Some (Inr True) else f it'
      | JqYield (JqErr e) it' \<Rightarrow> Some (Inl (EvalJq e))) = Some r"
  show "\<exists>vs rest. it = after_values vs rest \<and> (\<forall>v \<in> set vs. \<not> isTruthy v) \<and> decides rest r"
  proof (cases "decides it r")
    case True
    then show ?thesis by (intro exI [of _ "[]"]) auto
  next
    case False
    then obtain v it' where it: "it = JqYield (JqVal v) it'" "\<not> isTruthy v" "f it' = Some r"
      using eq by (auto split: jq_iter.splits jq_out.splits if_splits intro: decides.intros)
    from IH [OF it(3)] obtain vs rest where
      "it' = after_values vs rest" "\<forall>v \<in> set vs. \<not> isTruthy v" "decides rest r" by blast
    with it show ?thesis by (intro exI [of _ "v # vs"]) auto
  qed
qed

section \<open>Properties\<close>

text \<open>
  C31. A match returns exactly when, after finitely many falsy outputs, the run ends, fails or yields
  a truthy value, and the verdict is then no match, the error, or a match: nothing after that point
  is evaluated, and a run that yields falsy values for ever never returns.
\<close>

theorem Match_returns_iff:
  "Match gj f v = Some r \<longleftrightarrow>
     (\<exists>vs rest. gj_Run gj f v = after_values vs rest \<and> (\<forall>u \<in> set vs. u = JNull \<or> u = JBool False) \<and>
        decides rest r)"
proof
  assume "Match gj f v = Some r"
  then show "\<exists>vs rest. gj_Run gj f v = after_values vs rest \<and> (\<forall>u \<in> set vs. u = JNull \<or> u = JBool False) \<and>
        decides rest r"
    using match_loop_Some [of "gj_Run gj f v" r] by (auto simp: Match_def isTruthy_iff)
next
  assume "\<exists>vs rest. gj_Run gj f v = after_values vs rest \<and> (\<forall>u \<in> set vs. u = JNull \<or> u = JBool False) \<and>
        decides rest r"
  then show "Match gj f v = Some r"
    using match_after_falsy match_decides by (fastforce simp: Match_def isTruthy_iff)
qed

section \<open>Witnesses\<close>

text \<open>An engine whose program yields null and then true, and one that yields null for ever.\<close>

primcorec forever :: "json \<Rightarrow> jq_iter" where
  "forever v = JqYield (JqVal v) (forever v)"

definition ex_jq :: "jq_iter \<Rightarrow> (unit, unit) gojq" where
  "ex_jq it = \<lparr>gj_Parse = (\<lambda>_. Inr ()), gj_Compile = (\<lambda>_. Inr ()), gj_Run = (\<lambda>_ _. it)\<rparr>"

lemma forever_after: "forever v = after_values vs rest \<Longrightarrow> rest = forever v"
proof (induction vs)
  case (Cons u us)
  from Cons.prems have "JqYield (JqVal v) (forever v) = JqYield (JqVal u) (after_values us rest)"
    by (metis after_values.simps(2) forever.code)
  then have "forever v = after_values us rest" by blast
  then show ?case by (rule Cons.IH)
qed simp

lemma forever_undecided: "\<not> decides (forever JNull) r"
proof
  assume "decides (forever JNull) r"
  then have "decides (JqYield (JqVal JNull) (forever JNull)) r" by (subst (asm) forever.code)
  then show False by cases simp_all
qed

lemma forever_hangs: "Match (ex_jq (forever JNull)) () v = None"
proof (rule ccontr)
  assume "Match (ex_jq (forever JNull)) () v \<noteq> None"
  then obtain r where "Match (ex_jq (forever JNull)) () v = Some r" by blast
  then obtain vs rest where "forever JNull = after_values vs rest" "decides rest r"
    using match_loop_Some [of "forever JNull" r] by (auto simp: Match_def ex_jq_def)
  then show False using forever_after forever_undecided by metis
qed

theorem Match_returns_iff_witness:
  "Match (ex_jq (JqYield (JqVal JNull) (JqYield (JqVal (JBool True)) JqDone))) () JNull = Some (Inr True) \<and>
   Match (ex_jq (forever JNull)) () JNull = None"
proof
  show "Match (ex_jq (JqYield (JqVal JNull) (JqYield (JqVal (JBool True)) JqDone))) () JNull = Some (Inr True)"
    unfolding Match_returns_iff
    by (rule exI [of _ "[JNull]"]) (simp add: ex_jq_def decides.truthy)
  show "Match (ex_jq (forever JNull)) () JNull = None"
  proof (rule ccontr)
    assume "Match (ex_jq (forever JNull)) () JNull \<noteq> None"
    then obtain r where "Match (ex_jq (forever JNull)) () JNull = Some r" by blast
    then obtain vs rest where "forever JNull = after_values vs rest" "decides rest r"
      unfolding Match_returns_iff by (auto simp: ex_jq_def)
    then show False using forever_after forever_undecided by metis
  qed
qed

end
