(* ===== verification/GoChan.thy ===== *)
theory GoChan
  imports Prelude
begin

text \<open>
  Go's buffered channels as values: a capacity, the buffered elements and whether the channel is
  closed. A send on a closed channel and a second close panic; a panic is None.
\<close>

record 'e chan =
  ch_cap :: nat
  ch_buf :: "'e list"
  ch_closed :: bool

definition make_chan :: "nat \<Rightarrow> 'e chan" where
  "make_chan n = \<lparr>ch_cap = n, ch_buf = [], ch_closed = False\<rparr>"

definition has_room :: "'e chan \<Rightarrow> bool" where
  "has_room c \<longleftrightarrow> length (ch_buf c) < ch_cap c"

text \<open>\<open>select { case ch <- e: default: }\<close>: send when there is room, else drop.\<close>

definition try_send :: "'e \<Rightarrow> 'e chan \<Rightarrow> 'e chan option" where
  "try_send e c =
     (if ch_closed c then None
      else if has_room c then Some (c\<lparr>ch_buf := ch_buf c @ [e]\<rparr>)
      else Some c)"

datatype 'e received = Received 'e | ChanClosed | Blocked

definition recv_chan :: "'e chan \<Rightarrow> 'e received \<times> 'e chan" where
  "recv_chan c =
     (case ch_buf c of
        x # xs \<Rightarrow> (Received x, c\<lparr>ch_buf := xs\<rparr>)
      | [] \<Rightarrow> (if ch_closed c then ChanClosed else Blocked, c))"

definition close_chan :: "'e chan \<Rightarrow> 'e chan option" where
  "close_chan c = (if ch_closed c then None else Some (c\<lparr>ch_closed := True\<rparr>))"

definition chan_ok :: "'e chan \<Rightarrow> bool" where
  "chan_ok c \<longleftrightarrow> length (ch_buf c) \<le> ch_cap c"

lemma make_chan_simps [simp]:
  "ch_cap (make_chan n) = n" "ch_buf (make_chan n) = []" "\<not> ch_closed (make_chan n)"
  by (simp_all add: make_chan_def)

lemma chan_ok_make [simp]: "chan_ok (make_chan n)"
  by (simp add: chan_ok_def)

lemma try_send_Some:
  "\<not> ch_closed c \<Longrightarrow> try_send e c = Some (if has_room c then c\<lparr>ch_buf := ch_buf c @ [e]\<rparr> else c)"
  by (simp add: try_send_def)

lemma try_send_ok: "chan_ok c \<Longrightarrow> try_send e c = Some c' \<Longrightarrow> chan_ok c'"
  by (auto simp: try_send_def chan_ok_def has_room_def split: if_splits)

lemma recv_chan_ok: "chan_ok c \<Longrightarrow> recv_chan c = (r, c') \<Longrightarrow> chan_ok c' \<and> ch_closed c' = ch_closed c"
  by (auto simp: recv_chan_def chan_ok_def split: list.splits)

end
