(* ===== verification/Streams.thy ===== *)
theory Streams
  imports Externals GoChan
begin

text \<open>
  \<open>internal/streams\<close>: the \<open>Reader\<close> interface over a stream backend and its JetStream
  implementation. The JetStream client library is a record of functions; a stream handle \<open>'st\<close> and
  a consumer handle \<open>'con\<close> are opaque. \<open>Tail\<close> is a step relation over its channel, since callbacks
  of the library, the cancelled context, the cleanup goroutine and the reader interleave freely.
\<close>

section \<open>The types of streams.go\<close>

record StreamInfo =
  si_StreamName :: string
  si_Messages :: u64
  si_Bytes :: u64
  si_FirstTS :: gotime
  si_LastTS :: gotime

record StreamStats =
  ss_Messages :: u64
  ss_Bytes :: u64
  ss_Since :: gotime
  ss_Until :: gotime

record ReadOpts =
  ro_Since :: gotime
  ro_Until :: gotime
  ro_Limit :: int

record TailOpts =
  to_StartAtSeq :: u64
  to_StartAtTS :: gotime
  to_BufSize :: int

record RawMessage =
  rm_Subject :: string
  rm_Sequence :: u64
  rm_Timestamp :: gotime
  rm_Data :: string

datatype stream_error =
    EmptyNATSURL
  | ConnectNATS ext_err
  | JetStreamContext ext_err
  | ListStreams ext_err
  | StreamLookup string ext_err
  | StreamInfoErr string ext_err
  | OrderedConsumer string ext_err
  | FetchErr string ext_err
  | BatchErr string ext_err
  | TailConsumer string ext_err
  | TailConsume string ext_err

text \<open>
  The Go interface \<open>Reader\<close>. \<open>Read\<close> returns messages and an error side by side; \<open>Tail\<close> returns the
  size of the channel it opened and where delivery starts.
\<close>

datatype DeliverPolicy =
  DeliverAll | DeliverNew | DeliverByStartSequence u64 | DeliverByStartTime gotime

record Reader =
  rd_List :: "stream_error + StreamInfo list"
  rd_Stats :: "string \<Rightarrow> gotime \<Rightarrow> gotime \<Rightarrow> stream_error + StreamStats"
  rd_Read :: "string \<Rightarrow> ReadOpts \<Rightarrow> RawMessage list \<times> stream_error option"
  rd_Tail :: "string \<Rightarrow> TailOpts \<Rightarrow> stream_error + (nat \<times> DeliverPolicy)"

section \<open>The JetStream client\<close>

record js_info =
  ji_Name :: string
  ji_Msgs :: u64
  ji_Bytes :: u64
  ji_FirstTime :: gotime
  ji_LastTime :: gotime

record js_msg =
  jm_Subject :: string
  jm_Metadata :: "ext_err + (u64 \<times> gotime)"
  jm_Data :: string

record ('st, 'con) jetstream =
  js_ListStreams :: "js_info list \<times> ext_err option"
  js_Stream :: "string \<Rightarrow> ext_err + 'st"
  js_Info :: "'st \<Rightarrow> ext_err + js_info"
  js_OrderedConsumer :: "'st \<Rightarrow> DeliverPolicy \<Rightarrow> ext_err + 'con"
  js_Fetch :: "'con \<Rightarrow> int \<Rightarrow> ext_err + (js_msg list \<times> ext_err option)"
  js_Consume :: "'con \<Rightarrow> ext_err option"

section \<open>JSReader (nats.go)\<close>

record ('nc, 'st, 'con) JSReader =
  jr_nc :: "'nc option"
  jr_js :: "('st, 'con) jetstream"

text \<open>
  \<open>DialJetStream\<close>, with the connections it closes again. The library's \<open>nats.Connect\<close> and
  \<open>jetstream.New\<close> are arguments.
\<close>

definition DialJetStream ::
  "(string \<Rightarrow> ext_err + 'nc) \<Rightarrow> ('nc \<Rightarrow> ext_err + ('st, 'con) jetstream) \<Rightarrow> string \<Rightarrow>
     (stream_error + ('nc, 'st, 'con) JSReader) \<times> 'nc list" where
  "DialJetStream connect jsNew url =
     (if url = [] then (Inl EmptyNATSURL, [])
      else case connect url of
        Inl e \<Rightarrow> (Inl (ConnectNATS e), [])
      | Inr nc \<Rightarrow>
          (case jsNew nc of
             Inl e \<Rightarrow> (Inl (JetStreamContext e), [nc])
           | Inr js \<Rightarrow> (Inr \<lparr>jr_nc = Some nc, jr_js = js\<rparr>, [])))"

text \<open>\<open>Close\<close>: the reader without its connection, and the connection closed now, if any.\<close>

definition Close :: "('nc, 'st, 'con) JSReader \<Rightarrow> ('nc, 'st, 'con) JSReader \<times> 'nc list" where
  "Close r =
     (case jr_nc r of
        None \<Rightarrow> (r, [])
      | Some nc \<Rightarrow> (r\<lparr>jr_nc := None\<rparr>, [nc]))"

definition js_List :: "('st, 'con) jetstream \<Rightarrow> stream_error + StreamInfo list" where
  "js_List js =
     (let out = map (\<lambda>i. \<lparr>si_StreamName = ji_Name i, si_Messages = ji_Msgs i, si_Bytes = ji_Bytes i,
                          si_FirstTS = ji_FirstTime i, si_LastTS = ji_LastTime i\<rparr>)
                  (fst (js_ListStreams js))
      in case snd (js_ListStreams js) of Some e \<Rightarrow> Inl (ListStreams e) | None \<Rightarrow> Inr out)"

definition js_Stats ::
  "('st, 'con) jetstream \<Rightarrow> string \<Rightarrow> gotime \<Rightarrow> gotime \<Rightarrow> stream_error + StreamStats" where
  "js_Stats js name since until' =
     (case js_Stream js name of
        Inl e \<Rightarrow> Inl (StreamLookup name e)
      | Inr st \<Rightarrow>
          (case js_Info js st of
             Inl e \<Rightarrow> Inl (StreamInfoErr name e)
           | Inr i \<Rightarrow> Inr \<lparr>ss_Messages = ji_Msgs i, ss_Bytes = ji_Bytes i,
                            ss_Since = since, ss_Until = until'\<rparr>))"

definition defaultReadLimit :: int where "defaultReadLimit = 100"
definition maxReadLimit :: int where "maxReadLimit = 10000"

definition clamp_read_limit :: "int \<Rightarrow> int" where
  "clamp_read_limit limit =
     (let limit = (if limit \<le> 0 then defaultReadLimit else limit)
      in if limit > maxReadLimit then maxReadLimit else limit)"

text \<open>The loop over a batch: a message without metadata is skipped, one past the window ends it.\<close>

fun collect_batch :: "gotime \<Rightarrow> js_msg list \<Rightarrow> RawMessage list" where
  "collect_batch until' [] = []"
| "collect_batch until' (m # ms) =
     (case jm_Metadata m of
        Inl e \<Rightarrow> collect_batch until' ms
      | Inr (sq, ts) \<Rightarrow>
          if \<not> IsZero until' \<and> After ts until' then []
          else \<lparr>rm_Subject = jm_Subject m, rm_Sequence = sq, rm_Timestamp = ts, rm_Data = jm_Data m\<rparr>
               # collect_batch until' ms)"

definition js_Read ::
  "('st, 'con) jetstream \<Rightarrow> string \<Rightarrow> ReadOpts \<Rightarrow> RawMessage list \<times> stream_error option" where
  "js_Read js name opts =
     (let limit = clamp_read_limit (ro_Limit opts) in
      case js_Stream js name of
        Inl e \<Rightarrow> ([], Some (StreamLookup name e))
      | Inr st \<Rightarrow>
          let policy = (if \<not> IsZero (ro_Since opts) then DeliverByStartTime (ro_Since opts) else DeliverAll) in
          (case js_OrderedConsumer js st policy of
             Inl e \<Rightarrow> ([], Some (OrderedConsumer name e))
           | Inr cons \<Rightarrow>
               (case js_Fetch js cons limit of
                  Inl e \<Rightarrow> ([], Some (FetchErr name e))
                | Inr (ms, err) \<Rightarrow>
                    let out = collect_batch (ro_Until opts) ms in
                    (case err of
                       Some e \<Rightarrow> (out, Some (BatchErr name e))
                     | None \<Rightarrow> (out, None)))))"

definition defaultTailBufSize :: nat where "defaultTailBufSize = 64"

definition tail_policy :: "TailOpts \<Rightarrow> DeliverPolicy" where
  "tail_policy opts =
     (if to_StartAtSeq opts > 0 then DeliverByStartSequence (to_StartAtSeq opts)
      else if \<not> IsZero (to_StartAtTS opts) then DeliverByStartTime (to_StartAtTS opts)
      else DeliverNew)"

definition js_Tail ::
  "('st, 'con) jetstream \<Rightarrow> string \<Rightarrow> TailOpts \<Rightarrow> stream_error + (nat \<times> DeliverPolicy)" where
  "js_Tail js name opts =
     (case js_Stream js name of
        Inl e \<Rightarrow> Inl (StreamLookup name e)
      | Inr st \<Rightarrow>
          (case js_OrderedConsumer js st (tail_policy opts) of
             Inl e \<Rightarrow> Inl (TailConsumer name e)
           | Inr cons \<Rightarrow>
               let bufSize = (if to_BufSize opts \<le> 0 then defaultTailBufSize else nat (to_BufSize opts)) in
               (case js_Consume js cons of
                  Some e \<Rightarrow> Inl (TailConsume name e)
                | None \<Rightarrow> Inr (bufSize, tail_policy opts))))"

definition js_reader :: "('st, 'con) jetstream \<Rightarrow> Reader" where
  "js_reader js = \<lparr>rd_List = js_List js, rd_Stats = js_Stats js, rd_Read = js_Read js,
     rd_Tail = js_Tail js\<rparr>"

section \<open>The channel of a tail\<close>

record tail_state =
  ts_chan :: "RawMessage chan"
  ts_cancelled :: bool

datatype tail_event =
  TArrive js_msg | TCancel | TCleanup | TRecv "RawMessage received"

definition tail_start :: "nat \<Rightarrow> tail_state" where
  "tail_start bufSize = \<lparr>ts_chan = make_chan bufSize, ts_cancelled = False\<rparr>"

definition raw_of :: "js_msg \<Rightarrow> RawMessage option" where
  "raw_of m =
     (case jm_Metadata m of
        Inl e \<Rightarrow> None
      | Inr (sq, ts) \<Rightarrow>
          Some \<lparr>rm_Subject = jm_Subject m, rm_Sequence = sq, rm_Timestamp = ts, rm_Data = jm_Data m\<rparr>)"

text \<open>
  A callback without metadata does nothing; one with it blocks in its \<open>select\<close> until the channel has
  room or the context is done; on a closed channel the send panics and the panic is recovered. The
  cleanup goroutine closes the channel once, after the context is done.
\<close>

inductive tail_step :: "tail_state \<Rightarrow> tail_event \<Rightarrow> tail_state \<Rightarrow> bool" where
  arrive_skipped: "raw_of m = None \<Longrightarrow> tail_step s (TArrive m) s"
| arrive_sent: "raw_of m = Some r \<Longrightarrow> \<not> ch_closed (ts_chan s) \<Longrightarrow> has_room (ts_chan s) \<Longrightarrow>
    tail_step s (TArrive m) (s\<lparr>ts_chan := (ts_chan s)\<lparr>ch_buf := ch_buf (ts_chan s) @ [r]\<rparr>\<rparr>)"
| arrive_done: "raw_of m = Some r \<Longrightarrow> ts_cancelled s \<Longrightarrow> tail_step s (TArrive m) s"
| arrive_recovered: "raw_of m = Some r \<Longrightarrow> ch_closed (ts_chan s) \<Longrightarrow> tail_step s (TArrive m) s"
| cancelled: "tail_step s TCancel (s\<lparr>ts_cancelled := True\<rparr>)"
| cleanup: "ts_cancelled s \<Longrightarrow> close_chan (ts_chan s) = Some c \<Longrightarrow>
    tail_step s TCleanup (s\<lparr>ts_chan := c\<rparr>)"
| received: "recv_chan (ts_chan s) = (r, c) \<Longrightarrow> r \<noteq> Blocked \<Longrightarrow>
    tail_step s (TRecv r) (s\<lparr>ts_chan := c\<rparr>)"

inductive tail_run :: "tail_state \<Rightarrow> tail_event list \<Rightarrow> tail_state \<Rightarrow> bool" where
  run_nil: "tail_run s [] s"
| run_cons: "tail_step s e s1 \<Longrightarrow> tail_run s1 es s2 \<Longrightarrow> tail_run s (e # es) s2"

inductive_cases tail_arriveE: "tail_step s (TArrive m) s'"
inductive_cases tail_cancelE: "tail_step s TCancel s'"
inductive_cases tail_cleanupE: "tail_step s TCleanup s'"
inductive_cases tail_recvE: "tail_step s (TRecv r) s'"

lemmas tail_stepEs = tail_arriveE tail_cancelE tail_cleanupE tail_recvE

inductive_simps tail_run_Nil [simp]: "tail_run s [] s'"
inductive_simps tail_run_Cons [simp]: "tail_run s (e # es) s'"

fun arrivals :: "tail_event list \<Rightarrow> RawMessage list" where
  "arrivals [] = []"
| "arrivals (TArrive m # es) = (case raw_of m of None \<Rightarrow> arrivals es | Some r \<Rightarrow> r # arrivals es)"
| "arrivals (_ # es) = arrivals es"

fun taken :: "tail_event list \<Rightarrow> RawMessage list" where
  "taken [] = []"
| "taken (TRecv (Received r) # es) = r # taken es"
| "taken (_ # es) = taken es"

section \<open>The Reader interface\<close>

text \<open>
  What the data-plane calls rely on: a read without error returns at most the requested number of
  messages, in ascending order of stream sequence, within the requested window.
\<close>

definition in_window :: "gotime \<Rightarrow> gotime \<Rightarrow> gotime \<Rightarrow> bool" where
  "in_window since until' t \<longleftrightarrow>
     (\<not> IsZero since \<longrightarrow> \<not> After since t) \<and> (\<not> IsZero until' \<longrightarrow> \<not> After t until')"

locale stream_reader =
  fixes ok :: "'r \<Rightarrow> bool"
    and read :: "'r \<Rightarrow> string \<Rightarrow> ReadOpts \<Rightarrow> RawMessage list \<times> 'e option"
  assumes read_limit:
      "ok r \<Longrightarrow> read r name opts = (ms, None) \<Longrightarrow> 0 < ro_Limit opts \<Longrightarrow> int (length ms) \<le> ro_Limit opts"
    and read_order:
      "ok r \<Longrightarrow> read r name opts = (ms, None) \<Longrightarrow> sorted_wrt (\<lambda>a b. rm_Sequence a < rm_Sequence b) ms"
    and read_window:
      "ok r \<Longrightarrow> read r name opts = (ms, None) \<Longrightarrow> m \<in> set ms \<Longrightarrow>
         in_window (ro_Since opts) (ro_Until opts) (rm_Timestamp m)"

text \<open>
  What JetStream documents of an ordered consumer's batch: no more messages than asked for, in
  stream order, and none from before the start time of the consumer.
\<close>

definition js_ok :: "('st, 'con) jetstream \<Rightarrow> bool" where
  "js_ok js \<longleftrightarrow>
     (\<forall>st policy con n ms err. js_OrderedConsumer js st policy = Inr con \<longrightarrow>
        js_Fetch js con n = Inr (ms, err) \<longrightarrow>
          int (length ms) \<le> max n 0 \<and>
          sorted_wrt (\<lambda>a b. rm_Sequence a < rm_Sequence b) (List.map_filter raw_of ms) \<and>
          (\<forall>t. policy = DeliverByStartTime t \<longrightarrow>
             (\<forall>r \<in> set (List.map_filter raw_of ms). \<not> After t (rm_Timestamp r))))"

section \<open>Lemmas: reading\<close>

lemma clamp_read_limit_bounds: "1 \<le> clamp_read_limit n \<and> clamp_read_limit n \<le> 10000"
  by (simp add: clamp_read_limit_def Let_def defaultReadLimit_def maxReadLimit_def)

lemma clamp_read_limit_le: "0 < n \<Longrightarrow> clamp_read_limit n \<le> n"
  by (simp add: clamp_read_limit_def Let_def)

lemma collect_batch_prefix: "prefix (collect_batch u ms) (List.map_filter raw_of ms)"
  by (induction ms) (auto simp: raw_of_def split: sum.splits)

lemma collect_batch_until:
  "r \<in> set (collect_batch u ms) \<Longrightarrow> \<not> IsZero u \<Longrightarrow> \<not> After (rm_Timestamp r) u"
  by (induction ms) (auto split: sum.splits if_splits)

lemma collect_batch_unbounded: "IsZero u \<Longrightarrow> collect_batch u ms = List.map_filter raw_of ms"
  by (induction ms) (auto simp: raw_of_def split: sum.splits)

lemma length_collect_batch [len_simps]: "length (collect_batch u ms) \<le> length ms"
  using collect_batch_prefix [of u ms] length_map_filter_le [of raw_of ms]
  by (meson le_trans prefix_length_le)

text \<open>A read without error went through a consumer with the policy of its window.\<close>

lemma js_Read_ok:
  assumes "js_Read js name opts = (ms, None)"
  obtains st con batch where
    "js_OrderedConsumer js st
       (if \<not> IsZero (ro_Since opts) then DeliverByStartTime (ro_Since opts) else DeliverAll) = Inr con"
    "js_Fetch js con (clamp_read_limit (ro_Limit opts)) = Inr (batch, None)"
    "ms = collect_batch (ro_Until opts) batch"
  using assms by (auto simp: js_Read_def Let_def split: sum.splits prod.splits option.splits)

lemma sorted_wrt_prefix: "prefix xs ys \<Longrightarrow> sorted_wrt P ys \<Longrightarrow> sorted_wrt P xs"
  by (auto simp: prefix_def sorted_wrt_append)

lemma js_ok_batch:
  assumes "js_ok js" "js_OrderedConsumer js st policy = Inr con" "js_Fetch js con n = Inr (ms, err)"
  shows "int (length ms) \<le> max n 0"
    "sorted_wrt (\<lambda>a b. rm_Sequence a < rm_Sequence b) (List.map_filter raw_of ms)"
    "policy = DeliverByStartTime t \<Longrightarrow> r \<in> set (List.map_filter raw_of ms) \<Longrightarrow> \<not> After t (rm_Timestamp r)"
  using assms unfolding js_ok_def by blast+

lemma js_Read_limit:
  assumes "js_ok js" "js_Read js name opts = (ms, None)" "0 < ro_Limit opts"
  shows "int (length ms) \<le> ro_Limit opts"
  using assms(2)
proof (rule js_Read_ok)
  fix st con batch
  assume c: "js_OrderedConsumer js st
      (if \<not> IsZero (ro_Since opts) then DeliverByStartTime (ro_Since opts) else DeliverAll) = Inr con"
    and f: "js_Fetch js con (clamp_read_limit (ro_Limit opts)) = Inr (batch, None)"
    and ms: "ms = collect_batch (ro_Until opts) batch"
  have "int (length batch) \<le> clamp_read_limit (ro_Limit opts)"
    using js_ok_batch(1) [OF assms(1) c f] clamp_read_limit_bounds [of "ro_Limit opts"] by simp
  then show ?thesis
    using length_collect_batch [of "ro_Until opts" batch] clamp_read_limit_le [OF assms(3)] ms by simp
qed

lemma js_Read_order:
  assumes "js_ok js" "js_Read js name opts = (ms, None)"
  shows "sorted_wrt (\<lambda>a b. rm_Sequence a < rm_Sequence b) ms"
  using assms(2)
  by (rule js_Read_ok) (metis assms(1) collect_batch_prefix js_ok_batch(2) sorted_wrt_prefix)

lemma js_Read_window:
  assumes "js_ok js" "js_Read js name opts = (ms, None)" "m \<in> set ms"
  shows "in_window (ro_Since opts) (ro_Until opts) (rm_Timestamp m)"
  using assms(2)
proof (rule js_Read_ok)
  fix st con batch
  assume c: "js_OrderedConsumer js st
      (if \<not> IsZero (ro_Since opts) then DeliverByStartTime (ro_Since opts) else DeliverAll) = Inr con"
    and f: "js_Fetch js con (clamp_read_limit (ro_Limit opts)) = Inr (batch, None)"
    and ms: "ms = collect_batch (ro_Until opts) batch"
  have "m \<in> set (List.map_filter raw_of batch)"
    using collect_batch_prefix [of "ro_Until opts" batch] assms(3) ms by (auto simp: prefix_def)
  then show ?thesis
    using js_ok_batch(3) [OF assms(1) c f] collect_batch_until [of m "ro_Until opts" batch] assms(3) ms
    by (auto simp: in_window_def)
qed

interpretation jsr: stream_reader "\<lambda>r. \<exists>js :: ('st, 'con) jetstream. js_ok js \<and> r = js_reader js" rd_Read
  by unfold_locales
    (auto simp: js_reader_def intro: js_Read_limit js_Read_order js_Read_window)

section \<open>Lemmas: tailing\<close>

definition tail_inv :: "tail_state \<Rightarrow> bool" where
  "tail_inv s \<longleftrightarrow> (ch_closed (ts_chan s) \<longrightarrow> ts_cancelled s) \<and> chan_ok (ts_chan s)"

lemma tail_step_inv: "tail_step s e s' \<Longrightarrow> tail_inv s \<Longrightarrow> tail_inv s'"
proof (induction rule: tail_step.induct)
  case (received s r c)
  then show ?case using recv_chan_ok [of "ts_chan s" r c] by (simp add: tail_inv_def)
next
  case (cleanup s c)
  then show ?case by (auto simp: tail_inv_def close_chan_def chan_ok_def split: if_splits)
qed (auto simp: tail_inv_def chan_ok_def has_room_def)

lemma tail_step_flow:
  "tail_step s e s' \<Longrightarrow>
     \<exists>acc. taken [e] @ ch_buf (ts_chan s') = ch_buf (ts_chan s) @ acc \<and> subseq acc (arrivals [e]) \<and>
       (ts_cancelled s \<longrightarrow> ts_cancelled s') \<and>
       (tail_inv s \<longrightarrow> \<not> ts_cancelled s' \<longrightarrow> acc = arrivals [e])"
proof (induction rule: tail_step.induct)
  case (received s r c)
  then show ?case
    by (intro exI [of _ "[]"]) (cases r; auto simp: recv_chan_def split: list.splits if_splits)
next
  case (cleanup s c)
  then show ?case by (intro exI [of _ "[]"]) (auto simp: close_chan_def split: if_splits)
qed (auto simp: tail_inv_def)

lemma arrivals_Cons: "arrivals (e # es) = arrivals [e] @ arrivals es"
  by (cases e) (auto split: option.splits)

lemma taken_Cons: "taken (e # es) = taken [e] @ taken es"
proof (cases e)
  case (TRecv r)
  then show ?thesis by (cases r) simp_all
qed simp_all

lemma tail_run_flow:
  "tail_run s es s' \<Longrightarrow> tail_inv s \<Longrightarrow>
     subseq (taken es @ ch_buf (ts_chan s')) (ch_buf (ts_chan s) @ arrivals es) \<and> tail_inv s' \<and>
     (\<not> ts_cancelled s' \<longrightarrow> taken es @ ch_buf (ts_chan s') = ch_buf (ts_chan s) @ arrivals es)"
proof (induction rule: tail_run.induct)
  case (run_cons s e s1 es s2)
  let ?b = "\<lambda>s. ch_buf (ts_chan s)"
  obtain acc where acc: "taken [e] @ ?b s1 = ?b s @ acc" "subseq acc (arrivals [e])"
    "ts_cancelled s \<longrightarrow> ts_cancelled s1" "\<not> ts_cancelled s1 \<longrightarrow> acc = arrivals [e]"
    using tail_step_flow [OF run_cons.hyps(1)] run_cons.prems by blast
  have IH: "subseq (taken es @ ?b s2) (?b s1 @ arrivals es)" "tail_inv s2"
    "\<not> ts_cancelled s2 \<longrightarrow> taken es @ ?b s2 = ?b s1 @ arrivals es"
    using run_cons.IH tail_step_inv [OF run_cons.hyps(1) run_cons.prems] by blast+
  have mono: "ts_cancelled s1 \<longrightarrow> ts_cancelled s2"
    using run_cons.hyps(2) by (induction rule: tail_run.induct) (use tail_step_flow in blast)+
  have eq: "taken [e] @ ?b s1 @ arrivals es = ?b s @ acc @ arrivals es"
    using acc(1) by (metis append.assoc)
  have "subseq (taken [e] @ taken es @ ?b s2) (taken [e] @ ?b s1 @ arrivals es)"
    using IH(1) by (simp add: subseq_append')
  also note eq
  also have "subseq (?b s @ acc @ arrivals es) (?b s @ arrivals [e] @ arrivals es)"
    using acc(2) by (intro list_emb_append_mono) auto
  finally have "subseq (taken (e # es) @ ?b s2) (?b s @ arrivals (e # es))"
    by (simp add: arrivals_Cons [of e es] taken_Cons [of e es])
  moreover have "taken (e # es) @ ?b s2 = ?b s @ arrivals (e # es)" if "\<not> ts_cancelled s2"
    using that IH(3) mono acc(4) eq by (simp add: arrivals_Cons [of e es] taken_Cons [of e es])
  ultimately show ?case using IH(2) by blast
qed simp

section \<open>Properties\<close>

text \<open>
  C34. \<open>Read\<close> over JetStream keeps the contract of the interface: no more messages than the limit, in
  stream order, all inside the requested window (the upper end of which the client enforces).
\<close>

theorem js_Read_contract:
  assumes "js_ok js" and "js_Read js name opts = (ms, None)" and "0 < ro_Limit opts"
  shows "int (length ms) \<le> min (ro_Limit opts) 10000 \<and>
     sorted_wrt (\<lambda>a b. rm_Sequence a < rm_Sequence b) ms \<and>
     (\<forall>m \<in> set ms. in_window (ro_Since opts) (ro_Until opts) (rm_Timestamp m))"
proof -
  have ok: "\<exists>js' :: ('a, 'b) jetstream. js_ok js' \<and> js_reader js = js_reader js'" using assms(1) by blast
  have r: "rd_Read (js_reader js) name opts = (ms, None)" using assms(2) by (simp add: js_reader_def)
  obtain st con batch where "js_OrderedConsumer js st
       (if \<not> IsZero (ro_Since opts) then DeliverByStartTime (ro_Since opts) else DeliverAll) = Inr con"
    "js_Fetch js con (clamp_read_limit (ro_Limit opts)) = Inr (batch, None)"
    "ms = collect_batch (ro_Until opts) batch"
    by (rule js_Read_ok [OF assms(2)])
  then have "int (length ms) \<le> 10000"
    using js_ok_batch(1) [OF assms(1)] clamp_read_limit_bounds [of "ro_Limit opts"]
      length_collect_batch [of "ro_Until opts" batch] by fastforce
  then show ?thesis
    using jsr.read_limit [OF ok r assms(3)] jsr.read_order [OF ok r] jsr.read_window [OF ok r] by simp
qed

text \<open>
  C24. Whatever the interleaving of callbacks, cancellation, cleanup and reader: the reader gets, in
  order, only messages that arrived; none is lost before the context is cancelled; and the channel
  is never seen closed unless the context was cancelled, so a consumer that ends by itself leaves
  the reader waiting.
\<close>

theorem Tail_delivery:
  assumes "tail_run (tail_start n) es s"
  shows "subseq (taken es @ ch_buf (ts_chan s)) (arrivals es) \<and>
     (\<not> ts_cancelled s \<longrightarrow> taken es @ ch_buf (ts_chan s) = arrivals es) \<and>
     (ch_closed (ts_chan s) \<longrightarrow> ts_cancelled s)"
proof -
  have "tail_inv (tail_start n)" by (simp add: tail_inv_def tail_start_def)
  from tail_run_flow [OF assms this] show ?thesis
    by (simp add: tail_start_def tail_inv_def)
qed

text \<open>
  A connection opened while dialing is kept by the reader or closed before the error is
  returned, and closing a reader twice closes its connection once.
\<close>

theorem DialJetStream_no_leak:
  "case DialJetStream connect jsNew url of
     (Inl e, closed) \<Rightarrow>
       closed = (if url = [] then [] else case connect url of Inl _ \<Rightarrow> [] | Inr nc \<Rightarrow> [nc])
   | (Inr r, closed) \<Rightarrow>
       closed = [] \<and> url \<noteq> [] \<and> connect url = Inr (the (jr_nc r)) \<and>
       snd (Close r) = [the (jr_nc r)] \<and> snd (Close (fst (Close r))) = []"
  by (auto simp: DialJetStream_def Close_def split: sum.splits)

section \<open>Witnesses\<close>

definition ex_msg :: "u64 \<Rightarrow> int \<Rightarrow> js_msg" where
  "ex_msg n t = \<lparr>jm_Subject = ''s'', jm_Metadata = Inr (n, \<lparr>t_ns = t, t_off = 0\<rparr>), jm_Data = ''{}''\<rparr>"

text \<open>A backend with one stream of three messages, one second apart.\<close>

definition ex_js :: "(unit, gotime) jetstream" where
  "ex_js = \<lparr>js_ListStreams = ([], None), js_Stream = (\<lambda>_. Inr ()),
     js_Info = (\<lambda>_. Inl \<lparr>ee_not_found = True, ee_msg = []\<rparr>),
     js_OrderedConsumer = (\<lambda>_ policy. Inr (case policy of DeliverByStartTime t \<Rightarrow> t | _ \<Rightarrow> zero_time)),
     js_Fetch = (\<lambda>t n. Inr (take (nat n) (filter (\<lambda>m. case jm_Metadata m of
         Inr (_, u) \<Rightarrow> \<not> After t u | Inl _ \<Rightarrow> False) [ex_msg 1 10000000000, ex_msg 2 20000000000, ex_msg 3 30000000000]), None)),
     js_Consume = (\<lambda>_. None)\<rparr>"

lemma map_filter_take_total:
  "\<forall>x \<in> set xs. f x \<noteq> None \<Longrightarrow> List.map_filter f (take n xs) = take n (List.map_filter f xs)"
  by (induction xs arbitrary: n) (auto simp: take_Cons' split: option.splits)

lemma js_Read_fetched:
  assumes "js_Read js name opts = (ms, err)" and "m \<in> set ms"
  obtains con n batch err' where "js_Fetch js con n = Inr (batch, err')" "m \<in> set (List.map_filter raw_of batch)"
  using assms collect_batch_prefix set_mono_prefix
  by (fastforce simp: js_Read_def Let_def split: sum.splits option.splits prod.splits)

lemma ex_js_times:
  assumes "js_Read ex_js name opts = (ms, err)" and "m \<in> set ms"
  shows "t_ns (rm_Timestamp m) \<in> {10000000000, 20000000000, 30000000000} \<and> t_off (rm_Timestamp m) = 0"
  using assms
proof (rule js_Read_fetched)
  fix con n batch err'
  assume "js_Fetch ex_js con n = Inr (batch, err')" and m: "m \<in> set (List.map_filter raw_of batch)"
  then have "set batch \<subseteq> {ex_msg 1 10000000000, ex_msg 2 20000000000, ex_msg 3 30000000000}"
    by (auto simp: ex_js_def simp del: filter.simps dest!: in_set_takeD)
  then have "set (List.map_filter raw_of batch) \<subseteq> {\<lparr>rm_Subject = ''s'', rm_Sequence = q,
      rm_Timestamp = \<lparr>t_ns = t, t_off = 0\<rparr>, rm_Data = ''{}''\<rparr> | q t. t \<in> {10000000000, 20000000000, 30000000000}}"
    by (induction batch) (auto simp: ex_msg_def raw_of_def)
  with m show ?thesis by auto
qed

lemma ex_js_ok: "js_ok ex_js"
  unfolding js_ok_def
proof (intro allI impI)
  fix st policy con n ms err
  assume c: "js_OrderedConsumer ex_js st policy = Inr con" and f: "js_Fetch ex_js con n = Inr (ms, err)"
  let ?all = "[ex_msg 1 10000000000, ex_msg 2 20000000000, ex_msg 3 30000000000]"
  let ?P = "\<lambda>m. case jm_Metadata m of Inr (_, u) \<Rightarrow> \<not> After con u | Inl _ \<Rightarrow> False"
  have ms: "ms = take (nat n) (filter ?P ?all)" using f by (simp add: ex_js_def)
  have "\<forall>m \<in> set ?all. raw_of m \<noteq> None" by (simp add: ex_msg_def raw_of_def)
  then have mf: "List.map_filter raw_of ms = take (nat n) (List.map_filter raw_of (filter ?P ?all))"
    unfolding ms by (intro map_filter_take_total) auto
  have "sorted_wrt (\<lambda>a b. rm_Sequence a < rm_Sequence b) (List.map_filter raw_of (filter ?P ?all))"
    by (simp add: ex_msg_def raw_of_def)
  then have "sorted_wrt (\<lambda>a b. rm_Sequence a < rm_Sequence b) (List.map_filter raw_of ms)"
    unfolding mf by (rule sorted_wrt_take)
  moreover have "int (length ms) \<le> max n 0" unfolding ms by simp
  moreover have "\<not> After con (rm_Timestamp r)" if r: "r \<in> set (List.map_filter raw_of ms)" for r
  proof -
    have "r \<in> set (List.map_filter raw_of (filter ?P ?all))"
      using r unfolding mf by (rule in_set_takeD)
    then show ?thesis by (auto simp: ex_msg_def raw_of_def split: if_splits)
  qed
  ultimately show "int (length ms) \<le> max n 0 \<and>
      sorted_wrt (\<lambda>a b. rm_Sequence a < rm_Sequence b) (List.map_filter raw_of ms) \<and>
      (\<forall>t. policy = DeliverByStartTime t \<longrightarrow>
         (\<forall>r \<in> set (List.map_filter raw_of ms). \<not> After t (rm_Timestamp r)))"
    using c by (auto simp: ex_js_def)
qed

theorem js_Read_contract_witness:
  "\<exists>ms. js_Read ex_js ''s'' \<lparr>ro_Since = \<lparr>t_ns = 15000000000, t_off = 0\<rparr>, ro_Until = \<lparr>t_ns = 25000000000, t_off = 0\<rparr>,
      ro_Limit = 5\<rparr> = (ms, None) \<and> length ms = 1 \<and> int (length ms) \<le> 5"
proof -
  let ?o = "\<lparr>ro_Since = \<lparr>t_ns = 15000000000, t_off = 0\<rparr>, ro_Until = \<lparr>t_ns = 25000000000, t_off = 0\<rparr>, ro_Limit = 5\<rparr>"
  obtain ms where ms: "js_Read ex_js ''s'' ?o = (ms, None)" "length ms = 1"
    by (simp add: js_Read_def ex_js_def ex_msg_def clamp_read_limit_def maxReadLimit_def IsZero_def
        After_def Let_def)
  then show ?thesis using js_Read_contract [OF ex_js_ok ms(1)] by auto
qed

theorem Tail_delivery_witness:
  "\<exists>s. tail_run (tail_start 1) [TArrive (ex_msg 1 10000000000), TCancel, TCleanup] s \<and> ch_closed (ts_chan s) \<and>
     subseq (ch_buf (ts_chan s)) (arrivals [TArrive (ex_msg 1 10000000000), TCancel, TCleanup])"
proof -
  define r where "r = the (raw_of (ex_msg 1 10000000000))"
  have r: "raw_of (ex_msg 1 10000000000) = Some r" by (simp add: r_def raw_of_def ex_msg_def)
  define s1 where "s1 = (tail_start 1)\<lparr>ts_chan := (ts_chan (tail_start 1))\<lparr>ch_buf :=
      ch_buf (ts_chan (tail_start 1)) @ [r]\<rparr>\<rparr>"
  define s2 where "s2 = s1\<lparr>ts_cancelled := True\<rparr>"
  define s3 where "s3 = s2\<lparr>ts_chan := (ts_chan s2)\<lparr>ch_closed := True\<rparr>\<rparr>"
  have "tail_step (tail_start 1) (TArrive (ex_msg 1 10000000000)) s1"
    unfolding s1_def by (rule arrive_sent [OF r]) (simp_all add: tail_start_def has_room_def)
  moreover have "tail_step s1 TCancel s2" unfolding s2_def by (rule cancelled)
  moreover have "tail_step s2 TCleanup s3"
    unfolding s3_def by (rule cleanup) (simp_all add: s2_def s1_def close_chan_def tail_start_def)
  ultimately have run: "tail_run (tail_start 1) [TArrive (ex_msg 1 10000000000), TCancel, TCleanup] s3"
    by (blast intro: tail_run.intros)
  from Tail_delivery [OF run] run show ?thesis
    by (intro exI [of _ s3]) (simp add: s3_def)
qed

end
