(* ===== verification/AuditBroker.thy ===== *)
theory AuditBroker
  imports GoChan GoTime
begin

text \<open>
  \<open>internal/audit/broker.go\<close>: the in-process broker of audit events. A broker is its table of
  subscriptions (the keys of the map, in the order a \<open>range\<close> visits them), the channel of every
  subscription ever made, and the next fresh subscription. The operations run one at a time, each
  under the broker's lock. A panic (a send on or a second close of a closed channel) is None.
\<close>

section \<open>The broker\<close>

record AuditEvent =
  ae_Timestamp :: gotime
  ae_Reason :: string
  ae_Message :: string
  ae_InvolvedKind :: string
  ae_InvolvedName :: string
  ae_InvolvedNamespace :: string
  ae_Actor :: string

record broker =
  b_subs :: "nat list"
  b_chans :: "nat \<Rightarrow> AuditEvent chan"
  b_next :: nat

definition New :: broker where
  "New = \<lparr>b_subs = [], b_chans = (\<lambda>_. make_chan 0), b_next = 0\<rparr>"

text \<open>An event without a time is stamped with the clock.\<close>

definition stamp :: "gotime \<Rightarrow> AuditEvent \<Rightarrow> AuditEvent" where
  "stamp now e = (if IsZero (ae_Timestamp e) then e\<lparr>ae_Timestamp := now\<rparr> else e)"

fun publish_to :: "AuditEvent \<Rightarrow> nat list \<Rightarrow> (nat \<Rightarrow> AuditEvent chan) \<Rightarrow> (nat \<Rightarrow> AuditEvent chan) option" where
  "publish_to e [] chans = Some chans"
| "publish_to e (i # is) chans =
     (case try_send e (chans i) of
        None \<Rightarrow> None
      | Some c \<Rightarrow> publish_to e is (chans(i := c)))"

definition Publish :: "gotime \<Rightarrow> AuditEvent \<Rightarrow> broker option \<Rightarrow> broker option option" where
  "Publish now e b =
     (case b of
        None \<Rightarrow> Some None
      | Some br \<Rightarrow>
          map_option (\<lambda>chans. Some (br\<lparr>b_chans := chans\<rparr>))
            (publish_to (stamp now e) (b_subs br) (b_chans br)))"

definition defaultBufSize :: nat where
  "defaultBufSize = 64"

definition Subscribe :: "int \<Rightarrow> broker \<Rightarrow> nat \<times> broker" where
  "Subscribe bufSize b =
     (let n = (if bufSize \<le> 0 then defaultBufSize else nat bufSize); s = b_next b
      in (s, b\<lparr>b_subs := b_subs b @ [s], b_chans := (b_chans b)(s := make_chan n), b_next := Suc s\<rparr>))"

definition cancel :: "nat \<Rightarrow> broker \<Rightarrow> broker option" where
  "cancel s b =
     (if s \<in> set (b_subs b) then
        (case close_chan (b_chans b s) of
           None \<Rightarrow> None
         | Some c \<Rightarrow> Some (b\<lparr>b_subs := remove1 s (b_subs b), b_chans := (b_chans b)(s := c)\<rparr>))
      else Some b)"

text \<open>A subscriber reads its channel.\<close>

definition receive :: "nat \<Rightarrow> broker \<Rightarrow> AuditEvent received \<times> broker" where
  "receive s b = (case recv_chan (b_chans b s) of (r, c) \<Rightarrow> (r, b\<lparr>b_chans := (b_chans b)(s := c)\<rparr>))"

section \<open>Runs\<close>

datatype audit_op = OpPublish gotime AuditEvent | OpSubscribe int | OpCancel nat | OpReceive nat

text \<open>One operation: the broker after it, and what was received by whom.\<close>

fun audit_step :: "audit_op \<Rightarrow> broker \<Rightarrow> (broker \<times> (nat \<times> AuditEvent) list) option" where
  "audit_step (OpPublish now e) b =
     (case Publish now e (Some b) of Some (Some b') \<Rightarrow> Some (b', []) | _ \<Rightarrow> None)"
| "audit_step (OpSubscribe n) b = Some (snd (Subscribe n b), [])"
| "audit_step (OpCancel s) b = map_option (\<lambda>b'. (b', [])) (cancel s b)"
| "audit_step (OpReceive s) b =
     (case receive s b of
        (Received e, b') \<Rightarrow> Some (b', [(s, e)])
      | (_, b') \<Rightarrow> Some (b', []))"

fun audit_run :: "audit_op list \<Rightarrow> broker \<Rightarrow> (broker \<times> (nat \<times> AuditEvent) list) option" where
  "audit_run [] b = Some (b, [])"
| "audit_run (x # xs) b =
     (case audit_step x b of
        None \<Rightarrow> None
      | Some (b', out) \<Rightarrow> map_option (\<lambda>(b'', outs). (b'', out @ outs)) (audit_run xs b'))"

section \<open>The invariant\<close>

text \<open>
  A subscription is in the table exactly while its channel is open; subscriptions are fresh; no
  buffer exceeds its capacity.
\<close>

definition broker_inv :: "broker \<Rightarrow> bool" where
  "broker_inv b \<longleftrightarrow>
     distinct (b_subs b) \<and> (\<forall>s \<in> set (b_subs b). s < b_next b) \<and>
     (\<forall>s < b_next b. ch_closed (b_chans b s) = (s \<notin> set (b_subs b))) \<and>
     (\<forall>s. chan_ok (b_chans b s))"

lemma broker_inv_New [simp]: "broker_inv New"
  by (simp add: broker_inv_def New_def)

text \<open>What publishing does to every channel, in closed form.\<close>

definition deliver :: "AuditEvent \<Rightarrow> AuditEvent chan \<Rightarrow> AuditEvent chan" where
  "deliver e c = (if has_room c then c\<lparr>ch_buf := ch_buf c @ [e]\<rparr> else c)"

lemma publish_to_eq:
  "distinct is \<Longrightarrow> \<forall>i \<in> set is. \<not> ch_closed (chans i) \<Longrightarrow>
     publish_to e is chans = Some (\<lambda>i. if i \<in> set is then deliver e (chans i) else chans i)"
  by (induction "is" arbitrary: chans) (auto simp: try_send_Some deliver_def fun_eq_iff)

lemma Publish_eq:
  assumes "broker_inv b"
  shows "Publish now e (Some b) = Some (Some (b\<lparr>b_chans :=
     (\<lambda>i. if i \<in> set (b_subs b) then deliver (stamp now e) (b_chans b i) else b_chans b i)\<rparr>))"
  using assms by (simp add: Publish_def broker_inv_def publish_to_eq)

lemma deliver_ok: "chan_ok c \<Longrightarrow> chan_ok (deliver e c)" and
  deliver_closed [simp]: "ch_closed (deliver e c) = ch_closed c"
  by (auto simp: deliver_def chan_ok_def has_room_def)

lemma Publish_inv:
  "broker_inv b \<Longrightarrow> Publish now e (Some b) = Some (Some b') \<Longrightarrow> broker_inv b' \<and> b_subs b' = b_subs b"
  by (auto simp: Publish_eq) (auto simp: broker_inv_def deliver_ok)

lemma broker_invD:
  assumes "broker_inv b"
  shows "distinct (b_subs b)" "s \<in> set (b_subs b) \<Longrightarrow> s < b_next b"
    "s \<in> set (b_subs b) \<Longrightarrow> \<not> ch_closed (b_chans b s)"
    "s < b_next b \<Longrightarrow> ch_closed (b_chans b s) = (s \<notin> set (b_subs b))" "chan_ok (b_chans b s)"
  using assms unfolding broker_inv_def by blast+

lemma Subscribe_inv:
  assumes "broker_inv b" and "Subscribe n b = (s, b')"
  shows "broker_inv b'"
proof -
  note inv = broker_invD [OF assms(1)]
  have [simp]: "b_next b \<notin> set (b_subs b)" using inv(2) [of "b_next b"] by auto
  have b': "b_subs b' = b_subs b @ [b_next b]" "b_next b' = Suc (b_next b)"
    "b_chans b' = (b_chans b)(b_next b := make_chan (if n \<le> 0 then defaultBufSize else nat n))"
    using assms(2) by (auto simp: Subscribe_def Let_def)
  have "\<forall>s < b_next b'. ch_closed (b_chans b' s) = (s \<notin> set (b_subs b'))"
    using inv(4) by (simp add: b' less_Suc_eq)
  moreover have "\<forall>s \<in> set (b_subs b'). s < b_next b'"
    using inv(2) by (auto simp: b' less_Suc_eq)
  ultimately show ?thesis using inv(1,5) by (simp add: broker_inv_def b')
qed

lemma cancel_eq:
  assumes "broker_inv b"
  shows "cancel s b = Some (if s \<in> set (b_subs b) then
      b\<lparr>b_subs := remove1 s (b_subs b), b_chans := (b_chans b)(s := (b_chans b s)\<lparr>ch_closed := True\<rparr>)\<rparr>
    else b)"
  using broker_invD(3) [OF assms] by (simp add: cancel_def close_chan_def)

lemma cancel_inv:
  assumes "broker_inv b" and "cancel s b = Some b'"
  shows "broker_inv b'"
proof (cases "s \<in> set (b_subs b)")
  case True
  note inv = broker_invD [OF assms(1)]
  have b': "b_subs b' = remove1 s (b_subs b)" "b_next b' = b_next b"
    "b_chans b' = (b_chans b)(s := (b_chans b s)\<lparr>ch_closed := True\<rparr>)"
    using assms(2) True by (auto simp: cancel_eq [OF assms(1)])
  have "chan_ok ((b_chans b s)\<lparr>ch_closed := True\<rparr>)" using inv(5) [of s] by (simp add: chan_ok_def)
  moreover have "\<forall>u < b_next b'. ch_closed (b_chans b' u) = (u \<notin> set (b_subs b'))"
    using inv(1,4) by (simp add: b')
  ultimately show ?thesis using inv(1,2,5) by (simp add: broker_inv_def b')
qed (use assms in \<open>simp add: cancel_eq [OF assms(1)]\<close>)

lemma receive_inv:
  assumes "broker_inv b" and "receive s b = (r, b')"
  shows "broker_inv b'"
proof -
  obtain c where c: "recv_chan (b_chans b s) = (r, c)" "b' = b\<lparr>b_chans := (b_chans b)(s := c)\<rparr>"
    using assms(2) by (auto simp: receive_def split: prod.splits)
  have "chan_ok c \<and> ch_closed c = ch_closed (b_chans b s)"
    using recv_chan_ok [OF broker_invD(5) [OF assms(1)] c(1)] .
  then show ?thesis using assms(1) by (simp add: c(2) broker_inv_def)
qed

lemma audit_step_total: "broker_inv b \<Longrightarrow> \<exists>b' out. audit_step x b = Some (b', out)"
proof (cases x)
  case (OpReceive s)
  obtain r b1 where "receive s b = (r, b1)" by fastforce
  then show ?thesis using OpReceive by (cases r) simp_all
qed (simp_all add: Publish_eq cancel_eq)

lemma audit_step_inv:
  assumes "broker_inv b" and "audit_step x b = Some (b', out)"
  shows "broker_inv b'"
proof (cases x)
  case (OpPublish now e)
  with assms(2) have "Publish now e (Some b) = Some (Some b')"
    by (simp split: option.splits)
  with assms(1) Publish_inv show ?thesis by blast
next
  case (OpSubscribe n)
  with assms(2) have "Subscribe n b = (fst (Subscribe n b), b')" by (simp add: prod_eq_iff)
  with assms(1) Subscribe_inv show ?thesis by blast
next
  case (OpCancel s)
  with assms(2) have "cancel s b = Some b'" by simp
  with assms(1) cancel_inv show ?thesis by blast
next
  case (OpReceive s)
  obtain r b1 where rb: "receive s b = (r, b1)" by fastforce
  with OpReceive assms(2) have "b1 = b'" by (cases r) simp_all
  with assms(1) rb receive_inv show ?thesis by blast
qed

lemma audit_run_total:
  "broker_inv b \<Longrightarrow> \<exists>b' outs. audit_run xs b = Some (b', outs) \<and> broker_inv b'"
proof (induction xs arbitrary: b)
  case (Cons x xs)
  obtain b1 o1 where 1: "audit_step x b = Some (b1, o1)" using audit_step_total [OF Cons.prems] by blast
  with Cons.prems have "broker_inv b1" by (rule audit_step_inv)
  then show ?case using Cons.IH [of b1] 1 by fastforce
qed simp

section \<open>What a subscriber gets\<close>

definition published :: "audit_op list \<Rightarrow> AuditEvent list" where
  "published xs = List.map_filter (\<lambda>x. case x of OpPublish now e \<Rightarrow> Some (stamp now e) | _ \<Rightarrow> None) xs"

definition got :: "nat \<Rightarrow> (nat \<times> AuditEvent) list \<Rightarrow> AuditEvent list" where
  "got s outs = map snd (filter (\<lambda>(i, _). i = s) outs)"

lemma published_simps [simp]:
  "published [] = []"
  "published (OpPublish now e # xs) = stamp now e # published xs"
  "published (OpSubscribe n # xs) = published xs"
  "published (OpCancel s # xs) = published xs"
  "published (OpReceive s # xs) = published xs"
  by (simp_all add: published_def)

lemma published_Cons: "published (x # xs) = published [x] @ published xs"
  by (cases x) simp_all

lemma got_simps [simp]: "got s [] = []" "got s (o1 @ o2) = got s o1 @ got s o2"
  "got s [(i, e)] = (if i = s then [e] else [])"
  by (simp_all add: got_def)

abbreviation pending :: "broker \<Rightarrow> nat \<Rightarrow> AuditEvent list" where
  "pending b s \<equiv> ch_buf (b_chans b s)"

abbreviation space :: "broker \<Rightarrow> nat \<Rightarrow> nat" where
  "space b s \<equiv> ch_cap (b_chans b s) - length (ch_buf (b_chans b s))"

lemma has_room_space: "has_room (b_chans b s) \<longleftrightarrow> 0 < space b s"
  by (simp add: has_room_def)

lemma deliver_flow:
  "ch_cap (deliver e c) = ch_cap c"
  "ch_buf (deliver e c) = (if has_room c then ch_buf c @ [e] else ch_buf c)"
  by (simp_all add: deliver_def)

text \<open>
  One operation adds to what a subscription has received or holds nothing but what it published,
  and all of it when there is room and the subscription stays.
\<close>

lemma audit_step_flow:
  assumes "broker_inv b" and "audit_step x b = Some (b', out)" and "s < b_next b"
  shows "\<exists>acc. got s out @ pending b' s = pending b s @ acc \<and> subseq acc (published [x]) \<and>
     s < b_next b' \<and> ch_cap (b_chans b' s) = ch_cap (b_chans b s) \<and>
     (s \<in> set (b_subs b) \<longrightarrow> x \<noteq> OpCancel s \<longrightarrow> s \<in> set (b_subs b') \<and>
        (0 < space b s \<longrightarrow> acc = published [x]))"
proof (cases x)
  case (OpPublish now e)
  have b': "b' = b\<lparr>b_chans := (\<lambda>i. if i \<in> set (b_subs b) then deliver (stamp now e) (b_chans b i)
      else b_chans b i)\<rparr>" "out = []"
    using assms(2) OpPublish by (simp_all add: Publish_eq [OF assms(1)])
  show ?thesis
    by (rule exI [of _ "if s \<in> set (b_subs b) \<and> has_room (b_chans b s) then [stamp now e] else []"])
       (use assms(3) in \<open>simp add: b' OpPublish deliver_flow has_room_space\<close>)
next
  case (OpSubscribe n)
  then show ?thesis using assms(2,3)
    by (intro exI [of _ "[]"]) (auto simp: Subscribe_def Let_def)
next
  case (OpCancel u)
  then show ?thesis using assms(2,3)
    by (intro exI [of _ "[]"]) (auto simp: cancel_eq [OF assms(1)] split: if_splits)
next
  case (OpReceive u)
  obtain r c where rc: "recv_chan (b_chans b u) = (r, c)" by fastforce
  have b': "b' = b\<lparr>b_chans := (b_chans b)(u := c)\<rparr>" and
    out: "out = (case r of Received e \<Rightarrow> [(u, e)] | _ \<Rightarrow> [])"
    using assms(2) OpReceive rc by (auto simp: receive_def split: received.splits)
  have "ch_cap c = ch_cap (b_chans b u)"
    "(case r of Received e \<Rightarrow> [e] | _ \<Rightarrow> []) @ ch_buf c = ch_buf (b_chans b u)"
    using rc by (auto simp: recv_chan_def split: list.splits if_splits)
  then have "got s out @ pending b' s = pending b s \<and> ch_cap (b_chans b' s) = ch_cap (b_chans b s)"
    by (auto simp: b' out split: received.splits)
  then show ?thesis using assms(3) OpReceive by (intro exI [of _ "[]"]) (simp add: b')
qed

lemma audit_run_flow:
  assumes "broker_inv b" and "audit_run xs b = Some (b', outs)" and "s < b_next b"
  shows "subseq (got s outs @ pending b' s) (pending b s @ published xs)"
  using assms
proof (induction xs arbitrary: b outs)
  case (Cons x xs)
  obtain b1 o1 o2 where 1: "audit_step x b = Some (b1, o1)" "audit_run xs b1 = Some (b', o2)" "outs = o1 @ o2"
    using Cons.prems(2) by (auto split: option.splits prod.splits)
  obtain acc where acc: "got s o1 @ pending b1 s = pending b s @ acc" "subseq acc (published [x])" "s < b_next b1"
    using audit_step_flow [OF Cons.prems(1) 1(1) Cons.prems(3)] by blast
  have "subseq (got s o2 @ pending b' s) (pending b1 s @ published xs)"
    using Cons.IH [OF audit_step_inv [OF Cons.prems(1) 1(1)] 1(2) acc(3)] .
  then have "subseq (got s o1 @ got s o2 @ pending b' s) (got s o1 @ pending b1 s @ published xs)"
    by (simp add: subseq_append')
  also have "got s o1 @ pending b1 s @ published xs = pending b s @ acc @ published xs"
    using acc(1) by (metis append.assoc)
  also have "subseq (pending b s @ acc @ published xs) (pending b s @ published [x] @ published xs)"
    using acc(2) by (intro list_emb_append_mono) auto
  finally show ?case by (simp add: 1(3) published_Cons [of x xs])
qed simp

lemma audit_run_lossless:
  assumes "broker_inv b" and "audit_run xs b = Some (b', outs)" and "s \<in> set (b_subs b)"
    and "OpCancel s \<notin> set xs" and "length (published xs) \<le> space b s"
  shows "got s outs @ pending b' s = pending b s @ published xs"
  using assms
proof (induction xs arbitrary: b outs)
  case (Cons x xs)
  obtain b1 o1 o2 where 1: "audit_step x b = Some (b1, o1)" "audit_run xs b1 = Some (b', o2)" "outs = o1 @ o2"
    using Cons.prems(2) by (auto split: option.splits prod.splits)
  have lt: "s < b_next b" using broker_invD(2) Cons.prems(1,3) by blast
  obtain acc where acc: "got s o1 @ pending b1 s = pending b s @ acc" "subseq acc (published [x])"
    "ch_cap (b_chans b1 s) = ch_cap (b_chans b s)" "s \<in> set (b_subs b1)"
    "0 < space b s \<longrightarrow> acc = published [x]"
    using audit_step_flow [OF Cons.prems(1) 1(1) lt] Cons.prems(3,4) by auto
  have len: "length (published [x]) + length (published xs) \<le> space b s"
    using Cons.prems(5) by (simp add: published_Cons [of x xs])
  have a: "acc = published [x]"
  proof (cases "published [x] = []")
    case True
    then show ?thesis using acc(2) by simp
  next
    case False
    then have "0 < space b s" using len by (cases "published [x]") auto
    then show ?thesis using acc(5) by simp
  qed
  have "length (pending b1 s) \<le> length (pending b s) + length (published [x])"
    using acc(1) a by (metis le_add2 length_append)
  then have "length (published xs) \<le> space b1 s" using len acc(3) by simp
  then have "got s o2 @ pending b' s = pending b1 s @ published xs"
    using Cons.IH [OF audit_step_inv [OF Cons.prems(1) 1(1)] 1(2) acc(4)] Cons.prems(4) by simp
  then show ?case using acc(1) a by (simp add: 1(3) published_Cons [of x xs])
qed simp

section \<open>The broker as an interface\<close>

text \<open>Publishing a list of events, one after the other.\<close>

fun publish_each :: "('m \<Rightarrow> 'b \<Rightarrow> 'b option) \<Rightarrow> 'm list \<Rightarrow> 'b \<Rightarrow> 'b option" where
  "publish_each pub [] b = Some b"
| "publish_each pub (m # ms) b = (case pub m b of None \<Rightarrow> None | Some b' \<Rightarrow> publish_each pub ms b')"

text \<open>
  What the event stream and the mutating calls rely on: publishing never fails, appends to every
  live subscription with space and to no other; a new subscription is fresh, empty and has the
  default space. \<open>see m\<close> is the event a subscriber sees for the published \<open>m\<close>.
\<close>

locale pubsub =
  fixes inv :: "'b \<Rightarrow> bool" and live :: "'b \<Rightarrow> nat set" and queue :: "'b \<Rightarrow> nat \<Rightarrow> 'e list"
    and free :: "'b \<Rightarrow> nat \<Rightarrow> nat" and see :: "'m \<Rightarrow> 'e"
    and publish :: "'m \<Rightarrow> 'b \<Rightarrow> 'b option" and subscribe :: "'b \<Rightarrow> nat \<times> 'b" and deflt :: nat
  assumes publish_total: "inv b \<Longrightarrow> \<exists>b'. publish m b = Some b' \<and> inv b' \<and> live b' = live b"
    and publish_queue:
      "inv b \<Longrightarrow> publish m b = Some b' \<Longrightarrow> s \<in> live b \<Longrightarrow> 0 < free b s \<Longrightarrow>
         queue b' s = queue b s @ [see m] \<and> free b' s = free b s - 1"
    and publish_full:
      "inv b \<Longrightarrow> publish m b = Some b' \<Longrightarrow> s \<notin> live b \<or> free b s = 0 \<Longrightarrow>
         queue b' s = queue b s \<and> free b' s = free b s"
    and subscribe_fresh:
      "inv b \<Longrightarrow> subscribe b = (s, b') \<Longrightarrow>
         inv b' \<and> s \<notin> live b \<and> live b' = insert s (live b) \<and> queue b' s = [] \<and> free b' s = deflt"
begin

text \<open>A run of publications: a live subscription ends up with as many as it had space for.\<close>

lemma publish_run:
  assumes "inv b" and "s \<in> live b"
  shows "\<exists>b'. publish_each publish ms b = Some b' \<and> inv b' \<and>
     live b' = live b \<and> queue b' s = queue b s @ take (free b s) (map see ms)"
  using assms
proof (induction ms arbitrary: b)
  case (Cons m ms)
  obtain b1 where b1: "publish m b = Some b1" "inv b1" "live b1 = live b"
    using publish_total [OF Cons.prems(1)] by blast
  obtain b2 where b2: "publish_each publish ms b1 = Some b2" "inv b2"
    "live b2 = live b1" "queue b2 s = queue b1 s @ take (free b1 s) (map see ms)"
    using Cons.IH [OF b1(2)] b1(3) Cons.prems(2) by auto
  have "queue b2 s = queue b s @ take (free b s) (map see (m # ms))"
  proof (cases "free b s")
    case 0
    then show ?thesis using publish_full [OF Cons.prems(1) b1(1), of s] b2(4) by simp
  next
    case (Suc n)
    then show ?thesis using publish_queue [OF Cons.prems(1) b1(1) Cons.prems(2)] b2(4) by simp
  qed
  then show ?case using b1 b2 by simp
qed simp

lemma subscribe_then_publish:
  assumes "inv b" and "subscribe b = (s, b1)"
  shows "\<exists>b'. publish_each publish ms b1 = Some b' \<and>
     queue b' s = take deflt (map see ms)"
  using publish_run [of b1 s ms] subscribe_fresh [OF assms] by auto

end

definition publish_event :: "gotime \<times> AuditEvent \<Rightarrow> broker \<Rightarrow> broker option" where
  "publish_event m b = Option.bind (Publish (fst m) (snd m) (Some b)) (\<lambda>r. r)"

lemma publish_event_eq:
  "broker_inv b \<Longrightarrow> publish_event m b = Some (b\<lparr>b_chans :=
     (\<lambda>i. if i \<in> set (b_subs b) then deliver (stamp (fst m) (snd m)) (b_chans b i) else b_chans b i)\<rparr>)"
  by (simp add: publish_event_def Publish_eq)

interpretation bus: pubsub broker_inv "\<lambda>b. set (b_subs b)" pending space "\<lambda>m. stamp (fst m) (snd m)"
  publish_event "Subscribe 0" defaultBufSize
proof (unfold_locales, goal_cases)
  case (1 b m)
  let ?b = "b\<lparr>b_chans := (\<lambda>i. if i \<in> set (b_subs b) then deliver (stamp (fst m) (snd m)) (b_chans b i)
      else b_chans b i)\<rparr>"
  have "broker_inv ?b" using Publish_inv [OF 1 Publish_eq [OF 1]] by blast
  then show ?case using publish_event_eq [OF 1, of m] by simp
next
  case (2 b m b' s)
  then show ?case by (auto simp: publish_event_eq deliver_flow has_room_space)
next
  case (3 b m b' s)
  then show ?case by (auto simp: publish_event_eq deliver_flow has_room_space)
next
  case (4 b s b')
  have b': "s = b_next b" "b_subs b' = b_subs b @ [s]"
    "b_chans b' = (b_chans b)(s := make_chan defaultBufSize)"
    using 4(2) by (auto simp: Subscribe_def Let_def)
  have "s \<notin> set (b_subs b)" using broker_invD(2) [OF 4(1), of s] b'(1) by auto
  then show ?case using Subscribe_inv [OF 4] b' by simp
qed

section \<open>Properties\<close>

text \<open>
  No sequence of operations on a new broker panics: nothing is ever sent on a closed channel or
  closed twice, even when a subscription is cancelled repeatedly or by somebody who never had it.
\<close>

theorem audit_never_panics:
  "\<exists>b outs. audit_run ops New = Some (b, outs) \<and> broker_inv b"
  using audit_run_total [of New ops] by auto

text \<open>
  C14. What a live subscriber receives and still holds is, in order, what it held and a subsequence
  of what was published; with buffer space for all of it, and while it does not cancel, nothing is
  lost, whatever the other subscribers do.
\<close>

theorem audit_delivery:
  assumes "audit_run pre New = Some (b, outs0)" and "s \<in> set (b_subs b)"
    and "audit_run xs b = Some (b', outs)"
  shows "subseq (got s outs @ pending b' s) (pending b s @ published xs) \<and>
     (OpCancel s \<notin> set xs \<and> length (published xs) \<le> space b s \<longrightarrow>
        got s outs @ pending b' s = pending b s @ published xs)"
proof -
  have inv: "broker_inv b" using audit_run_total [of New pre] assms(1) by auto
  then show ?thesis
    using audit_run_flow [OF inv assms(3) broker_invD(2) [OF inv assms(2)]]
      audit_run_lossless [OF inv assms(3,2)] by blast
qed

text \<open>
  One publication reaches every live subscriber with room, is dropped for the full ones only,
  and does not depend on the order in which the table is visited.
\<close>

theorem Publish_isolated:
  assumes "broker_inv b" and "mset subs' = mset (b_subs b)"
  shows "\<exists>b1 b2. Publish now e (Some b) = Some (Some b1) \<and>
     Publish now e (Some (b\<lparr>b_subs := subs'\<rparr>)) = Some (Some b2) \<and> b_chans b2 = b_chans b1 \<and>
     (\<forall>s. pending b1 s =
        (if s \<in> set (b_subs b) \<and> 0 < space b s then pending b s @ [stamp now e] else pending b s))"
proof -
  have eq: "set subs' = set (b_subs b)" "distinct subs' = distinct (b_subs b)"
    using assms(2) mset_eq_setD mset_eq_imp_distinct_iff by blast+
  have "broker_inv (b\<lparr>b_subs := subs'\<rparr>)" using assms(1) by (simp add: broker_inv_def eq)
  then show ?thesis
    using Publish_eq [OF assms(1)] by (simp add: Publish_eq eq deliver_flow has_room_space cong: if_cong)
qed

text \<open>
  A new subscription with the default buffer holds, after any publications it has not read yet,
  exactly the first 64 of them.
\<close>

theorem Subscribe_then_publish:
  assumes "broker_inv b" and "Subscribe 0 b = (s, b1)"
  shows "\<exists>b'. publish_each publish_event ms b1 = Some b' \<and>
     pending b' s = take 64 (map (\<lambda>m. stamp (fst m) (snd m)) ms)"
  using bus.subscribe_then_publish [OF assms] by (simp add: defaultBufSize_def)

section \<open>Witnesses\<close>

definition ex_event :: "string \<Rightarrow> AuditEvent" where
  "ex_event r = \<lparr>ae_Timestamp = zero_time, ae_Reason = r, ae_Message = [], ae_InvolvedKind = [],
     ae_InvolvedName = [], ae_InvolvedNamespace = [], ae_Actor = []\<rparr>"

text \<open>Two subscribers, the first with room for one event only.\<close>

definition ex_broker :: broker where
  "ex_broker = snd (Subscribe 0 (snd (Subscribe 1 New)))"

lemma ex_broker_run: "audit_run [OpSubscribe 1, OpSubscribe 0] New = Some (ex_broker, [])"
  by (simp add: ex_broker_def)

lemma ex_broker_simps:
  "b_subs ex_broker = [0, 1]" "b_next ex_broker = 2"
  "b_chans ex_broker = (\<lambda>_. make_chan 0)(0 := make_chan 1, 1 := make_chan 64)"
  by (simp_all add: ex_broker_def Subscribe_def Let_def New_def defaultBufSize_def)

lemma ex_broker_inv: "broker_inv ex_broker"
  using audit_run_total [OF broker_inv_New, of "[OpSubscribe 1, OpSubscribe 0]"] ex_broker_run by auto

theorem audit_delivery_witness:
  "\<exists>b' outs. audit_run [OpPublish zero_time (ex_event ''x''), OpPublish zero_time (ex_event ''y''),
        OpReceive 1] ex_broker = Some (b', outs) \<and>
     got 1 outs @ pending b' 1 = published [OpPublish zero_time (ex_event ''x''),
        OpPublish zero_time (ex_event ''y''), OpReceive 1]"
proof -
  let ?xs = "[OpPublish zero_time (ex_event ''x''), OpPublish zero_time (ex_event ''y''), OpReceive 1]"
  obtain b' outs where r: "audit_run ?xs ex_broker = Some (b', outs)"
    using audit_run_total [OF ex_broker_inv] by blast
  have "1 \<in> set (b_subs ex_broker)" by (simp add: ex_broker_simps)
  from audit_delivery [OF ex_broker_run this r] r show ?thesis
    by (simp add: ex_broker_simps)
qed

theorem Publish_isolated_witness:
  "broker_inv ex_broker \<and> mset [1, 0] = mset (b_subs ex_broker) \<and>
   (\<exists>b2. Publish zero_time (ex_event ''x'') (Some (ex_broker\<lparr>b_subs := [1, 0]\<rparr>)) = Some (Some b2))"
  using ex_broker_inv Publish_isolated [OF ex_broker_inv, of "[1, 0]" zero_time "ex_event ''x''"]
  by (auto simp: ex_broker_simps)

theorem Subscribe_then_publish_witness:
  "\<exists>b'. publish_each publish_event [(zero_time, ex_event ''x'')] (snd (Subscribe 0 New)) = Some b' \<and>
     length (pending b' 0) = 1"
  using Subscribe_then_publish [OF broker_inv_New, of 0 "snd (Subscribe 0 New)"
      "[(zero_time, ex_event ''x'')]"]
  by (auto simp: Subscribe_def Let_def New_def)

end
