(* ===== verification/Service.thy ===== *)
theory Service
  imports Config K8s JqFilter Streams AuditBroker "HOL-Library.AList"
begin

text \<open>
  The service object of \<open>internal/service/service.go\<close> and what its calls share
  (\<open>resource_common.go\<close>): the configuration and the optional backends, the cluster envelope every
  response carries, the errors with their texts, kind resolution, and the conversion of objects to
  protobuf structs. What the calls change is a world: the cluster \<open>'c\<close> behind the dynamic client, the
  audit broker, and the clock.
\<close>

section \<open>The server and the world\<close>

record 'c Service =
  srv_cfg :: config
  srv_kube :: "kube_client option"
  srv_dyn :: "'c dyn_client option"
  srv_streams :: "Reader option"
  srv_startTime :: gotime

record 'c world =
  w_cluster :: 'c
  w_audit :: broker
  w_now :: gotime

definition New_Service ::
  "config \<Rightarrow> kube_client option \<Rightarrow> 'c dyn_client option \<Rightarrow> Reader option \<Rightarrow> 'c \<Rightarrow> gotime \<Rightarrow>
     'c Service \<times> 'c world" where
  "New_Service cfg kube dyn streamsReader cluster now =
     (\<lparr>srv_cfg = cfg, srv_kube = kube, srv_dyn = dyn, srv_streams = streamsReader, srv_startTime = now\<rparr>,
      \<lparr>w_cluster = cluster, w_audit = New, w_now = now\<rparr>)"

record ClusterRef =
  cl_SiteId :: string
  cl_Tenant :: string
  cl_Region :: string

definition clusterRef :: "'c Service \<Rightarrow> ClusterRef" where
  "clusterRef s =
     \<lparr>cl_SiteId = SiteID (srv_cfg s), cl_Tenant = Tenant (srv_cfg s), cl_Region = Region (srv_cfg s)\<rparr>"

text \<open>
  Publishing on the server's broker; None is a panic. The broker is never nil: \<open>New\<close> makes one.
\<close>

definition audit_publish :: "AuditEvent \<Rightarrow> 'c world \<Rightarrow> 'c world option" where
  "audit_publish e w = map_option (\<lambda>b. w\<lparr>w_audit := b\<rparr>) (publish_event (w_now w, e) (w_audit w))"

section \<open>Errors\<close>

datatype svc_error =
    KindRequired
  | NoDynamicClient
  | NameRequired
  | Resolve k8s_error
  | EncodeStruct ext_err
  | DecodeStruct ext_err
  | StructConversion ext_err
  | ListResource string ext_err
  | ConvertItem nat svc_error
  | ResourceNotFound string string
  | GetResource string string ext_err
  | ConvertObject svc_error
  | ManifestRequired
  | ParseManifest ext_err
  | DecodeManifest ext_err
  | ManifestMissingKind
  | ManifestMissingName
  | ApplyResource string string ext_err
  | DeleteResource string string ext_err
  | ListCRDs ext_err
  | NoOpenAPISchema string string
  | ConvertSchema svc_error
  | CRDNotFound string string
  | StreamsNotConfigured
  | ParseSince ext_err
  | ParseUntil ext_err
  | FilterError filter_error
  | StreamError stream_error
  | ConnectDefenseNATS ext_err
  | SubscribeDefense ext_err

fun filter_error_text :: "codec \<Rightarrow> filter_error \<Rightarrow> string" where
  "filter_error_text cd EmptyExpression = ''filter: empty expression''"
| "filter_error_text cd (ParseJq x e) =
     ''filter: parse jq '' @ Quote (unicode_table cd) x @ '': '' @ ee_msg e"
| "filter_error_text cd (CompileJq x e) =
     ''filter: compile jq '' @ Quote (unicode_table cd) x @ '': '' @ ee_msg e"
| "filter_error_text cd (EvalJq e) = ''filter: eval: '' @ e"

fun stream_error_text :: "codec \<Rightarrow> stream_error \<Rightarrow> string" where
  "stream_error_text cd EmptyNATSURL = ''streams: empty NATS URL''"
| "stream_error_text cd (ConnectNATS e) = ''streams: connect NATS: '' @ ee_msg e"
| "stream_error_text cd (JetStreamContext e) = ''streams: jetstream context: '' @ ee_msg e"
| "stream_error_text cd (ListStreams e) = ''streams: list: '' @ ee_msg e"
| "stream_error_text cd (StreamLookup n e) =
     ''streams: stream '' @ Quote (unicode_table cd) n @ '': '' @ ee_msg e"
| "stream_error_text cd (StreamInfoErr n e) =
     ''streams: info '' @ Quote (unicode_table cd) n @ '': '' @ ee_msg e"
| "stream_error_text cd (OrderedConsumer n e) =
     ''streams: ordered consumer '' @ Quote (unicode_table cd) n @ '': '' @ ee_msg e"
| "stream_error_text cd (FetchErr n e) =
     ''streams: fetch '' @ Quote (unicode_table cd) n @ '': '' @ ee_msg e"
| "stream_error_text cd (BatchErr n e) =
     ''streams: batch '' @ Quote (unicode_table cd) n @ '': '' @ ee_msg e"
| "stream_error_text cd (TailConsumer n e) =
     ''streams: tail consumer '' @ Quote (unicode_table cd) n @ '': '' @ ee_msg e"
| "stream_error_text cd (TailConsume n e) =
     ''streams: tail consume '' @ Quote (unicode_table cd) n @ '': '' @ ee_msg e"

fun k8s_error_text :: "k8s_error \<Rightarrow> string" where
  "k8s_error_text NilClient = ''k8s: nil client or config''"
| "k8s_error_text (DynamicClient e) = ''k8s: dynamic client: '' @ ee_msg e"
| "k8s_error_text (DiscoveryClient e) = ''k8s: discovery client: '' @ ee_msg e"
| "k8s_error_text (APIGroupResources e) = ''k8s: api group resources: '' @ ee_msg e"
| "k8s_error_text (ResolveKind g k e) = ''resolve '' @ g @ ''/'' @ k @ '': '' @ ee_msg e"
| "k8s_error_text (ListServicesIn ns e) = ''list services in '' @ ns @ '': '' @ ee_msg e"
| "k8s_error_text (InClusterConfig e) = ''k8s: in-cluster config: '' @ ee_msg e"
| "k8s_error_text NoKubeconfig =
     ''k8s: not running in-cluster and no kubeconfig found (set KUBECONFIG or place a config at ~/.kube/config)''"
| "k8s_error_text (LoadKubeconfig p e) = ''k8s: load kubeconfig '' @ p @ '': '' @ ee_msg e"
| "k8s_error_text (BuildClientset e) = ''k8s: build clientset: '' @ ee_msg e"

fun error_text :: "codec \<Rightarrow> svc_error \<Rightarrow> string" where
  "error_text cd KindRequired = ''kind is required''"
| "error_text cd NoDynamicClient = ''no dynamic client (no kube wiring)''"
| "error_text cd NameRequired = ''name is required''"
| "error_text cd (Resolve e) = k8s_error_text e"
| "error_text cd (EncodeStruct e) = ''encode for struct conversion: '' @ ee_msg e"
| "error_text cd (DecodeStruct e) = ''decode for struct conversion: '' @ ee_msg e"
| "error_text cd (StructConversion e) = ''struct conversion: '' @ ee_msg e"
| "error_text cd (ListResource r e) = ''list '' @ r @ '': '' @ ee_msg e"
| "error_text cd (ConvertItem i e) = ''convert item '' @ show_nat i @ '': '' @ error_text cd e"
| "error_text cd (ResourceNotFound k n) = k @ '' '' @ Quote (unicode_table cd) n @ '' not found''"
| "error_text cd (GetResource k n e) =
     ''get '' @ k @ '' '' @ Quote (unicode_table cd) n @ '': '' @ ee_msg e"
| "error_text cd (ConvertObject e) = ''convert object: '' @ error_text cd e"
| "error_text cd ManifestRequired = ''manifest is required''"
| "error_text cd (ParseManifest e) = ''parse manifest: '' @ ee_msg e"
| "error_text cd (DecodeManifest e) = ''decode manifest: '' @ ee_msg e"
| "error_text cd ManifestMissingKind = ''manifest missing kind''"
| "error_text cd ManifestMissingName = ''manifest missing metadata.name''"
| "error_text cd (ApplyResource k n e) =
     ''apply '' @ k @ '' '' @ Quote (unicode_table cd) n @ '': '' @ ee_msg e"
| "error_text cd (DeleteResource k n e) =
     ''delete '' @ k @ '' '' @ Quote (unicode_table cd) n @ '': '' @ ee_msg e"
| "error_text cd (ListCRDs e) = ''list CRDs: '' @ ee_msg e"
| "error_text cd (NoOpenAPISchema g k) = ''CRD '' @ g @ ''/'' @ k @ '' has no openAPIV3Schema''"
| "error_text cd (ConvertSchema e) = ''convert schema: '' @ error_text cd e"
| "error_text cd (CRDNotFound g k) = ''CRD for '' @ g @ ''/'' @ k @ '' not found''"
| "error_text cd StreamsNotConfigured = ''streams backend not configured (set EOB_NATS_URL)''"
| "error_text cd (ParseSince e) = ''parse since: '' @ ee_msg e"
| "error_text cd (ParseUntil e) = ''parse until: '' @ ee_msg e"
| "error_text cd (FilterError e) = filter_error_text cd e"
| "error_text cd (StreamError e) = stream_error_text cd e"
| "error_text cd (ConnectDefenseNATS e) = ''connect defense NATS: '' @ ee_msg e"
| "error_text cd (SubscribeDefense e) = ''subscribe: '' @ ee_msg e"

text \<open>The status codes of the streaming calls (\<open>google.golang.org/grpc/codes\<close>).\<close>

datatype grpc_code = FailedPrecondition | InvalidArgument | Internal

record grpc_status =
  gs_code :: grpc_code
  gs_msg :: string

section \<open>Kinds and structs (resource_common.go)\<close>

definition resolveKind :: "'c Service \<Rightarrow> string \<Rightarrow> string \<Rightarrow> svc_error + ('c dyn_client \<times> gvr \<times> bool)" where
  "resolveKind s grp kind =
     (if kind = [] then Inl KindRequired
      else case srv_dyn s of
        None \<Rightarrow> Inl NoDynamicClient
      | Some d \<Rightarrow>
          let grp = (if grp = [] then CRDAPIGroup (srv_cfg s) else grp) in
          (case ResolveGVR d grp kind of
             Inl e \<Rightarrow> Inl (Resolve e)
           | Inr (g, namespaced) \<Rightarrow> Inr (d, g, namespaced)))"

definition firstNonEmpty :: "string \<Rightarrow> string \<Rightarrow> string" where
  "firstNonEmpty a b = (if a \<noteq> [] then a else b)"

definition summarizeResource :: "unstructured_api \<Rightarrow> json \<Rightarrow> json" where
  "summarizeResource u obj =
     JObj ([(''name'', JStr (u_GetName u obj)),
            (''namespace'', JStr (u_GetNamespace u obj)),
            (''creationTimestamp'', JStr (format_literal_Z (u_GetCreationTimestamp u obj)))]
           @ (case u_NestedMap u obj [''status''] of Some st \<Rightarrow> [(''status'', st)] | None \<Rightarrow> [])
           @ List.map_filter (\<lambda>key. map_option (\<lambda>v. (key, JStr v)) (u_NestedString u obj [''spec'', key]))
               [''source'', ''sink'', ''stream''])"

definition toStruct :: "codec \<Rightarrow> json \<Rightarrow> svc_error + json" where
  "toStruct cd v =
     (case json_Marshal cd v of
        Inl e \<Rightarrow> Inl (EncodeStruct e)
      | Inr b \<Rightarrow>
          (case json_UnmarshalMap cd b of
             Inl e \<Rightarrow> Inl (DecodeStruct e)
           | Inr m \<Rightarrow>
               (case structpb_NewStruct cd m of
                  Inl e \<Rightarrow> Inl (StructConversion e)
                | Inr st \<Rightarrow> Inr st)))"

section \<open>Lemmas\<close>

lemma audit_publish_total:
  assumes "broker_inv (w_audit w)"
  shows "\<exists>b'. audit_publish e w = Some (w\<lparr>w_audit := b'\<rparr>) \<and> broker_inv b' \<and>
    b_subs b' = b_subs (w_audit w) \<and>
    (\<forall>s. ch_cap (b_chans b' s) = ch_cap (b_chans (w_audit w) s)) \<and>
    (\<forall>s. pending b' s = (if s \<in> set (b_subs (w_audit w)) \<and> 0 < space (w_audit w) s
        then pending (w_audit w) s @ [stamp (w_now w) e] else pending (w_audit w) s))"
proof -
  obtain b' where b': "publish_event (w_now w, e) (w_audit w) = Some b'" "broker_inv b'"
    "set (b_subs b') = set (b_subs (w_audit w))"
    using bus.publish_total [OF assms] by blast
  then show ?thesis
    using publish_event_eq [OF assms, of "(w_now w, e)"]
    by (auto simp: audit_publish_def deliver_flow has_room_space)
qed

lemma resolveKind_Inr:
  "resolveKind s grp kind = Inr (d, g, namespaced) \<longleftrightarrow>
     kind \<noteq> [] \<and> srv_dyn s = Some d \<and>
     dc_RESTMapping d (firstNonEmpty grp (CRDAPIGroup (srv_cfg s))) kind = Inr (g, namespaced)"
  by (auto simp: resolveKind_def ResolveGVR_def firstNonEmpty_def Let_def split: option.splits sum.splits)

text \<open>
  What one published event leaves behind: every live subscriber with room has it, stamped, at the end
  of its queue; the other queues, the subscriptions and the clock are as before.
\<close>

definition audited :: "AuditEvent \<Rightarrow> 'c world \<Rightarrow> 'c world \<Rightarrow> bool" where
  "audited ev w w' \<longleftrightarrow>
     broker_inv (w_audit w') \<and> w_now w' = w_now w \<and> b_subs (w_audit w') = b_subs (w_audit w) \<and>
     (\<forall>sub. ch_cap (b_chans (w_audit w') sub) = ch_cap (b_chans (w_audit w) sub) \<and>
        pending (w_audit w') sub =
          (if sub \<in> set (b_subs (w_audit w)) \<and> 0 < space (w_audit w) sub
           then pending (w_audit w) sub @ [stamp (w_now w) ev] else pending (w_audit w) sub))"

lemma audit_publish_audited:
  assumes "broker_inv (w_audit w)"
  shows "\<exists>w'. audit_publish ev (w\<lparr>w_cluster := c\<rparr>) = Some w' \<and> w_cluster w' = c \<and> audited ev w w'"
proof -
  have inv: "broker_inv (w_audit (w\<lparr>w_cluster := c\<rparr>))" using assms by simp
  obtain b' where b': "audit_publish ev (w\<lparr>w_cluster := c\<rparr>) = Some (w\<lparr>w_cluster := c, w_audit := b'\<rparr>)"
    "broker_inv b'" "b_subs b' = b_subs (w_audit w)"
    "\<And>sub. ch_cap (b_chans b' sub) = ch_cap (b_chans (w_audit w) sub)"
    "\<And>sub. pending b' sub = (if sub \<in> set (b_subs (w_audit w)) \<and> 0 < space (w_audit w) sub
        then pending (w_audit w) sub @ [stamp (w_now w) ev] else pending (w_audit w) sub)"
    using audit_publish_total [OF inv, of ev] by auto
  with b' show ?thesis by (simp add: audited_def)
qed

text \<open>
  What any call may do to the broker: its queues grow at the end; subscriptions, capacities and clock stay.
\<close>

definition audit_grows :: "'c world \<Rightarrow> 'c world \<Rightarrow> bool" where
  "audit_grows w w' \<longleftrightarrow>
     broker_inv (w_audit w') \<and> w_now w' = w_now w \<and> b_subs (w_audit w') = b_subs (w_audit w) \<and>
     (\<forall>sub. ch_cap (b_chans (w_audit w') sub) = ch_cap (b_chans (w_audit w) sub) \<and>
        prefix (pending (w_audit w) sub) (pending (w_audit w') sub))"

lemma audit_grows_refl [simp]: "audit_grows w w \<longleftrightarrow> broker_inv (w_audit w)"
  by (simp add: audit_grows_def)

lemma audit_grows_trans: "audit_grows w w1 \<Longrightarrow> audit_grows w1 w2 \<Longrightarrow> audit_grows w w2"
  unfolding audit_grows_def by (metis prefix_order.trans)

lemma audited_grows: "audited ev w w' \<Longrightarrow> audit_grows w w'"
  by (simp add: audited_def audit_grows_def)

lemma audit_grows_inv: "audit_grows w w' \<Longrightarrow> broker_inv (w_audit w')"
  by (simp add: audit_grows_def)

section \<open>Instances for the witnesses\<close>

text \<open>
  A cluster of named objects, an apiserver over it that knows one namespaced kind, and codecs in
  which a manifest is the name of the object it describes.
\<close>

type_synonym ex_cluster = "(string \<times> json) list"

definition ex_err :: "bool \<Rightarrow> ext_err" where
  "ex_err nf = \<lparr>ee_not_found = nf, ee_msg = ''refused''\<rparr>"

definition ex_obj :: "string \<Rightarrow> json" where
  "ex_obj n = JObj [(''name'', JStr n)]"

definition ex_dyn :: "ex_cluster dyn_client" where
  "ex_dyn =
     \<lparr>dc_RESTMapping = (\<lambda>g k. if k = ''Rule'' then Inr (\<lparr>g_Group = g, g_Version = ''v1'', g_Resource = ''rules''\<rparr>, True)
        else Inl (ex_err False)),
      dc_List = (\<lambda>_ _ _ c. Inr (map snd c)),
      dc_Get = (\<lambda>_ _ n c. case map_of c n of Some v \<Rightarrow> Inr v | None \<Rightarrow> Inl (ex_err True)),
      dc_Apply = (\<lambda>_ _ n v opts c. (Inr v, if ao_DryRunAll opts then c else AList.update n v c)),
      dc_Delete = (\<lambda>_ _ n c. if n \<in> set (map fst c) then (None, AList.delete n c) else (Some (ex_err True), c)),
      dc_Watch = (\<lambda>_ _ _. None)\<rparr>"

definition ex_codec_of :: codec where
  "ex_codec_of =
     \<lparr>json_Marshal = (\<lambda>v. Inr (struct_string ''name'' v)), json_Unmarshal = (\<lambda>b. Inr (JStr b)),
      json_UnmarshalMap = (\<lambda>b. Inr (ex_obj b)), structpb_NewStruct = Inr,
      yaml_YAMLToJSON = (\<lambda>m. if m = ''?'' then Inl (ex_err False) else Inr m),
      time_ParseError = (\<lambda>t. ex_err False),
      unicode_table = (\<lambda>_. False), unicode_ToLower = id\<rparr>"

definition ex_unstructured :: unstructured_api where
  "ex_unstructured =
     \<lparr>u_UnmarshalJSON = (\<lambda>b. Inr (ex_obj b)), u_GroupVersionKind = (\<lambda>_. (''g'', ''v1'', ''Rule'')),
      u_GetKind = (\<lambda>_. ''Rule''), u_GetAPIVersion = (\<lambda>_. ''g/v1''), u_GetName = struct_string ''name'',
      u_GetNamespace = (\<lambda>_. []), u_GetUID = (\<lambda>_. ''u''), u_GetResourceVersion = (\<lambda>_. ''7''),
      u_GetGeneration = (\<lambda>_. 3), u_GetCreationTimestamp = (\<lambda>_. zero_time),
      u_NestedString = (\<lambda>_ _. None), u_NestedMap = (\<lambda>_ _. None), u_NestedSlice = (\<lambda>_ _. None)\<rparr>"

definition ex_config :: config where
  "ex_config = \<lparr>SiteID = ''s1'', Tenant = ''t1'', Region = [], MCPVersion = ''v'', OperatorNamespace = ''op'',
     TawonNamespace = ''tawon'', OperatorDeploymentName = ''ctl'', WebhookConfigName = ''hook'',
     DirectiveLabelSelector = ''l'', CRDAPIGroup = ''g'', FieldManager = ''m'', NATSURL = [], DefenseNATSURL = []\<rparr>"

definition ex_svc :: "Reader option \<Rightarrow> ex_cluster Service" where
  "ex_svc r = \<lparr>srv_cfg = ex_config, srv_kube = None, srv_dyn = Some ex_dyn, srv_streams = r, srv_startTime = zero_time\<rparr>"

definition ex_world :: "ex_cluster \<Rightarrow> ex_cluster world" where
  "ex_world c = \<lparr>w_cluster = c, w_audit = snd (Subscribe 0 New), w_now = \<lparr>t_ns = 9, t_off = 0\<rparr>\<rparr>"

lemma ex_world_inv: "broker_inv (w_audit (ex_world c))"
proof -
  have "broker_inv (snd (Subscribe 0 New))"
    by (rule Subscribe_inv [of New 0 "fst (Subscribe 0 New)"]) simp_all
  then show ?thesis by (simp add: ex_world_def)
qed

end
