(* ===== verification/Resources.thy ===== *)
theory Resources
  imports Service
begin

text \<open>
  The calls on resources: \<open>resource_list.go\<close>, \<open>resource_get.go\<close>, \<open>resource_apply.go\<close>,
  \<open>resource_delete.go\<close>, \<open>resource_schema.go\<close> and \<open>batch_apply.go\<close>. Reading calls return an error or
  a response; calls that write return that and the world after them, None for a panic. The timeout
  that bounds each call to the apiserver shows as an error of the client.
\<close>

section \<open>Requests and responses\<close>

record ResourceListRequest =
  lq_Kind :: string
  lq_ApiGroup :: string
  lq_Namespace :: string
  lq_LabelSelector :: string

record ResourceListResponse =
  lr_Cluster :: ClusterRef
  lr_Kind :: string
  lr_ApiGroup :: string
  lr_Namespaced :: bool
  lr_Count :: i32
  lr_Items :: "json list"

record ResourceGetRequest =
  gq_Kind :: string
  gq_ApiGroup :: string
  gq_Namespace :: string
  gq_Name :: string

record ResourceGetResponse =
  gr_Cluster :: ClusterRef
  gr_Object :: json

record ResourceApplyRequest =
  aq_Manifest :: string
  aq_DryRun :: bool
  aq_Force :: bool

record ResourceApplyResponse =
  ar_Cluster :: ClusterRef
  ar_Kind :: string
  ar_ApiGroup :: string
  ar_Namespace :: string
  ar_Name :: string
  ar_Namespaced :: bool
  ar_DryRun :: bool
  ar_Uid :: string
  ar_ResourceVersion :: string
  ar_Generation :: i64

record ResourceDeleteRequest =
  dq_Kind :: string
  dq_ApiGroup :: string
  dq_Namespace :: string
  dq_Name :: string

record ResourceDeleteResponse =
  dr_Cluster :: ClusterRef
  dr_Kind :: string
  dr_Name :: string
  dr_Status :: string

record ResourceSchemaRequest =
  sq_Kind :: string
  sq_ApiGroup :: string

record ResourceSchemaResponse =
  sr_Cluster :: ClusterRef
  sr_Group :: string
  sr_Kind :: string
  sr_StorageVersion :: string
  sr_OpenapiV3Schema :: json

record BatchApplyItem =
  bq_Manifest :: string
  bq_DryRun :: bool
  bq_Force :: bool

record BatchApplyRequest =
  bq_Items :: "BatchApplyItem list"
  bq_AllDryRun :: bool
  bq_AllForce :: bool

record BatchApplyResult =
  bi_Kind :: string
  bi_ApiGroup :: string
  bi_Namespace :: string
  bi_Name :: string
  bi_Status :: string
  bi_Error :: string
  bi_Uid :: string
  bi_ResourceVersion :: string
  bi_Generation :: i64
  bi_DryRun :: bool

record BatchApplyResponse =
  br_Cluster :: ClusterRef
  br_Items :: "BatchApplyResult list"
  br_Applied :: i32
  br_Errors :: i32

section \<open>Listing and getting\<close>

text \<open>The items converted one by one; the first failure is reported with its index.\<close>

fun convert_items :: "codec \<Rightarrow> unstructured_api \<Rightarrow> nat \<Rightarrow> json list \<Rightarrow> svc_error + json list" where
  "convert_items cd ua i [] = Inr []"
| "convert_items cd ua i (obj # objs) =
     (case toStruct cd (summarizeResource ua obj) of
        Inl e \<Rightarrow> Inl (ConvertItem i e)
      | Inr st \<Rightarrow> map_sum id ((#) st) (convert_items cd ua (Suc i) objs))"

definition ResourceList ::
  "codec \<Rightarrow> unstructured_api \<Rightarrow> json sorter \<Rightarrow> 'c Service \<Rightarrow> ResourceListRequest \<Rightarrow> 'c world \<Rightarrow>
     svc_error + ResourceListResponse" where
  "ResourceList cd ua srt s req w =
     (case resolveKind s (lq_ApiGroup req) (lq_Kind req) of
        Inl e \<Rightarrow> Inl e
      | Inr (d, g, namespaced) \<Rightarrow>
          (case dc_List d g (if namespaced then Some (lq_Namespace req) else None)
                  (lq_LabelSelector req) (w_cluster w) of
             Inl e \<Rightarrow> Inl (ListResource (g_Resource g) e)
           | Inr objs \<Rightarrow>
               (case convert_items cd ua 0 objs of
                  Inl e \<Rightarrow> Inl e
                | Inr items \<Rightarrow>
                    let items = srt (\<lambda>x y. struct_string ''name'' x < struct_string ''name'' y) items
                    in Inr \<lparr>lr_Cluster = clusterRef s, lr_Kind = lq_Kind req,
                         lr_ApiGroup = firstNonEmpty (lq_ApiGroup req) (CRDAPIGroup (srv_cfg s)),
                         lr_Namespaced = namespaced, lr_Count = i32_len items, lr_Items = items\<rparr>)))"

definition ResourceGet ::
  "codec \<Rightarrow> 'c Service \<Rightarrow> ResourceGetRequest \<Rightarrow> 'c world \<Rightarrow> svc_error + ResourceGetResponse" where
  "ResourceGet cd s req w =
     (if gq_Name req = [] then Inl NameRequired
      else case resolveKind s (gq_ApiGroup req) (gq_Kind req) of
        Inl e \<Rightarrow> Inl e
      | Inr (d, g, namespaced) \<Rightarrow>
          (case dc_Get d g (if namespaced then Some (gq_Namespace req) else None) (gq_Name req) (w_cluster w) of
             Inl e \<Rightarrow>
               if ee_not_found e then Inl (ResourceNotFound (gq_Kind req) (gq_Name req))
               else Inl (GetResource (gq_Kind req) (gq_Name req) e)
           | Inr obj \<Rightarrow>
               (case toStruct cd obj of
                  Inl e \<Rightarrow> Inl (ConvertObject e)
                | Inr st \<Rightarrow> Inr \<lparr>gr_Cluster = clusterRef s, gr_Object = st\<rparr>)))"

section \<open>Applying\<close>

definition audit_record :: "string \<Rightarrow> string \<Rightarrow> string \<Rightarrow> string \<Rightarrow> string \<Rightarrow> AuditEvent" where
  "audit_record reason message kind name ns =
     \<lparr>ae_Timestamp = zero_time, ae_Reason = reason, ae_Message = message, ae_InvolvedKind = kind,
      ae_InvolvedName = name, ae_InvolvedNamespace = ns, ae_Actor = []\<rparr>"

definition ResourceApply ::
  "codec \<Rightarrow> unstructured_api \<Rightarrow> 'c Service \<Rightarrow> ResourceApplyRequest \<Rightarrow> 'c world \<Rightarrow>
     ((svc_error + ResourceApplyResponse) \<times> 'c world) option" where
  "ResourceApply cd ua s req w =
     (if aq_Manifest req = [] then Some (Inl ManifestRequired, w)
      else case yaml_YAMLToJSON cd (aq_Manifest req) of
        Inl e \<Rightarrow> Some (Inl (ParseManifest e), w)
      | Inr jsonBytes \<Rightarrow>
      (case u_UnmarshalJSON ua jsonBytes of
        Inl e \<Rightarrow> Some (Inl (DecodeManifest e), w)
      | Inr obj \<Rightarrow>
      (case u_GroupVersionKind ua obj of (gvkGroup, _, kind) \<Rightarrow>
      let name = u_GetName ua obj in
      if kind = [] then Some (Inl ManifestMissingKind, w)
      else if name = [] then Some (Inl ManifestMissingName, w)
      else
      let grp = (if gvkGroup = [] \<and> u_GetAPIVersion ua obj = [] then CRDAPIGroup (srv_cfg s) else gvkGroup) in
      (case srv_dyn s of
        None \<Rightarrow> Some (Inl NoDynamicClient, w)
      | Some d \<Rightarrow>
      (case ResolveGVR d grp kind of
        Inl e \<Rightarrow> Some (Inl (Resolve e), w)
      | Inr (g, namespaced) \<Rightarrow>
      let applyOpts = \<lparr>ao_FieldManager = FieldManager (srv_cfg s), ao_Force = aq_Force req,
            ao_DryRunAll = aq_DryRun req\<rparr>;
          ns = (if namespaced
                then Some (if u_GetNamespace ua obj = [] then ''default'' else u_GetNamespace ua obj) else None)
      in (case dc_Apply d g ns name obj applyOpts (w_cluster w) of
        (Inl e, c) \<Rightarrow>
          map_option (\<lambda>w'. (Inl (ApplyResource kind name e), w'))
            (audit_publish (audit_record ''ResourceApply''
               (''apply '' @ kind @ '' '' @ Quote (unicode_table cd) name @ '' failed: '' @ ee_msg e)
               kind name (u_GetNamespace ua obj)) (w\<lparr>w_cluster := c\<rparr>))
      | (Inr applied, c) \<Rightarrow>
          map_option
            (\<lambda>w'. (Inr \<lparr>ar_Cluster = clusterRef s, ar_Kind = kind, ar_ApiGroup = grp,
                ar_Namespace = u_GetNamespace ua applied, ar_Name = u_GetName ua applied,
                ar_Namespaced = namespaced, ar_DryRun = aq_DryRun req, ar_Uid = u_GetUID ua applied,
                ar_ResourceVersion = u_GetResourceVersion ua applied,
                ar_Generation = u_GetGeneration ua applied\<rparr>, w'))
            (audit_publish (audit_record ''ResourceApply''
               (''applied '' @ kind @ '' '' @ Quote (unicode_table cd) name @ '' (dryRun='' @
                  show_bool (aq_DryRun req) @ '', gen='' @ show_int (sint (u_GetGeneration ua applied)) @ '')'')
               kind (u_GetName ua applied) (u_GetNamespace ua applied)) (w\<lparr>w_cluster := c\<rparr>))))))))"

section \<open>Deleting\<close>

definition ResourceDelete ::
  "codec \<Rightarrow> 'c Service \<Rightarrow> ResourceDeleteRequest \<Rightarrow> 'c world \<Rightarrow>
     ((svc_error + ResourceDeleteResponse) \<times> 'c world) option" where
  "ResourceDelete cd s req w =
     (if dq_Name req = [] then Some (Inl NameRequired, w)
      else case resolveKind s (dq_ApiGroup req) (dq_Kind req) of
        Inl e \<Rightarrow> Some (Inl e, w)
      | Inr (d, g, namespaced) \<Rightarrow>
      let what = dq_Kind req @ '' '' @ Quote (unicode_table cd) (dq_Name req);
          record_event = (\<lambda>msg. audit_record ''ResourceDelete'' msg (dq_Kind req) (dq_Name req) (dq_Namespace req));
          resp = (\<lambda>status. \<lparr>dr_Cluster = clusterRef s, dr_Kind = dq_Kind req, dr_Name = dq_Name req,
                    dr_Status = status\<rparr>)
      in (case dc_Delete d g (if namespaced then Some (dq_Namespace req) else None) (dq_Name req) (w_cluster w) of
        (Some e, c) \<Rightarrow>
          if ee_not_found e then
            map_option (\<lambda>w'. (Inr (resp ''notFound''), w'))
              (audit_publish (record_event (what @ '' already absent'')) (w\<lparr>w_cluster := c\<rparr>))
          else
            map_option (\<lambda>w'. (Inl (DeleteResource (dq_Kind req) (dq_Name req) e), w'))
              (audit_publish (record_event (''delete '' @ what @ '' failed: '' @ ee_msg e)) (w\<lparr>w_cluster := c\<rparr>))
      | (None, c) \<Rightarrow>
          map_option (\<lambda>w'. (Inr (resp ''deleted''), w'))
            (audit_publish (record_event (''deleted '' @ what)) (w\<lparr>w_cluster := c\<rparr>))))"

section \<open>Schemas\<close>

definition crdGVR :: gvr where
  "crdGVR = \<lparr>g_Group = ''apiextensions.k8s.io'', g_Version = ''v1'', g_Resource = ''customresourcedefinitions''\<rparr>"

definition nested_string :: "unstructured_api \<Rightarrow> json \<Rightarrow> string list \<Rightarrow> string" where
  "nested_string ua obj path = (case u_NestedString ua obj path of Some v \<Rightarrow> v | None \<Rightarrow> [])"

text \<open>The schema of one version, when it has one, and whether it is the storage version.\<close>

definition version_schema :: "json \<Rightarrow> json option" where
  "version_schema v =
     (case struct_field ''schema'' v of
        Some sch \<Rightarrow> (case struct_field ''openAPIV3Schema'' sch of Some (JObj f) \<Rightarrow> Some (JObj f) | _ \<Rightarrow> None)
      | None \<Rightarrow> None)"

definition is_storage :: "json \<Rightarrow> bool" where
  "is_storage v \<longleftrightarrow> struct_field ''storage'' v = Some (JBool True)"

fun pick_version :: "(json \<times> string) option \<Rightarrow> json list \<Rightarrow> (json \<times> string) option" where
  "pick_version acc [] = acc"
| "pick_version acc (v # vs) =
     pick_version
       (case version_schema v of
          Some openapi \<Rightarrow>
            if acc = None \<or> is_storage v then Some (openapi, struct_string ''name'' v) else acc
        | None \<Rightarrow> acc) vs"

fun schema_loop ::
  "codec \<Rightarrow> unstructured_api \<Rightarrow> 'c Service \<Rightarrow> string \<Rightarrow> string \<Rightarrow> json list \<Rightarrow> svc_error + ResourceSchemaResponse" where
  "schema_loop cd ua s grp kind [] = Inl (CRDNotFound grp kind)"
| "schema_loop cd ua s grp kind (crd # crds) =
     (if nested_string ua crd [''spec'', ''group''] \<noteq> grp \<or>
         nested_string ua crd [''spec'', ''names'', ''kind''] \<noteq> kind
      then schema_loop cd ua s grp kind crds
      else
        let versions = (case u_NestedSlice ua crd [''spec'', ''versions''] of Some vs \<Rightarrow> vs | None \<Rightarrow> [])
        in (case pick_version None versions of
              None \<Rightarrow> Inl (NoOpenAPISchema grp kind)
            | Some (pickSchema, pickedVersion) \<Rightarrow>
                (case toStruct cd pickSchema of
                   Inl e \<Rightarrow> Inl (ConvertSchema e)
                 | Inr st \<Rightarrow>
                     Inr \<lparr>sr_Cluster = clusterRef s, sr_Group = grp, sr_Kind = kind,
                       sr_StorageVersion = pickedVersion, sr_OpenapiV3Schema = st\<rparr>)))"

definition ResourceSchema ::
  "codec \<Rightarrow> unstructured_api \<Rightarrow> 'c Service \<Rightarrow> ResourceSchemaRequest \<Rightarrow> 'c world \<Rightarrow>
     svc_error + ResourceSchemaResponse" where
  "ResourceSchema cd ua s req w =
     (if sq_Kind req = [] then Inl KindRequired
      else case srv_dyn s of
        None \<Rightarrow> Inl NoDynamicClient
      | Some d \<Rightarrow>
          let grp = (if sq_ApiGroup req = [] then CRDAPIGroup (srv_cfg s) else sq_ApiGroup req)
          in (case dc_List d crdGVR None [] (w_cluster w) of
                Inl e \<Rightarrow> Inl (ListCRDs e)
              | Inr crds \<Rightarrow> schema_loop cd ua s grp (sq_Kind req) crds))"

section \<open>Batches\<close>

definition parseManifestHeader :: "codec \<Rightarrow> unstructured_api \<Rightarrow> string \<Rightarrow> string \<times> string \<times> string" where
  "parseManifestHeader cd ua manifest =
     (case yaml_YAMLToJSON cd manifest of
        Inl e \<Rightarrow> ([], [], [])
      | Inr jsonBytes \<Rightarrow>
          (case u_UnmarshalJSON ua jsonBytes of
             Inl e \<Rightarrow> ([], [], [])
           | Inr obj \<Rightarrow> (u_GetKind ua obj, u_GetNamespace ua obj, u_GetName ua obj)))"

definition batch_result ::
  "codec \<Rightarrow> unstructured_api \<Rightarrow> string \<Rightarrow> bool \<Rightarrow> svc_error + ResourceApplyResponse \<Rightarrow> BatchApplyResult" where
  "batch_result cd ua manifest dryRun r =
     (case r of
        Inl err \<Rightarrow>
          (case parseManifestHeader cd ua manifest of (kind, ns, name) \<Rightarrow>
             \<lparr>bi_Kind = kind, bi_ApiGroup = [], bi_Namespace = ns, bi_Name = name, bi_Status = ''error'',
              bi_Error = error_text cd err, bi_Uid = [], bi_ResourceVersion = [], bi_Generation = 0,
              bi_DryRun = dryRun\<rparr>)
      | Inr a \<Rightarrow>
          \<lparr>bi_Kind = ar_Kind a, bi_ApiGroup = ar_ApiGroup a, bi_Namespace = ar_Namespace a, bi_Name = ar_Name a,
           bi_Status = ''applied'', bi_Error = [], bi_Uid = ar_Uid a, bi_ResourceVersion = ar_ResourceVersion a,
           bi_Generation = ar_Generation a, bi_DryRun = ar_DryRun a\<rparr>)"

fun batch_loop ::
  "codec \<Rightarrow> unstructured_api \<Rightarrow> 'c Service \<Rightarrow> bool \<Rightarrow> bool \<Rightarrow> BatchApplyItem list \<Rightarrow>
     BatchApplyResponse \<Rightarrow> 'c world \<Rightarrow> (BatchApplyResponse \<times> 'c world) option" where
  "batch_loop cd ua s allDry allForce [] resp w = Some (resp, w)"
| "batch_loop cd ua s allDry allForce (item # items) resp w =
     (let dryRun = (allDry \<or> bq_DryRun item); force = (allForce \<or> bq_Force item)
      in (case ResourceApply cd ua s
                 \<lparr>aq_Manifest = bq_Manifest item, aq_DryRun = dryRun, aq_Force = force\<rparr> w of
            None \<Rightarrow> None
          | Some (r, w') \<Rightarrow>
              batch_loop cd ua s allDry allForce items
                (resp\<lparr>br_Items := br_Items resp @ [batch_result cd ua (bq_Manifest item) dryRun r],
                      br_Applied := br_Applied resp + (if isl r then 0 else 1),
                      br_Errors := br_Errors resp + (if isl r then 1 else 0)\<rparr>) w'))"

definition BatchApply ::
  "codec \<Rightarrow> unstructured_api \<Rightarrow> 'c Service \<Rightarrow> BatchApplyRequest \<Rightarrow> 'c world \<Rightarrow>
     (BatchApplyResponse \<times> 'c world) option" where
  "BatchApply cd ua s req w =
     batch_loop cd ua s (bq_AllDryRun req) (bq_AllForce req) (bq_Items req)
       \<lparr>br_Cluster = clusterRef s, br_Items = [], br_Applied = 0, br_Errors = 0\<rparr> w"

section \<open>Lemmas\<close>

lemma pick_version_eq:
  "pick_version acc vs =
     (let cs = filter (\<lambda>v. version_schema v \<noteq> None) vs; ret = (\<lambda>v. Some (the (version_schema v), struct_string ''name'' v))
      in case filter is_storage cs of
           [] \<Rightarrow> (case acc of Some a \<Rightarrow> Some a | None \<Rightarrow> (case cs of [] \<Rightarrow> None | c # _ \<Rightarrow> ret c))
         | sts \<Rightarrow> ret (last sts))"
proof (induction vs arbitrary: acc)
  case (Cons v vs)
  show ?case
    by (cases "version_schema v"; cases "is_storage v"; cases acc)
       (simp_all add: Cons.IH Let_def split: list.splits option.splits)
qed (simp split: option.splits)

lemma pick_version_None:
  "pick_version None vs =
     (if filter (\<lambda>v. version_schema v \<noteq> None) vs = [] then None else
      let v = (if filter is_storage (filter (\<lambda>v. version_schema v \<noteq> None) vs) \<noteq> []
               then last (filter is_storage (filter (\<lambda>v. version_schema v \<noteq> None) vs))
               else hd (filter (\<lambda>v. version_schema v \<noteq> None) vs))
      in Some (the (version_schema v), struct_string ''name'' v))"
proof -
  have *: "(case filter is_storage cs of [] \<Rightarrow> (case cs of [] \<Rightarrow> None | c # _ \<Rightarrow> f c) | sts \<Rightarrow> f (last sts)) =
      (if cs = [] then None else f (if filter is_storage cs \<noteq> [] then last (filter is_storage cs) else hd cs))"
    for cs and f :: "json \<Rightarrow> (json \<times> string) option"
    by (cases cs) (simp_all split: list.splits)
  show ?thesis unfolding pick_version_eq Let_def option.case by (rule *)
qed

lemma schema_loop_eq:
  "schema_loop cd ua s grp kind crds =
     (case find (\<lambda>crd. nested_string ua crd [''spec'', ''group''] = grp \<and>
              nested_string ua crd [''spec'', ''names'', ''kind''] = kind) crds of
        None \<Rightarrow> Inl (CRDNotFound grp kind)
      | Some crd \<Rightarrow> schema_loop cd ua s grp kind [crd])"
  by (induction crds) (auto simp: Let_def)

lemma schema_loop_one:
  assumes "nested_string ua crd [''spec'', ''group''] = grp" "nested_string ua crd [''spec'', ''names'', ''kind''] = kind"
  shows "schema_loop cd ua s grp kind [crd] =
    (let versions = (case u_NestedSlice ua crd [''spec'', ''versions''] of Some vs \<Rightarrow> vs | None \<Rightarrow> []);
         with_schema = filter (\<lambda>v. version_schema v \<noteq> None) versions;
         stored = filter is_storage with_schema
     in if with_schema = [] then Inl (NoOpenAPISchema grp kind)
        else let v = (if stored \<noteq> [] then last stored else hd with_schema) in
          map_sum ConvertSchema
            (\<lambda>st. \<lparr>sr_Cluster = clusterRef s, sr_Group = grp, sr_Kind = kind,
               sr_StorageVersion = struct_string ''name'' v, sr_OpenapiV3Schema = st\<rparr>)
            (toStruct cd (the (version_schema v))))"
proof -
  have *: "(case (if P then None else Some (x, y)) of None \<Rightarrow> Inl e
      | Some (sch, ver) \<Rightarrow> (case t sch of Inl e \<Rightarrow> Inl (ConvertSchema e) | Inr st \<Rightarrow> Inr (f ver st))) =
      (if P then Inl e else map_sum ConvertSchema (f y) (t x))"
    for P e t and f :: "string \<Rightarrow> json \<Rightarrow> ResourceSchemaResponse" and x :: json and y
    by (cases "t x") simp_all
  show ?thesis
    using assms by (simp only: schema_loop.simps pick_version_None Let_def * simp_thms if_False)
qed

lemma convert_items_Inr:
  "convert_items cd ua i objs = Inr items \<longleftrightarrow>
     list_all2 (\<lambda>obj st. toStruct cd (summarizeResource ua obj) = Inr st) objs items"
proof (induction objs arbitrary: i items)
  case (Cons obj objs)
  show ?case
  proof (cases "toStruct cd (summarizeResource ua obj)")
    case (Inr st)
    show ?thesis
    proof (cases items)
      case (Cons it its)
      then show ?thesis using Inr Cons.IH [of "Suc i" its]
        by (cases "convert_items cd ua (Suc i) objs") auto
    qed (use Inr in \<open>cases "convert_items cd ua (Suc i) objs"; simp\<close>)
  qed (cases items; simp)
qed auto

lemma convert_items_Inl:
  "convert_items cd ua i objs = Inl e \<longleftrightarrow>
     (\<exists>pre obj post err items. objs = pre @ obj # post \<and>
        list_all2 (\<lambda>obj st. toStruct cd (summarizeResource ua obj) = Inr st) pre items \<and>
        toStruct cd (summarizeResource ua obj) = Inl err \<and> e = ConvertItem (i + length pre) err)"
  (is "_ \<longleftrightarrow> ?R i objs")
proof (induction objs arbitrary: i)
  case (Cons obj objs)
  show ?case
  proof (cases "toStruct cd (summarizeResource ua obj)")
    case (Inl err)
    show ?thesis
    proof
      assume "convert_items cd ua i (obj # objs) = Inl e"
      with Inl show "?R i (obj # objs)" by (intro exI [of _ "[]"] exI) auto
    next
      assume "?R i (obj # objs)"
      then show "convert_items cd ua i (obj # objs) = Inl e"
        using Inl by (auto simp: Cons_eq_append_conv list_all2_Cons1)
    qed
  next
    case (Inr st)
    have "convert_items cd ua i (obj # objs) = Inl e \<longleftrightarrow> convert_items cd ua (Suc i) objs = Inl e"
      using Inr by (cases "convert_items cd ua (Suc i) objs") simp_all
    also have "\<dots> \<longleftrightarrow> ?R (Suc i) objs" by (rule Cons.IH)
    also have "\<dots> \<longleftrightarrow> ?R i (obj # objs)"
    proof
      assume "?R (Suc i) objs"
      then obtain pre o' post err items where "objs = pre @ o' # post"
        "list_all2 (\<lambda>obj st. toStruct cd (summarizeResource ua obj) = Inr st) pre items"
        "toStruct cd (summarizeResource ua o') = Inl err" "e = ConvertItem (Suc i + length pre) err" by blast
      then show "?R i (obj # objs)"
        using Inr by (intro exI [of _ "obj # pre"] exI [of _ o'] exI [of _ post] exI [of _ err] exI [of _ "st # items"]) simp
    next
      assume "?R i (obj # objs)"
      then obtain pre o' post err items where *: "obj # objs = pre @ o' # post"
        "list_all2 (\<lambda>obj st. toStruct cd (summarizeResource ua obj) = Inr st) pre items"
        "toStruct cd (summarizeResource ua o') = Inl err" "e = ConvertItem (i + length pre) err" by blast
      then obtain pre' where "pre = obj # pre'" using Inr by (cases pre) auto
      with * show "?R (Suc i) objs" by (auto simp: list_all2_Cons1)
    qed
    finally show ?thesis .
  qed
qed simp

text \<open>Whether a call to apply got as far as the apiserver.\<close>

fun apply_reached :: "svc_error + 'a \<Rightarrow> bool" where
  "apply_reached (Inl (ApplyResource _ _ _)) = True"
| "apply_reached (Inl _) = False"
| "apply_reached (Inr _) = True"

text \<open>The event that goes with an outcome of apply.\<close>

fun apply_event_ok :: "svc_error + ResourceApplyResponse \<Rightarrow> AuditEvent \<Rightarrow> bool" where
  "apply_event_ok (Inl (ApplyResource kind name e)) ev =
     (ae_InvolvedKind ev = kind \<and> ae_InvolvedName ev = name \<and> HasPrefix (ae_Message ev) (''apply '' @ kind))"
| "apply_event_ok (Inl _) ev = False"
| "apply_event_ok (Inr a) ev =
     (ae_InvolvedKind ev = ar_Kind a \<and> ae_InvolvedName ev = ar_Name a \<and>
      ae_InvolvedNamespace ev = ar_Namespace a \<and> HasPrefix (ae_Message ev) (''applied '' @ ar_Kind a))"

lemma HasPrefix_append [simp]: "HasPrefix (p @ t) p"
  by (simp add: HasPrefix_iff)

text \<open>
  A call to apply in two halves: the target its manifest names, or why it is rejected, and what is
  reported and recorded once the apiserver has answered.
\<close>

record 'c apply_target =
  tg_Dyn :: "'c dyn_client"
  tg_Gvr :: gvr
  tg_Namespaced :: bool
  tg_Group :: string
  tg_Kind :: string
  tg_Ns :: "string option"
  tg_Name :: string
  tg_Obj :: json

definition apply_target ::
  "codec \<Rightarrow> unstructured_api \<Rightarrow> 'c Service \<Rightarrow> string \<Rightarrow> svc_error + 'c apply_target" where
  "apply_target cd ua s manifest =
     (if manifest = [] then Inl ManifestRequired
      else case map_sum ParseManifest id (yaml_YAMLToJSON cd manifest) of
        Inl e \<Rightarrow> Inl e
      | Inr bytes \<Rightarrow>
      (case map_sum DecodeManifest id (u_UnmarshalJSON ua bytes) of
        Inl e \<Rightarrow> Inl e
      | Inr obj \<Rightarrow>
      (case u_GroupVersionKind ua obj of (gvkGroup, _, kind) \<Rightarrow>
       let name = u_GetName ua obj;
           grp = (if gvkGroup = [] \<and> u_GetAPIVersion ua obj = [] then CRDAPIGroup (srv_cfg s) else gvkGroup)
       in if kind = [] then Inl ManifestMissingKind
          else if name = [] then Inl ManifestMissingName
          else (case srv_dyn s of
            None \<Rightarrow> Inl NoDynamicClient
          | Some d \<Rightarrow> map_sum Resolve (\<lambda>(g, namespaced).
              \<lparr>tg_Dyn = d, tg_Gvr = g, tg_Namespaced = namespaced, tg_Group = grp, tg_Kind = kind,
               tg_Ns = (if namespaced
                 then Some (if u_GetNamespace ua obj = [] then ''default'' else u_GetNamespace ua obj) else None),
               tg_Name = name, tg_Obj = obj\<rparr>) (ResolveGVR d grp kind)))))"

definition apply_options :: "'c Service \<Rightarrow> ResourceApplyRequest \<Rightarrow> ApplyOptions" where
  "apply_options s req =
     \<lparr>ao_FieldManager = FieldManager (srv_cfg s), ao_Force = aq_Force req, ao_DryRunAll = aq_DryRun req\<rparr>"

definition apply_outcome ::
  "unstructured_api \<Rightarrow> 'c Service \<Rightarrow> bool \<Rightarrow> 'c apply_target \<Rightarrow> ext_err + json \<Rightarrow> svc_error + ResourceApplyResponse" where
  "apply_outcome ua s dry t = map_sum (ApplyResource (tg_Kind t) (tg_Name t))
     (\<lambda>applied. \<lparr>ar_Cluster = clusterRef s, ar_Kind = tg_Kind t, ar_ApiGroup = tg_Group t,
        ar_Namespace = u_GetNamespace ua applied, ar_Name = u_GetName ua applied,
        ar_Namespaced = tg_Namespaced t, ar_DryRun = dry, ar_Uid = u_GetUID ua applied,
        ar_ResourceVersion = u_GetResourceVersion ua applied, ar_Generation = u_GetGeneration ua applied\<rparr>)"

definition apply_event ::
  "codec \<Rightarrow> unstructured_api \<Rightarrow> bool \<Rightarrow> 'c apply_target \<Rightarrow> ext_err + json \<Rightarrow> AuditEvent" where
  "apply_event cd ua dry t answer =
     (let what = tg_Kind t @ '' '' @ Quote (unicode_table cd) (tg_Name t) in
      case answer of
        Inl e \<Rightarrow> audit_record ''ResourceApply'' (''apply '' @ what @ '' failed: '' @ ee_msg e)
          (tg_Kind t) (tg_Name t) (u_GetNamespace ua (tg_Obj t))
      | Inr applied \<Rightarrow> audit_record ''ResourceApply''
          (''applied '' @ what @ '' (dryRun='' @ show_bool dry @ '', gen='' @
             show_int (sint (u_GetGeneration ua applied)) @ '')'')
          (tg_Kind t) (u_GetName ua applied) (u_GetNamespace ua applied))"

lemma map_sum_eq:
  "map_sum f g x = Inl y \<longleftrightarrow> (\<exists>a. x = Inl a \<and> y = f a)" "map_sum f g x = Inr z \<longleftrightarrow> (\<exists>b. x = Inr b \<and> z = g b)"
  by (cases x; auto)+

lemma ResourceApply_eq:
  "ResourceApply cd ua s req w =
     (case apply_target cd ua s (aq_Manifest req) of
        Inl e \<Rightarrow> Some (Inl e, w)
      | Inr t \<Rightarrow>
          (case dc_Apply (tg_Dyn t) (tg_Gvr t) (tg_Ns t) (tg_Name t) (tg_Obj t) (apply_options s req) (w_cluster w) of
             (answer, c) \<Rightarrow> map_option (Pair (apply_outcome ua s (aq_DryRun req) t answer))
               (audit_publish (apply_event cd ua (aq_DryRun req) t answer) (w\<lparr>w_cluster := c\<rparr>))))"
proof (cases "aq_Manifest req = [] \<or> isl (yaml_YAMLToJSON cd (aq_Manifest req)) \<or>
    isl (u_UnmarshalJSON ua (projr (yaml_YAMLToJSON cd (aq_Manifest req))))")
  case True
  then show ?thesis
    by (cases "yaml_YAMLToJSON cd (aq_Manifest req)"; cases "u_UnmarshalJSON ua (projr (yaml_YAMLToJSON cd (aq_Manifest req)))")
      (auto simp: ResourceApply_def apply_target_def)
next
  case False
  then obtain bytes obj where obj: "aq_Manifest req \<noteq> []" "yaml_YAMLToJSON cd (aq_Manifest req) = Inr bytes"
    "u_UnmarshalJSON ua bytes = Inr obj" by (metis sum.collapse(2))
  obtain gr ver kind where gvk: "u_GroupVersionKind ua obj = (gr, ver, kind)" by (cases "u_GroupVersionKind ua obj")
  note start = ResourceApply_def apply_target_def obj gvk Let_def
  show ?thesis
  proof (cases "kind = [] \<or> u_GetName ua obj = [] \<or> srv_dyn s = None")
    case True
    then show ?thesis by (cases "kind = []"; cases "u_GetName ua obj = []") (simp_all add: start)
  next
    case False
    then obtain d where d: "kind \<noteq> []" "u_GetName ua obj \<noteq> []" "srv_dyn s = Some d" by auto
    show ?thesis
    proof (cases "ResolveGVR d (if gr = [] \<and> u_GetAPIVersion ua obj = [] then CRDAPIGroup (srv_cfg s) else gr) kind")
      case (Inr m)
      then show ?thesis
        by (cases m) (auto simp: start d apply_options_def apply_outcome_def apply_event_def
            cong: map_option_cong split: prod.split sum.split)
    qed (simp add: start d)
  qed
qed

lemma apply_target_error: "apply_target cd ua s m = Inl e \<Longrightarrow> \<not> apply_reached (Inl e :: svc_error + 'a)"
  by (auto simp: apply_target_def map_sum_eq Let_def split: sum.splits option.splits prod.splits if_splits)

lemma apply_target_dyn:
  assumes "apply_target cd ua s m = Inr t"
  shows "srv_dyn s = Some (tg_Dyn t)" "ResolveGVR (tg_Dyn t) (tg_Group t) (tg_Kind t) = Inr (tg_Gvr t, tg_Namespaced t)"
    "tg_Kind t \<noteq> []" "tg_Name t \<noteq> []" "(tg_Ns t = None) = (\<not> tg_Namespaced t)" "tg_Ns t \<noteq> Some []"
  using assms
  by (auto simp: apply_target_def map_sum_eq Let_def split: sum.splits option.splits prod.splits if_splits)

lemma apply_outcome_facts:
  "apply_reached (apply_outcome ua s dry t answer)" "isl (apply_outcome ua s dry t answer) = isl answer"
  "apply_outcome ua s dry t answer = Inr a \<Longrightarrow> ar_Cluster a = clusterRef s \<and> ar_DryRun a = dry"
  by (cases answer; auto simp: apply_outcome_def)+

lemma apply_event_facts:
  "ae_Reason (apply_event cd ua dry t answer) = ''ResourceApply''"
  "apply_event_ok (apply_outcome ua s dry t answer) (apply_event cd ua dry t answer)"
  by (cases answer; auto simp: apply_outcome_def apply_event_def audit_record_def HasPrefix_iff Let_def)+

lemma ResourceApply_cases:
  assumes "broker_inv (w_audit w)"
  obtains (rejected) e where "apply_target cd ua s (aq_Manifest req) = Inl e"
    "ResourceApply cd ua s req w = Some (Inl e, w)" "\<not> apply_reached (Inl e :: svc_error + ResourceApplyResponse)"
  | (reached) t answer w' where "apply_target cd ua s (aq_Manifest req) = Inr t"
    "dc_Apply (tg_Dyn t) (tg_Gvr t) (tg_Ns t) (tg_Name t) (tg_Obj t) (apply_options s req) (w_cluster w)
      = (answer, w_cluster w')"
    "ResourceApply cd ua s req w = Some (apply_outcome ua s (aq_DryRun req) t answer, w')"
    "audited (apply_event cd ua (aq_DryRun req) t answer) w w'"
proof (cases "apply_target cd ua s (aq_Manifest req)")
  case (Inl e)
  then show thesis using rejected [OF Inl] apply_target_error [OF Inl] by (simp add: ResourceApply_eq)
next
  case (Inr t)
  obtain answer c where call: "dc_Apply (tg_Dyn t) (tg_Gvr t) (tg_Ns t) (tg_Name t) (tg_Obj t) (apply_options s req)
      (w_cluster w) = (answer, c)" by fastforce
  obtain w' where "audit_publish (apply_event cd ua (aq_DryRun req) t answer) (w\<lparr>w_cluster := c\<rparr>) = Some w'"
    "w_cluster w' = c" "audited (apply_event cd ua (aq_DryRun req) t answer) w w'"
    using audit_publish_audited [OF assms] by blast
  with call show thesis by (intro reached [OF Inr, of answer w']) (simp_all add: ResourceApply_eq Inr)
qed

lemma stamped_event_ok: "ae_Reason (stamp now ev) = ae_Reason ev" "apply_event_ok r (stamp now ev) = apply_event_ok r ev"
  by (cases r; (cases "projl r")?; auto simp: stamp_def)+

text \<open>What a run of applies does: the results in order, the world threaded through.\<close>

fun apply_seq ::
  "codec \<Rightarrow> unstructured_api \<Rightarrow> 'c Service \<Rightarrow> ResourceApplyRequest list \<Rightarrow> 'c world \<Rightarrow>
     ((svc_error + ResourceApplyResponse) list \<times> 'c world) option" where
  "apply_seq cd ua s [] w = Some ([], w)"
| "apply_seq cd ua s (q # qs) w =
     (case ResourceApply cd ua s q w of
        None \<Rightarrow> None
      | Some (r, w') \<Rightarrow> map_option (\<lambda>(rs, w''). (r # rs, w'')) (apply_seq cd ua s qs w'))"

definition batch_item_request :: "bool \<Rightarrow> bool \<Rightarrow> BatchApplyItem \<Rightarrow> ResourceApplyRequest" where
  "batch_item_request allDry allForce item =
     \<lparr>aq_Manifest = bq_Manifest item, aq_DryRun = allDry \<or> bq_DryRun item, aq_Force = allForce \<or> bq_Force item\<rparr>"

lemma batch_loop_eq:
  "batch_loop cd ua s allDry allForce items resp w =
     map_option (\<lambda>(rs, w').
       (resp\<lparr>br_Items := br_Items resp @
               map2 (\<lambda>item r. batch_result cd ua (bq_Manifest item) (allDry \<or> bq_DryRun item) r) items rs,
             br_Applied := br_Applied resp + of_nat (length (filter is_ok rs)),
             br_Errors := br_Errors resp + of_nat (length (filter isl rs))\<rparr>, w'))
       (apply_seq cd ua s (map (batch_item_request allDry allForce) items) w)"
proof (induction items arbitrary: resp w)
  case (Cons item items)
  show ?case
  proof (cases "ResourceApply cd ua s (batch_item_request allDry allForce item) w")
    case None
    then show ?thesis by (simp add: batch_item_request_def Let_def)
  next
    case (Some rw)
    obtain r w' where rw: "rw = (r, w')" by fastforce
    with Some have call: "ResourceApply cd ua s (batch_item_request allDry allForce item) w = Some (r, w')" by simp
    then have step: "batch_loop cd ua s allDry allForce (item # items) resp w =
        batch_loop cd ua s allDry allForce items
          (resp\<lparr>br_Items := br_Items resp @ [batch_result cd ua (bq_Manifest item) (allDry \<or> bq_DryRun item) r],
                br_Applied := br_Applied resp + (if isl r then 0 else 1),
                br_Errors := br_Errors resp + (if isl r then 1 else 0)\<rparr>) w'"
      by (simp add: batch_item_request_def Let_def)
    show ?thesis
      unfolding step Cons.IH
      by (cases "apply_seq cd ua s (map (batch_item_request allDry allForce) items) w'")
         (simp_all add: call split: prod.splits)
  qed
qed simp

lemma apply_seq_total:
  "broker_inv (w_audit w) \<Longrightarrow>
     \<exists>rs w'. apply_seq cd ua s qs w = Some (rs, w') \<and> length rs = length qs \<and> broker_inv (w_audit w')"
proof (induction qs arbitrary: w)
  case (Cons q qs)
  obtain r w1 where 1: "ResourceApply cd ua s q w = Some (r, w1)" "broker_inv (w_audit w1)"
    by (rule ResourceApply_cases [OF Cons.prems, of cd ua s q]) (use Cons.prems in \<open>auto simp: audited_def\<close>)
  with Cons.IH [OF 1(2)] show ?case by fastforce
qed simp

text \<open>A subscriber with room for all of them has, after a run, one event per apply that was reached.\<close>

lemma apply_seq_audit:
  assumes "broker_inv (w_audit w)" and "apply_seq cd ua s qs w = Some (rs, w')"
    and "sub \<in> set (b_subs (w_audit w))" and "length (filter apply_reached rs) \<le> space (w_audit w) sub"
  shows "\<exists>evs. pending (w_audit w') sub = pending (w_audit w) sub @ evs \<and>
     list_all2 (\<lambda>r e. apply_event_ok r e \<and> ae_Reason e = ''ResourceApply'') (filter apply_reached rs) evs"
  using assms
proof (induction qs arbitrary: w rs)
  case (Cons q qs)
  obtain r w1 rs' where 1: "ResourceApply cd ua s q w = Some (r, w1)" "apply_seq cd ua s qs w1 = Some (rs', w')"
    "rs = r # rs'"
    using Cons.prems(2) by (auto split: option.splits prod.splits)
  show ?case
  proof (rule ResourceApply_cases [OF Cons.prems(1), of cd ua s q])
    fix e assume rej: "ResourceApply cd ua s q w = Some (Inl e, w)" "\<not> apply_reached (Inl e :: svc_error + ResourceApplyResponse)"
    then have w1: "w1 = w" and n: "\<not> apply_reached r" using 1 by simp_all
    have "\<exists>evs. pending (w_audit w') sub = pending (w_audit w) sub @ evs \<and>
       list_all2 (\<lambda>r e. apply_event_ok r e \<and> ae_Reason e = ''ResourceApply'') (filter apply_reached rs') evs"
      using Cons.IH [OF Cons.prems(1) 1(2) [unfolded w1] Cons.prems(3)] Cons.prems(4) n by (simp add: 1(3))
    then show ?thesis by (simp add: 1(3) n)
  next
    fix t answer w2
    let ?out = "apply_outcome ua s (aq_DryRun q) t answer" and ?rec = "apply_event cd ua (aq_DryRun q) t answer"
    assume got: "ResourceApply cd ua s q w = Some (?out, w2)" "audited ?rec w w2"
    then have w2: "w2 = w1" "?out = r" using 1 by simp_all
    note facts = apply_outcome_facts [of ua s "aq_DryRun q" t answer, unfolded w2]
    have room: "0 < space (w_audit w) sub" using Cons.prems(4) facts by (simp add: 1(3))
    let ?ev = "stamp (w_now w) ?rec"
    have p1: "pending (w_audit w1) sub = pending (w_audit w) sub @ [?ev]"
      "ch_cap (b_chans (w_audit w1) sub) = ch_cap (b_chans (w_audit w) sub)"
      "broker_inv (w_audit w1)" "sub \<in> set (b_subs (w_audit w1))"
      using got(2) room Cons.prems(3) by (simp_all add: audited_def w2)
    have "length (filter apply_reached rs') \<le> space (w_audit w1) sub"
      using Cons.prems(4) facts p1(1,2) by (simp add: 1(3))
    from Cons.IH [OF p1(3) 1(2) p1(4) this] obtain evs where evs:
      "pending (w_audit w') sub = pending (w_audit w1) sub @ evs"
      "list_all2 (\<lambda>r e. apply_event_ok r e \<and> ae_Reason e = ''ResourceApply'') (filter apply_reached rs') evs"
      by blast
    have "apply_event_ok r ?ev \<and> ae_Reason ?ev = ''ResourceApply''"
      using apply_event_facts(1) [of cd ua "aq_DryRun q" t answer]
        apply_event_facts(2) [of ua s "aq_DryRun q" t answer cd] by (simp add: stamped_event_ok w2)
    then show ?thesis
      using evs p1(1) facts by (intro exI [of _ "?ev # evs"]) (simp add: 1(3))
  qed
qed simp

text \<open>Dry runs: if the apiserver keeps its cluster under a dry run, so does a run of dry applies.\<close>

lemma ResourceApply_dry:
  assumes "broker_inv (w_audit w)" and "ResourceApply cd ua s q w = Some (r, w')" and "aq_DryRun q"
    and "\<And>d g ns name obj opts c. srv_dyn s = Some d \<Longrightarrow> ao_DryRunAll opts \<Longrightarrow> snd (dc_Apply d g ns name obj opts c) = c"
  shows "w_cluster w' = w_cluster w"
proof (rule ResourceApply_cases [OF assms(1), of cd ua s q])
  fix t answer w2
  assume t: "apply_target cd ua s (aq_Manifest q) = Inr t" and call:
    "dc_Apply (tg_Dyn t) (tg_Gvr t) (tg_Ns t) (tg_Name t) (tg_Obj t) (apply_options s q) (w_cluster w) = (answer, w_cluster w2)"
    and "ResourceApply cd ua s q w = Some (apply_outcome ua s (aq_DryRun q) t answer, w2)"
  then have "w_cluster w' = snd (dc_Apply (tg_Dyn t) (tg_Gvr t) (tg_Ns t) (tg_Name t) (tg_Obj t) (apply_options s q) (w_cluster w))"
    using assms(2) by simp
  then show ?thesis using assms(3) by (simp add: assms(4) apply_target_dyn [OF t] apply_options_def)
qed (use assms(2) in simp)

text \<open>What a call to delete reports and records, by the answer of the apiserver.\<close>

fun delete_outcome :: "ext_err option \<Rightarrow> string \<Rightarrow> string \<Rightarrow> svc_error + ResourceDeleteResponse \<Rightarrow> bool" where
  "delete_outcome None kind name r = (\<exists>a. r = Inr a \<and> dr_Status a = ''deleted'' \<and> dr_Name a = name)"
| "delete_outcome (Some e) kind name r =
     (if ee_not_found e then \<exists>a. r = Inr a \<and> dr_Status a = ''notFound'' \<and> dr_Name a = name
      else r = Inl (DeleteResource kind name e))"

lemma batch_result_fields:
  "bi_Status (batch_result cd ua m dry r) = (if isl r then ''error'' else ''applied'')"
  "bi_Error (batch_result cd ua m dry r) = (case r of Inl e \<Rightarrow> error_text cd e | Inr _ \<Rightarrow> [])"
  by (simp_all add: batch_result_def split: sum.splits prod.splits)

lemma ResourceDelete_cases:
  assumes "broker_inv (w_audit w)"
  obtains (rejected) e where "dq_Name req = [] \<or> resolveKind s (dq_ApiGroup req) (dq_Kind req) = Inl e"
    "ResourceDelete cd s req w = Some (Inl e, w)"
  | (reached) d g namespaced answer r w' ev where
    "dq_Name req \<noteq> []" "resolveKind s (dq_ApiGroup req) (dq_Kind req) = Inr (d, g, namespaced)"
    "dc_Delete d g (if namespaced then Some (dq_Namespace req) else None) (dq_Name req) (w_cluster w) = (answer, w_cluster w')"
    "ResourceDelete cd s req w = Some (r, w')" "delete_outcome answer (dq_Kind req) (dq_Name req) r"
    "ae_Reason ev = ''ResourceDelete''" "ae_InvolvedKind ev = dq_Kind req" "ae_InvolvedName ev = dq_Name req"
    "ae_InvolvedNamespace ev = dq_Namespace req" "audited ev w w'"
proof (cases "dq_Name req = [] \<or> isl (resolveKind s (dq_ApiGroup req) (dq_Kind req))")
  case True
  then show thesis
    using rejected by (cases "dq_Name req = []"; cases "resolveKind s (dq_ApiGroup req) (dq_Kind req)")
      (simp_all add: ResourceDelete_def)
next
  case False
  then obtain d g namespaced where k: "dq_Name req \<noteq> []" "resolveKind s (dq_ApiGroup req) (dq_Kind req) = Inr (d, g, namespaced)"
    by (cases "resolveKind s (dq_ApiGroup req) (dq_Kind req)") auto
  obtain answer c where call: "dc_Delete d g (if namespaced then Some (dq_Namespace req) else None) (dq_Name req)
      (w_cluster w) = (answer, c)" by fastforce
  have "\<exists>msg r. ResourceDelete cd s req w = map_option (Pair r) (audit_publish (audit_record ''ResourceDelete'' msg
      (dq_Kind req) (dq_Name req) (dq_Namespace req)) (w\<lparr>w_cluster := c\<rparr>)) \<and>
      delete_outcome answer (dq_Kind req) (dq_Name req) r"
    using k call
    by (auto simp: ResourceDelete_def Let_def cong: map_option_cong split: option.split)
      (intro exI conjI, rule refl, rule refl, simp, simp)+
  then obtain msg r where *: "ResourceDelete cd s req w = map_option (Pair r) (audit_publish
      (audit_record ''ResourceDelete'' msg (dq_Kind req) (dq_Name req) (dq_Namespace req)) (w\<lparr>w_cluster := c\<rparr>))"
    "delete_outcome answer (dq_Kind req) (dq_Name req) r" by blast
  obtain w' where "audit_publish (audit_record ''ResourceDelete'' msg (dq_Kind req) (dq_Name req) (dq_Namespace req))
      (w\<lparr>w_cluster := c\<rparr>) = Some w'" "w_cluster w' = c"
    "audited (audit_record ''ResourceDelete'' msg (dq_Kind req) (dq_Name req) (dq_Namespace req)) w w'"
    using audit_publish_audited [OF assms] by blast
  with * call show thesis by (intro reached [OF k, of answer w' r]) (simp_all add: audit_record_def)
qed

lemma BatchApply_total:
  "broker_inv (w_audit w) \<Longrightarrow> \<exists>resp w'. BatchApply cd ua s req w = Some (resp, w')"
  using apply_seq_total [of w cd ua s "map (batch_item_request (bq_AllDryRun req) (bq_AllForce req)) (bq_Items req)"]
  by (auto simp: BatchApply_def batch_loop_eq)

section \<open>Properties\<close>

text \<open>
  C1. Apply never panics. A request that fails validation changes nothing and leaves no trace; a
  request that reaches the apiserver, whether it then succeeds or fails, publishes exactly one audit
  event, which names the object of the response or of the error, and its response echoes the dry-run
  flag under the site's identity.
\<close>

theorem ResourceApply_effects:
  assumes "broker_inv (w_audit w)"
  shows "\<exists>r w'. ResourceApply cd ua s req w = Some (r, w') \<and>
    (if apply_reached r
     then (\<exists>ev. ae_Reason ev = ''ResourceApply'' \<and> apply_event_ok r ev \<and> audited ev w w') \<and>
       (\<forall>a. r = Inr a \<longrightarrow> ar_Cluster a = clusterRef s \<and> ar_DryRun a = aq_DryRun req)
     else isl r \<and> w' = w)"
proof (rule ResourceApply_cases [OF assms, of cd ua s req])
  fix t answer w'
  assume "ResourceApply cd ua s req w = Some (apply_outcome ua s (aq_DryRun req) t answer, w')"
    "audited (apply_event cd ua (aq_DryRun req) t answer) w w'"
  then show ?thesis using apply_outcome_facts apply_event_facts by fastforce
qed simp

text \<open>
  C11. A batch applies every item, in order, each as its own apply with the batch's flags or-ed into the
  item's: a failing item stops nothing. There is one result per item, a status of applied or error
  with an error text exactly for the latter, and the two counters count them.
\<close>

theorem BatchApply_spec:
  assumes "broker_inv (w_audit w)"
  shows "\<exists>resp rs w'. BatchApply cd ua s req w = Some (resp, w') \<and>
    apply_seq cd ua s (map (batch_item_request (bq_AllDryRun req) (bq_AllForce req)) (bq_Items req)) w
      = Some (rs, w') \<and>
    length (br_Items resp) = length (bq_Items req) \<and>
    (\<forall>i < length rs. bi_Status (br_Items resp ! i) = (if isl (rs ! i) then ''error'' else ''applied'') \<and>
       bi_Error (br_Items resp ! i) = (case rs ! i of Inl e \<Rightarrow> error_text cd e | Inr _ \<Rightarrow> [])) \<and>
    br_Applied resp = of_nat (length (filter is_ok rs)) \<and>
    br_Applied resp + br_Errors resp = i32_len (bq_Items req)"
proof -
  let ?qs = "map (batch_item_request (bq_AllDryRun req) (bq_AllForce req)) (bq_Items req)"
  obtain rs w' where rs: "apply_seq cd ua s ?qs w = Some (rs, w')" "length rs = length (bq_Items req)"
    using apply_seq_total [OF assms, of cd ua s ?qs] by auto
  have "length (filter is_ok rs) + length (filter isl rs) = length rs"
    using sum_length_filter_compl [of isl rs] by simp
  then have n: "of_nat (length (filter is_ok rs)) + of_nat (length (filter isl rs)) = (i32_len (bq_Items req))"
    unfolding i32_len_def rs(2) [symmetric] by (metis of_nat_add)
  let ?item = "\<lambda>item r. batch_result cd ua (bq_Manifest item) (bq_AllDryRun req \<or> bq_DryRun item) r"
  let ?resp = "\<lparr>br_Cluster = clusterRef s, br_Items = map2 ?item (bq_Items req) rs,
      br_Applied = of_nat (length (filter is_ok rs)), br_Errors = of_nat (length (filter isl rs))\<rparr>"
  have "BatchApply cd ua s req w = Some (?resp, w')"
    by (simp add: BatchApply_def batch_loop_eq rs(1))
  then show ?thesis
    using rs n by (intro exI [of _ ?resp] exI [of _ rs] exI [of _ w']) (simp add: batch_result_fields)
qed

text \<open>
  A subscriber with room for them has, after a batch, one audit event for every item that reached
  the apiserver, in the order of the items, and no other.
\<close>

theorem BatchApply_audit:
  assumes "broker_inv (w_audit w)" and "sub \<in> set (b_subs (w_audit w))"
    and "length (bq_Items req) \<le> space (w_audit w) sub"
  shows "\<exists>resp rs w' evs. BatchApply cd ua s req w = Some (resp, w') \<and>
    apply_seq cd ua s (map (batch_item_request (bq_AllDryRun req) (bq_AllForce req)) (bq_Items req)) w
      = Some (rs, w') \<and>
    pending (w_audit w') sub = pending (w_audit w) sub @ evs \<and>
    list_all2 (\<lambda>r e. apply_event_ok r e \<and> ae_Reason e = ''ResourceApply'') (filter apply_reached rs) evs"
proof -
  let ?qs = "map (batch_item_request (bq_AllDryRun req) (bq_AllForce req)) (bq_Items req)"
  obtain rs w' where rs: "apply_seq cd ua s ?qs w = Some (rs, w')" "length rs = length (bq_Items req)"
    using apply_seq_total [OF assms(1), of cd ua s ?qs] by auto
  have "length (filter apply_reached rs) \<le> space (w_audit w) sub"
    using assms(3) rs(2) length_filter_le [of apply_reached rs] by linarith
  from apply_seq_audit [OF assms(1) rs(1) assms(2) this] rs(1) show ?thesis
    by (simp add: BatchApply_def batch_loop_eq)
qed

text \<open>
  C21. Under an apiserver that persists nothing on a dry run (its documented behaviour), a batch with
  the dry-run flag set leaves the cluster as it was, whatever flags its items carry.
\<close>

theorem BatchApply_dry_run:
  assumes "broker_inv (w_audit w)" and "bq_AllDryRun req"
    and "\<And>d g ns name obj opts c. srv_dyn s = Some d \<Longrightarrow> ao_DryRunAll opts \<Longrightarrow>
      snd (dc_Apply d g ns name obj opts c) = c"
    and "BatchApply cd ua s req w = Some (resp, w')"
  shows "w_cluster w' = w_cluster w"
proof -
  have "w_cluster w'' = w_cluster v" if "broker_inv (w_audit v)" "\<forall>q \<in> set qs. aq_DryRun q"
    "apply_seq cd ua s qs v = Some (rs, w'')" for qs v rs w''
    using that
  proof (induction qs arbitrary: v rs)
    case (Cons q qs)
    obtain r v1 rs' where 1: "ResourceApply cd ua s q v = Some (r, v1)" "apply_seq cd ua s qs v1 = Some (rs', w'')"
      using Cons.prems(3) by (auto split: option.splits prod.splits)
    have "broker_inv (w_audit v1)"
      by (rule ResourceApply_cases [OF Cons.prems(1), of cd ua s q]) (use 1(1) Cons.prems(1) in \<open>auto simp: audited_def\<close>)
    moreover have "w_cluster v1 = w_cluster v"
      using ResourceApply_dry [OF Cons.prems(1) 1(1)] Cons.prems(2) assms(3) by simp
    ultimately show ?case using Cons.IH [OF _ _ 1(2)] Cons.prems(2) by simp
  qed simp
  moreover have "\<forall>q \<in> set (map (batch_item_request (bq_AllDryRun req) (bq_AllForce req)) (bq_Items req)). aq_DryRun q"
    using assms(2) by (simp add: batch_item_request_def)
  moreover obtain rs where
    "apply_seq cd ua s (map (batch_item_request (bq_AllDryRun req) (bq_AllForce req)) (bq_Items req)) w = Some (rs, w')"
    using assms(4) by (auto simp: BatchApply_def batch_loop_eq)
  ultimately show ?thesis using assms(1) by blast
qed

text \<open>
  C18. Delete never panics; once its arguments resolve it asks the apiserver exactly once and publishes
  exactly one audit event. An object that is already gone is the status \<open>notFound\<close> and no error; any
  other failure is the error.
\<close>

theorem ResourceDelete_effects:
  assumes "broker_inv (w_audit w)" and "dq_Name req \<noteq> []"
    and "resolveKind s (dq_ApiGroup req) (dq_Kind req) = Inr (d, g, namespaced)"
    and "dc_Delete d g (if namespaced then Some (dq_Namespace req) else None) (dq_Name req) (w_cluster w) = (answer, c)"
  shows "\<exists>r w'. ResourceDelete cd s req w = Some (r, w') \<and> w_cluster w' = c \<and>
    delete_outcome answer (dq_Kind req) (dq_Name req) r \<and>
    (\<exists>ev. ae_Reason ev = ''ResourceDelete'' \<and> audited ev w w')"
  by (rule ResourceDelete_cases [OF assms(1), of req s cd]) (use assms(2-4) in auto)

text \<open>
  C30. A list response holds the converted summary of every object the apiserver listed, once each, in
  ascending order of the names in them, and its count is their number; a failed conversion is
  reported for the first object that fails.
\<close>

theorem ResourceList_spec:
  assumes "slice_sort srt" and "resolveKind s (lq_ApiGroup req) (lq_Kind req) = Inr (d, g, namespaced)"
    and "dc_List d g (if namespaced then Some (lq_Namespace req) else None) (lq_LabelSelector req) (w_cluster w)
      = Inr objs"
  shows "case ResourceList cd ua srt s req w of
      Inr resp \<Rightarrow>
        (\<exists>items. list_all2 (\<lambda>obj st. toStruct cd (summarizeResource ua obj) = Inr st) objs items \<and>
           mset (lr_Items resp) = mset items) \<and>
        sorted (map (struct_string ''name'') (lr_Items resp)) \<and>
        lr_Count resp = i32_len objs \<and> lr_Cluster resp = clusterRef s \<and> lr_Namespaced resp = namespaced
    | Inl e \<Rightarrow> \<exists>i < length objs. \<exists>err. e = ConvertItem i err \<and>
        toStruct cd (summarizeResource ua (objs ! i)) = Inl err \<and>
        (\<forall>j < i. is_ok (toStruct cd (summarizeResource ua (objs ! j))))"
proof (cases "convert_items cd ua 0 objs")
  case (Inl e)
  then obtain pre obj post err items where *: "objs = pre @ obj # post"
    "list_all2 (\<lambda>obj st. toStruct cd (summarizeResource ua obj) = Inr st) pre items"
    "toStruct cd (summarizeResource ua obj) = Inl err" "e = ConvertItem (length pre) err"
    by (auto simp: convert_items_Inl)
  have "is_ok (toStruct cd (summarizeResource ua (objs ! j)))" if "j < length pre" for j
    using that list_all2_nthD [OF *(2), of j] *(1) by (simp add: nth_append)
  then show ?thesis using assms(2,3) Inl * by (auto simp: ResourceList_def)
next
  case (Inr items)
  let ?sorted = "srt (\<lambda>x y. struct_string ''name'' x < struct_string ''name'' y) items"
  have "list_all2 (\<lambda>obj st. toStruct cd (summarizeResource ua obj) = Inr st) objs items"
    using Inr by (simp add: convert_items_Inr)
  moreover from this have "length ?sorted = length objs"
    by (simp add: slice_sort.length_srt [OF assms(1)] list_all2_lengthD)
  moreover have "mset ?sorted = mset items" by (rule slice_sort.srt_perm [OF assms(1)])
  moreover have "sorted (map (struct_string ''name'') ?sorted)"
    by (rule slice_sort.sorted_srt_key [OF assms(1)])
  ultimately show ?thesis
    using assms(2,3) Inr by (auto simp: ResourceList_def Let_def i32_len_def)
qed

text \<open>
  C25. The schema returned is that of the first CRD with the requested group and kind: of its storage
  version when that has a schema, of the first version with one otherwise; without any, and without
  such a CRD, the call is an error.
\<close>

theorem ResourceSchema_spec:
  assumes "sq_Kind req \<noteq> []" and "srv_dyn s = Some d" and "dc_List d crdGVR None [] (w_cluster w) = Inr crds"
  shows "ResourceSchema cd ua s req w =
    (let grp = firstNonEmpty (sq_ApiGroup req) (CRDAPIGroup (srv_cfg s)) in
     case find (\<lambda>crd. nested_string ua crd [''spec'', ''group''] = grp \<and>
         nested_string ua crd [''spec'', ''names'', ''kind''] = sq_Kind req) crds of
       None \<Rightarrow> Inl (CRDNotFound grp (sq_Kind req))
     | Some crd \<Rightarrow>
         let versions = (case u_NestedSlice ua crd [''spec'', ''versions''] of Some vs \<Rightarrow> vs | None \<Rightarrow> []);
             with_schema = filter (\<lambda>v. version_schema v \<noteq> None) versions;
             stored = filter is_storage with_schema
         in if with_schema = [] then Inl (NoOpenAPISchema grp (sq_Kind req))
            else let v = (if stored \<noteq> [] then last stored else hd with_schema) in
              map_sum ConvertSchema
                (\<lambda>st. \<lparr>sr_Cluster = clusterRef s, sr_Group = grp, sr_Kind = sq_Kind req,
                   sr_StorageVersion = struct_string ''name'' v, sr_OpenapiV3Schema = st\<rparr>)
                (toStruct cd (the (version_schema v))))"
proof -
  let ?grp = "firstNonEmpty (sq_ApiGroup req) (CRDAPIGroup (srv_cfg s))"
  have call: "ResourceSchema cd ua s req w = schema_loop cd ua s ?grp (sq_Kind req) crds"
    using assms by (simp add: ResourceSchema_def firstNonEmpty_def)
  show ?thesis
    unfolding call schema_loop_eq [of _ _ _ _ _ crds] Let_def
    by (rule option.case_cong) (auto simp: find_Some_iff schema_loop_one Let_def simp del: schema_loop.simps)
qed

section \<open>Witnesses\<close>

definition ex_apply :: "string \<Rightarrow> bool \<Rightarrow> ResourceApplyRequest" where
  "ex_apply m dry = \<lparr>aq_Manifest = m, aq_DryRun = dry, aq_Force = False\<rparr>"

definition ex_batch :: "bool \<Rightarrow> BatchApplyRequest" where
  "ex_batch dry = \<lparr>bq_Items = map (\<lambda>m. \<lparr>bq_Manifest = m, bq_DryRun = False, bq_Force = False\<rparr>) [''a'', ''?'', ''b''],
     bq_AllDryRun = dry, bq_AllForce = False\<rparr>"

definition ex_delete :: ResourceDeleteRequest where
  "ex_delete = \<lparr>dq_Kind = ''Rule'', dq_ApiGroup = [], dq_Namespace = ''t'', dq_Name = ''a''\<rparr>"

lemma ex_apply_run:
  fixes w :: "ex_cluster world"
  assumes "srv_dyn svc = Some ex_dyn" and "broker_inv (w_audit w)" and "w_cluster w = []"
  obtains a w' where "ResourceApply ex_codec_of ex_unstructured svc (ex_apply ''a'' False) w = Some (Inr a, w')"
    "w_cluster w' = [(''a'', ex_obj ''a'')]"
proof -
  obtain a ev where run: "ResourceApply ex_codec_of ex_unstructured svc (ex_apply ''a'' False) w =
      map_option (Pair (Inr a)) (audit_publish ev (w\<lparr>w_cluster := [(''a'', ex_obj ''a'')]\<rparr>))"
    using assms(1,3) by (simp add: ResourceApply_def ex_apply_def ex_codec_of_def ex_unstructured_def ex_dyn_def
        ResolveGVR_def struct_string_def struct_field_def ex_obj_def Let_def)
  moreover obtain w' where "audit_publish ev (w\<lparr>w_cluster := [(''a'', ex_obj ''a'')]\<rparr>) = Some w'"
    "w_cluster w' = [(''a'', ex_obj ''a'')]"
    using audit_publish_audited [OF assms(2)] by blast
  ultimately show thesis using that by simp
qed

lemma ResourceApply_effects_witness:
  "\<exists>r w'. ResourceApply ex_codec_of ex_unstructured (ex_svc None) (ex_apply ''a'' False) (ex_world []) = Some (r, w') \<and>
     is_ok r \<and> w_cluster w' = [(''a'', ex_obj ''a'')] \<and> (\<exists>ev. ae_Reason ev = ''ResourceApply'' \<and> audited ev (ex_world []) w')"
proof -
  obtain a w' where "ResourceApply ex_codec_of ex_unstructured (ex_svc None) (ex_apply ''a'' False) (ex_world []) =
      Some (Inr a, w')" "w_cluster w' = [(''a'', ex_obj ''a'')]"
    by (rule ex_apply_run [OF _ ex_world_inv, of "ex_svc None" "[]"]) (simp_all add: ex_svc_def ex_world_def)
  then show ?thesis
    using ResourceApply_effects [OF ex_world_inv, of ex_codec_of ex_unstructured "ex_svc None" "ex_apply ''a'' False" "[]"]
    by auto
qed

lemma BatchApply_spec_witness:
  "\<exists>resp w'. BatchApply ex_codec_of ex_unstructured (ex_svc None) (ex_batch False) (ex_world []) = Some (resp, w') \<and>
     length (br_Items resp) = 3 \<and> br_Applied resp + br_Errors resp = 3"
  using BatchApply_spec [OF ex_world_inv, of ex_codec_of ex_unstructured "ex_svc None" "ex_batch False" "[]"]
  by (auto simp: ex_batch_def i32_len_def)

lemma BatchApply_audit_witness:
  "\<exists>resp rs w' evs. BatchApply ex_codec_of ex_unstructured (ex_svc None) (ex_batch False) (ex_world []) = Some (resp, w') \<and>
     pending (w_audit w') 0 = evs \<and>
     list_all2 (\<lambda>r e. apply_event_ok r e \<and> ae_Reason e = ''ResourceApply'') (filter apply_reached rs) evs"
proof -
  have "0 \<in> set (b_subs (w_audit (ex_world [])))" "pending (w_audit (ex_world [])) 0 = []"
    "length (bq_Items (ex_batch False)) \<le> space (w_audit (ex_world [])) 0"
    by (simp_all add: ex_world_def Subscribe_def New_def make_chan_def defaultBufSize_def ex_batch_def)
  with BatchApply_audit [OF ex_world_inv, of 0 "[]" "ex_batch False" ex_codec_of ex_unstructured "ex_svc None"]
  show ?thesis by auto
qed

lemma BatchApply_dry_run_witness:
  "\<exists>resp w'. BatchApply ex_codec_of ex_unstructured (ex_svc None) (ex_batch True) (ex_world []) = Some (resp, w') \<and>
     w_cluster w' = []"
proof -
  obtain resp w' where run:
    "BatchApply ex_codec_of ex_unstructured (ex_svc None) (ex_batch True) (ex_world []) = Some (resp, w')"
    using BatchApply_total [OF ex_world_inv] by blast
  have "snd (dc_Apply d g ns name obj opts c) = c" if "srv_dyn (ex_svc None) = Some d" "ao_DryRunAll opts"
    for d g ns name obj opts c
    using that by (auto simp: ex_svc_def ex_dyn_def)
  with BatchApply_dry_run [OF ex_world_inv, of "ex_batch True" "ex_svc None" ex_codec_of ex_unstructured "[]" resp w'] run
  show ?thesis by (auto simp: ex_batch_def ex_world_def)
qed

lemma ResourceDelete_effects_witness:
  "\<exists>r w'. ResourceDelete ex_codec_of (ex_svc None) ex_delete (ex_world []) = Some (r, w') \<and> w_cluster w' = [] \<and>
     (\<exists>a. r = Inr a \<and> dr_Status a = ''notFound'')"
proof -
  have "resolveKind (ex_svc None) (dq_ApiGroup ex_delete) (dq_Kind ex_delete) =
      Inr (ex_dyn, \<lparr>g_Group = ''g'', g_Version = ''v1'', g_Resource = ''rules''\<rparr>, True)"
    by (simp add: resolveKind_Inr ex_svc_def ex_delete_def ex_dyn_def firstNonEmpty_def ex_config_def)
  moreover have "dc_Delete ex_dyn g ns n [] = (Some (ex_err True), [])" for g ns n
    by (simp add: ex_dyn_def)
  ultimately show ?thesis
    using ResourceDelete_effects [OF ex_world_inv, of ex_delete "ex_svc None" ex_dyn _ True "[]" "Some (ex_err True)" "[]" ex_codec_of]
    by (auto simp: ex_delete_def ex_world_def ex_err_def)
qed

lemma ResourceList_spec_witness:
  "case ResourceList ex_codec_of ex_unstructured sort_by (ex_svc None)
       \<lparr>lq_Kind = ''Rule'', lq_ApiGroup = ''g'', lq_Namespace = ''t'', lq_LabelSelector = []\<rparr>
       (ex_world [(''b'', ex_obj ''b''), (''a'', ex_obj ''a'')]) of
     Inr resp \<Rightarrow> sorted (map (struct_string ''name'') (lr_Items resp)) \<and> lr_Count resp = 2 | Inl e \<Rightarrow> False"
proof -
  let ?req = "\<lparr>lq_Kind = ''Rule'', lq_ApiGroup = ''g'', lq_Namespace = ''t'', lq_LabelSelector = []\<rparr>"
  let ?w = "ex_world [(''b'', ex_obj ''b''), (''a'', ex_obj ''a'')]"
  have k: "resolveKind (ex_svc None) ''g'' ''Rule'' =
      Inr (ex_dyn, \<lparr>g_Group = ''g'', g_Version = ''v1'', g_Resource = ''rules''\<rparr>, True)"
    by (simp add: resolveKind_Inr ex_svc_def ex_dyn_def firstNonEmpty_def)
  have l: "dc_List ex_dyn g ns sel (w_cluster ?w) = Inr [ex_obj ''b'', ex_obj ''a'']" for g ns sel
    by (simp add: ex_dyn_def ex_world_def)
  have "is_ok (ResourceList ex_codec_of ex_unstructured sort_by (ex_svc None) ?req ?w)"
    by (simp add: ResourceList_def k l toStruct_def ex_codec_of_def Let_def)
  with k l show ?thesis
    using ResourceList_spec [OF isort.slice_sort_axioms, of "ex_svc None" ?req ex_dyn _ True ?w
        "[ex_obj ''b'', ex_obj ''a'']" ex_codec_of ex_unstructured]
    by (auto simp: i32_len_def split: sum.splits)
qed

definition ex_versions :: unstructured_api where
  "ex_versions = ex_unstructured\<lparr>u_NestedString := (\<lambda>_ p. Some (if p = [''spec'', ''group''] then ''g'' else ''Rule'')),
     u_NestedSlice := (\<lambda>_ _. Some (map (\<lambda>(n, b). JObj [(''name'', JStr n), (''storage'', JBool b),
        (''schema'', JObj [(''openAPIV3Schema'', JObj [(''name'', JStr (n @ ''-schema''))])])])
        [(''v1'', False), (''v2'', True), (''v3'', False)]))\<rparr>"

lemma ResourceSchema_spec_witness:
  "ResourceSchema ex_codec_of ex_versions (ex_svc None) \<lparr>sq_Kind = ''Rule'', sq_ApiGroup = ''g''\<rparr>
     (ex_world [(''crd'', JNull)]) =
   Inr \<lparr>sr_Cluster = clusterRef (ex_svc None), sr_Group = ''g'', sr_Kind = ''Rule'', sr_StorageVersion = ''v2'',
     sr_OpenapiV3Schema = ex_obj ''v2-schema''\<rparr>"
  using ResourceSchema_spec [of "\<lparr>sq_Kind = ''Rule'', sq_ApiGroup = ''g''\<rparr>" "ex_svc None" ex_dyn
      "ex_world [(''crd'', JNull)]" "[JNull]" ex_codec_of ex_versions]
  by (simp add: ex_svc_def ex_dyn_def ex_world_def ex_versions_def nested_string_def firstNonEmpty_def Let_def
      version_schema_def is_storage_def struct_field_def struct_string_def toStruct_def ex_codec_of_def)

end
