(* ===== verification/Store.thy ===== *)
theory Store
  imports Resources
begin

text \<open>
  The cluster as the calls on resources see it, abstractly: a store that maps the resource type, the
  namespace and the name of an object to the object. An apiserver is lawful for such a view when its
  answers are about the store and a write touches no object but the one it names. Over a lawful
  apiserver the calls that write refine the store with its audit log: every run of them is a run of
  single-object updates, one for each event it publishes. The server is taken to be the only writer. An
  apiserver may serve one object under several types, in particular in several versions.
\<close>

section \<open>The abstract store\<close>

type_synonym object_key = "gvr \<times> string option \<times> string"
type_synonym store = "object_key \<rightharpoonup> json"

text \<open>
  The store shows an object under every type that serves it: in each of its versions, and in each group, if
  there are more. \<open>home\<close> maps a type to the one its objects are persisted under, so two keys mean one
  object when the homes of their types, the namespaces and the names agree.
\<close>

definition same_object :: "(gvr \<Rightarrow> gvr) \<Rightarrow> object_key \<Rightarrow> object_key \<Rightarrow> bool" where
  "same_object home k k' \<longleftrightarrow> home (fst k) = home (fst k') \<and> snd k = snd k'"

definition only_at :: "(gvr \<Rightarrow> gvr) \<Rightarrow> object_key \<Rightarrow> store \<Rightarrow> store \<Rightarrow> bool" where
  "only_at home k M M' \<longleftrightarrow> (\<forall>k'. \<not> same_object home k k' \<longrightarrow> M' k' = M k')"

text \<open>
  The documented behaviour of the apiserver: a get returns what is stored, as the type asked for shows it,
  \<open>NotFound\<close> means that nothing is; an apply answers with the object as stored under the name and
  namespace of the call, a dry run stores nothing; nothing of a namespaced type is stored under the empty
  namespace; and no write, not even one that fails, changes another object.
\<close>

definition apiserver_ok :: "unstructured_api \<Rightarrow> 'c dyn_client \<Rightarrow> (gvr \<Rightarrow> gvr) \<Rightarrow> ('c \<Rightarrow> store) \<Rightarrow> bool" where
  "apiserver_ok ua d home view \<longleftrightarrow>
     (\<forall>g ns n c. (\<forall>obj. dc_Get d g ns n c = Inr obj \<longrightarrow> view c (g, ns, n) = Some obj) \<and>
        (\<forall>e. dc_Get d g ns n c = Inl e \<longrightarrow> ee_not_found e \<longrightarrow> view c (g, ns, n) = None)) \<and>
     (\<forall>g ns n obj opts c answer c'. dc_Apply d g ns n obj opts c = (answer, c') \<longrightarrow>
        only_at home (g, ns, n) (view c) (view c') \<and> (ao_DryRunAll opts \<longrightarrow> view c' = view c) \<and>
        (\<forall>applied. answer = Inr applied \<longrightarrow>
           u_GetName ua applied = n \<and> u_GetNamespace ua applied = (case ns of None \<Rightarrow> [] | Some ns \<Rightarrow> ns) \<and>
           (\<not> ao_DryRunAll opts \<longrightarrow> view c' (g, ns, n) = Some applied))) \<and>
     (\<forall>g ns n c answer c'. dc_Delete d g ns n c = (answer, c') \<longrightarrow> only_at home (g, ns, n) (view c) (view c')) \<and>
     (\<forall>g n c. view c (g, Some [], n) = None)"

text \<open>
  The object an audit event names: its kind resolves to the type (the event carries no group), its name is
  that of the object, and so is its namespace for a namespaced type, where an apply that fails leaves the
  namespace \<open>default\<close> empty. The namespace of an event on a type without namespaces means nothing.
\<close>

definition event_ns :: "bool \<Rightarrow> AuditEvent \<Rightarrow> string option" where
  "event_ns namespaced ev =
     (if \<not> namespaced then None
      else if ae_Reason ev = ''ResourceApply'' \<and> ae_InvolvedNamespace ev = [] then Some ''default''
      else Some (ae_InvolvedNamespace ev))"

definition event_object :: "'c dyn_client \<Rightarrow> AuditEvent \<Rightarrow> object_key \<Rightarrow> bool" where
  "event_object d ev k \<longleftrightarrow>
     (\<exists>grp g namespaced. ResolveGVR d grp (ae_InvolvedKind ev) = Inr (g, namespaced) \<and>
        k = (g, event_ns namespaced ev, ae_InvolvedName ev))"

text \<open>One audited update: the store changes at most at the object the event names. A run has the events in its order.\<close>

definition store_step :: "'c dyn_client \<Rightarrow> (gvr \<Rightarrow> gvr) \<Rightarrow> AuditEvent \<Rightarrow> store \<Rightarrow> store \<Rightarrow> bool" where
  "store_step d home ev M M' \<longleftrightarrow> (\<exists>k. event_object d ev k \<and> only_at home k M M')"

inductive store_run :: "'c dyn_client \<Rightarrow> (gvr \<Rightarrow> gvr) \<Rightarrow> AuditEvent list \<Rightarrow> store \<Rightarrow> store \<Rightarrow> bool" for d home where
  store_run_Nil: "store_run d home [] M M"
| store_run_Cons: "store_step d home ev M M1 \<Longrightarrow> store_run d home evs M1 M' \<Longrightarrow> store_run d home (ev # evs) M M'"

inductive_cases store_run_ConsE: "store_run d home (ev # evs) M M'"

lemma store_run_append: "store_run d home evs M M1 \<Longrightarrow> store_run d home evs' M1 M' \<Longrightarrow> store_run d home (evs @ evs') M M'"
  by (induction rule: store_run.induct) (auto intro: store_run.intros)

lemma store_run_single: "store_step d home ev M M' \<Longrightarrow> store_run d home [ev] M M'"
  by (auto intro: store_run.intros)

text \<open>What no event of a run names has not changed.\<close>

lemma store_run_unnamed:
  assumes "store_run d home evs M M'" and "M' k \<noteq> M k"
  shows "\<exists>ev \<in> set evs. \<exists>k'. event_object d ev k' \<and> same_object home k' k"
  using assms
proof (induction rule: store_run.induct)
  case (store_run_Cons ev M M1 evs M')
  show ?case
  proof (cases "M1 k = M k")
    case False
    with store_run_Cons.hyps(1) obtain k' where "event_object d ev k'" "same_object home k' k"
      unfolding store_step_def only_at_def by blast
    then show ?thesis by (intro bexI [of _ ev] exI [of _ k']) simp_all
  qed (use store_run_Cons in auto)
qed simp

section \<open>Runs of calls that write\<close>

datatype write_call =
    WriteApply ResourceApplyRequest
  | WriteDelete ResourceDeleteRequest
  | WriteBatch BatchApplyRequest

definition write_step ::
  "codec \<Rightarrow> unstructured_api \<Rightarrow> 'c Service \<Rightarrow> write_call \<Rightarrow> 'c world \<Rightarrow> 'c world option" where
  "write_step cd ua s call w =
     (case call of
        WriteApply req \<Rightarrow> map_option snd (ResourceApply cd ua s req w)
      | WriteDelete req \<Rightarrow> map_option snd (ResourceDelete cd s req w)
      | WriteBatch req \<Rightarrow> map_option snd (BatchApply cd ua s req w))"

fun write_run ::
  "codec \<Rightarrow> unstructured_api \<Rightarrow> 'c Service \<Rightarrow> write_call list \<Rightarrow> 'c world \<Rightarrow> 'c world option" where
  "write_run cd ua s [] w = Some w"
| "write_run cd ua s (call # calls) w = Option.bind (write_step cd ua s call w) (write_run cd ua s calls)"

text \<open>An upper bound of the events a call publishes.\<close>

fun write_events :: "write_call \<Rightarrow> nat" where
  "write_events (WriteBatch req) = length (bq_Items req)"
| "write_events _ = 1"

text \<open>
  The simulation relation of a call: at most \<open>n\<close> events, that a subscriber with room for \<open>n\<close> gets at the
  end of its queue, and a run of the store with just these.
\<close>

definition simulates :: "'c dyn_client \<Rightarrow> (gvr \<Rightarrow> gvr) \<Rightarrow> ('c \<Rightarrow> store) \<Rightarrow> nat \<Rightarrow> 'c world \<Rightarrow> 'c world \<Rightarrow> bool" where
  "simulates d home view n w w' \<longleftrightarrow> broker_inv (w_audit w') \<and> b_subs (w_audit w') = b_subs (w_audit w) \<and>
     (\<exists>evs. length evs \<le> n \<and> store_run d home evs (view (w_cluster w)) (view (w_cluster w')) \<and>
       (\<forall>sub \<in> set (b_subs (w_audit w)). n \<le> space (w_audit w) sub \<longrightarrow>
          pending (w_audit w') sub = pending (w_audit w) sub @ evs) \<and>
       (\<forall>sub. ch_cap (b_chans (w_audit w') sub) = ch_cap (b_chans (w_audit w) sub)))"

lemma simulates_refl: "broker_inv (w_audit w) \<Longrightarrow> simulates d home view n w w"
  using store_run_Nil by (force simp: simulates_def)

lemma simulates_trans:
  assumes "simulates d home view n w w1" and "simulates d home view m w1 w2"
  shows "simulates d home view (n + m) w w2"
proof -
  obtain evs where 1: "length evs \<le> n" "store_run d home evs (view (w_cluster w)) (view (w_cluster w1))"
    "\<And>sub. sub \<in> set (b_subs (w_audit w)) \<Longrightarrow> n \<le> space (w_audit w) sub \<Longrightarrow>
       pending (w_audit w1) sub = pending (w_audit w) sub @ evs"
    "\<And>sub. ch_cap (b_chans (w_audit w1) sub) = ch_cap (b_chans (w_audit w) sub)" "b_subs (w_audit w1) = b_subs (w_audit w)"
    using assms(1) by (auto simp: simulates_def)
  obtain evs' where 2: "length evs' \<le> m" "store_run d home evs' (view (w_cluster w1)) (view (w_cluster w2))"
    "\<And>sub. sub \<in> set (b_subs (w_audit w1)) \<Longrightarrow> m \<le> space (w_audit w1) sub \<Longrightarrow>
       pending (w_audit w2) sub = pending (w_audit w1) sub @ evs'"
    "\<And>sub. ch_cap (b_chans (w_audit w2) sub) = ch_cap (b_chans (w_audit w1) sub)" "b_subs (w_audit w2) = b_subs (w_audit w1)"
    using assms(2) by (auto simp: simulates_def)
  have "pending (w_audit w2) sub = pending (w_audit w) sub @ evs @ evs'"
    if "sub \<in> set (b_subs (w_audit w))" "n + m \<le> space (w_audit w) sub" for sub
  proof -
    have p: "pending (w_audit w1) sub = pending (w_audit w) sub @ evs" using 1(3) that by simp
    then have "m \<le> space (w_audit w1) sub" using that(2) 1(1,4) by simp
    with p show ?thesis using 2(3) that(1) 1(5) by simp
  qed
  then show ?thesis
    using assms(2) 1 2 store_run_append [OF 1(2) 2(2)]
    unfolding simulates_def by (intro conjI exI [of _ "evs @ evs'"]) simp_all
qed

text \<open>A call that publishes one event, over a cluster that changed at most at the object it names.\<close>

lemma event_objectI:
  "ResolveGVR d grp (ae_InvolvedKind ev) = Inr (g, namespaced) \<Longrightarrow>
     event_object d ev (g, event_ns namespaced ev, ae_InvolvedName ev)"
  by (auto simp: event_object_def)

lemma event_object_stamp: "event_object d (stamp now ev) k = event_object d ev k"
proof -
  have "event_ns namespaced (stamp now ev) = event_ns namespaced ev" for namespaced
    by (simp add: event_ns_def stamp_def)
  moreover have "ae_InvolvedKind (stamp now ev) = ae_InvolvedKind ev" "ae_InvolvedName (stamp now ev) = ae_InvolvedName ev"
    by (simp_all add: stamp_def)
  ultimately show ?thesis by (simp add: event_object_def)
qed

lemma simulates_one:
  assumes "audited ev w w'" and "event_object d ev k" and "only_at home k (view (w_cluster w)) (view (w_cluster w'))"
  shows "simulates d home view 1 w w'"
proof -
  have "store_step d home (stamp (w_now w) ev) (view (w_cluster w)) (view (w_cluster w'))"
    using assms(2,3) event_object_stamp unfolding store_step_def by blast
  from store_run_single [OF this] show ?thesis
    using assms(1) unfolding simulates_def audited_def by (intro conjI exI [of _ "[stamp (w_now w) ev]"]) simp_all
qed

text \<open>The event of an apply names the object the call went to.\<close>

lemma apply_target_ns:
  "apply_target cd ua s m = Inr t \<Longrightarrow> tg_Ns t = (if tg_Namespaced t
     then Some (if u_GetNamespace ua (tg_Obj t) = [] then ''default'' else u_GetNamespace ua (tg_Obj t)) else None)"
  by (auto simp: apply_target_def map_sum_eq Let_def split: sum.splits option.splits prod.splits if_splits)

lemma event_object_apply:
  assumes "ResolveGVR d (tg_Group t) (tg_Kind t) = Inr (tg_Gvr t, tg_Namespaced t)"
    and "tg_Ns t = (if tg_Namespaced t
      then Some (if u_GetNamespace ua (tg_Obj t) = [] then ''default'' else u_GetNamespace ua (tg_Obj t)) else None)"
    and "\<And>applied. answer = Inr applied \<Longrightarrow> u_GetName ua applied = tg_Name t \<and>
      u_GetNamespace ua applied = (case tg_Ns t of None \<Rightarrow> [] | Some ns \<Rightarrow> ns)"
  shows "event_object d (apply_event cd ua dry t answer) (tg_Gvr t, tg_Ns t, tg_Name t)"
proof -
  let ?ev = "apply_event cd ua dry t answer"
  have "ae_InvolvedKind ?ev = tg_Kind t" "ae_Reason ?ev = ''ResourceApply''"
    by (simp_all add: apply_event_def audit_record_def Let_def split: sum.split)
  moreover have "ae_InvolvedName ?ev = tg_Name t"
    using assms(3) by (cases answer) (simp_all add: apply_event_def audit_record_def Let_def)
  moreover have "event_ns (tg_Namespaced t) ?ev = tg_Ns t"
    using assms(2,3) by (cases answer) (auto simp: event_ns_def apply_event_def audit_record_def Let_def)
  ultimately show ?thesis using event_objectI [of d "tg_Group t" ?ev "tg_Gvr t" "tg_Namespaced t"] assms(1) by simp
qed

lemma apply_simulates:
  assumes "broker_inv (w_audit w)" and "srv_dyn s = Some d" "apiserver_ok ua d home view"
    and "ResourceApply cd ua s req w = Some (r, w')"
  shows "simulates d home view 1 w w'"
proof (rule ResourceApply_cases [OF assms(1), of cd ua s req])
  fix t answer w2
  assume t: "apply_target cd ua s (aq_Manifest req) = Inr t" and call:
    "dc_Apply (tg_Dyn t) (tg_Gvr t) (tg_Ns t) (tg_Name t) (tg_Obj t) (apply_options s req) (w_cluster w)
      = (answer, w_cluster w2)"
    and run: "ResourceApply cd ua s req w = Some (apply_outcome ua s (aq_DryRun req) t answer, w2)"
    and audit: "audited (apply_event cd ua (aq_DryRun req) t answer) w w2"
  note tg = apply_target_dyn [OF t]
  have d: "tg_Dyn t = d" using tg(1) assms(2) by simp
  have law: "only_at home (tg_Gvr t, tg_Ns t, tg_Name t) (view (w_cluster w)) (view (w_cluster w2))"
    "\<And>applied. answer = Inr applied \<Longrightarrow> u_GetName ua applied = tg_Name t \<and>
       u_GetNamespace ua applied = (case tg_Ns t of None \<Rightarrow> [] | Some ns \<Rightarrow> ns)"
    using call assms(3) unfolding apiserver_ok_def d by blast+
  have "event_object d (apply_event cd ua (aq_DryRun req) t answer) (tg_Gvr t, tg_Ns t, tg_Name t)"
    using tg(2) law(2) apply_target_ns [OF t]
    by (intro event_object_apply) (auto simp: d)
  from simulates_one [OF audit this law(1)] have "simulates d home view 1 w w2" .
  then show ?thesis using run assms(4) by simp
qed (use assms simulates_refl in simp)

lemma delete_simulates:
  assumes "broker_inv (w_audit w)" and "srv_dyn s = Some d" "apiserver_ok ua d home view"
    and "ResourceDelete cd s req w = Some (r, w')"
  shows "simulates d home view 1 w w'"
proof (rule ResourceDelete_cases [OF assms(1), of req s cd])
  fix d' g namespaced answer r' w2 ev
  assume k: "resolveKind s (dq_ApiGroup req) (dq_Kind req) = Inr (d', g, namespaced)"
    and call: "dc_Delete d' g (if namespaced then Some (dq_Namespace req) else None) (dq_Name req) (w_cluster w) = (answer, w_cluster w2)"
    and run: "ResourceDelete cd s req w = Some (r', w2)" "ae_InvolvedKind ev = dq_Kind req"
      "ae_InvolvedName ev = dq_Name req" "ae_InvolvedNamespace ev = dq_Namespace req" "ae_Reason ev = ''ResourceDelete''"
      "audited ev w w2"
  let ?grp = "firstNonEmpty (dq_ApiGroup req) (CRDAPIGroup (srv_cfg s))"
  have d: "d' = d" "dc_RESTMapping d ?grp (dq_Kind req) = Inr (g, namespaced)"
    using k assms(2) by (simp_all add: resolveKind_Inr)
  have "only_at home (g, if namespaced then Some (dq_Namespace req) else None, dq_Name req) (view (w_cluster w)) (view (w_cluster w2))"
    using call assms(3) unfolding apiserver_ok_def d by blast
  then have "simulates d home view 1 w w2"
    using d(2) run event_objectI [of d ?grp ev g namespaced]
    by (intro simulates_one [OF run(6)]) (auto simp: event_ns_def ResolveGVR_def)
  then show ?thesis using run(1) assms(4) by simp
qed (use assms simulates_refl in simp)

lemma simulates_mono: "simulates d home view n w w' \<Longrightarrow> n \<le> m \<Longrightarrow> simulates d home view m w w'"
  unfolding simulates_def by (meson le_trans)

lemma batch_simulates:
  assumes "broker_inv (w_audit w)" and "srv_dyn s = Some d" "apiserver_ok ua d home view"
    and "apply_seq cd ua s qs w = Some (rs, w')"
  shows "simulates d home view (length qs) w w'"
  using assms(1,4)
proof (induction qs arbitrary: w rs)
  case (Cons q qs)
  obtain r w1 rs' where 1: "ResourceApply cd ua s q w = Some (r, w1)" "apply_seq cd ua s qs w1 = Some (rs', w')"
    using Cons.prems(2) by (auto split: option.splits prod.splits)
  have step: "simulates d home view 1 w w1" by (rule apply_simulates [OF Cons.prems(1) assms(2,3) 1(1)])
  then have "broker_inv (w_audit w1)" by (simp add: simulates_def)
  from simulates_trans [OF step Cons.IH [OF this 1(2)]] show ?case by simp
qed (simp add: simulates_refl)

lemma write_step_simulates:
  assumes "broker_inv (w_audit w)" and "srv_dyn s = Some d" "apiserver_ok ua d home view"
  shows "\<exists>w'. write_step cd ua s call w = Some w' \<and> simulates d home view (write_events call) w w'"
proof (cases call)
  case (WriteApply req)
  obtain r w' where "ResourceApply cd ua s req w = Some (r, w')"
    by (rule ResourceApply_cases [OF assms(1), of cd ua s req])
  with apply_simulates [OF assms this] show ?thesis by (simp add: write_step_def WriteApply)
next
  case (WriteDelete req)
  obtain r w' where "ResourceDelete cd s req w = Some (r, w')"
    by (rule ResourceDelete_cases [OF assms(1), of req s cd])
  with delete_simulates [OF assms this] show ?thesis by (simp add: write_step_def WriteDelete)
next
  case (WriteBatch req)
  obtain resp w' where run: "BatchApply cd ua s req w = Some (resp, w')" using BatchApply_total [OF assms(1)] by blast
  then obtain rs where "apply_seq cd ua s (map (batch_item_request (bq_AllDryRun req) (bq_AllForce req)) (bq_Items req)) w
      = Some (rs, w')"
    by (auto simp: BatchApply_def batch_loop_eq)
  from batch_simulates [OF assms this] run show ?thesis by (simp add: write_step_def WriteBatch)
qed

lemma write_run_simulates:
  assumes "broker_inv (w_audit w)" and "srv_dyn s = Some d" "apiserver_ok ua d home view"
  shows "\<exists>w'. write_run cd ua s calls w = Some w' \<and> simulates d home view (\<Sum>call \<leftarrow> calls. write_events call) w w'"
  using assms(1)
proof (induction calls arbitrary: w)
  case (Cons call calls)
  obtain w1 where 1: "write_step cd ua s call w = Some w1" "simulates d home view (write_events call) w w1"
    using write_step_simulates [OF Cons.prems assms(2,3)] by blast
  then have "broker_inv (w_audit w1)" by (simp add: simulates_def)
  from Cons.IH [OF this] obtain w' where 2: "write_run cd ua s calls w1 = Some w'"
    "simulates d home view (\<Sum>call \<leftarrow> calls. write_events call) w1 w'" by blast
  from 1 2 simulates_trans [OF 1(2) 2(2)] show ?case by simp
qed (simp add: simulates_refl)

text \<open>The object a successful apply leaves in the store, and how its response names it.\<close>

lemma apply_stores:
  assumes "broker_inv (w_audit w)" and "srv_dyn s = Some d" and "apiserver_ok ua d home view"
    and "ResourceApply cd ua s req w = Some (Inr a, w')"
  obtains t applied where "apply_target cd ua s (aq_Manifest req) = Inr t" "a = projr (apply_outcome ua s (aq_DryRun req) t (Inr applied))"
    "tg_Dyn t = d" "ar_Name a = tg_Name t" "tg_Ns t = (if tg_Namespaced t then Some (ar_Namespace a) else None)"
    "\<not> aq_DryRun req \<Longrightarrow> view (w_cluster w') (tg_Gvr t, tg_Ns t, tg_Name t) = Some applied"
proof (rule ResourceApply_cases [OF assms(1), of cd ua s req])
  fix t answer w2
  assume t: "apply_target cd ua s (aq_Manifest req) = Inr t" and call:
    "dc_Apply (tg_Dyn t) (tg_Gvr t) (tg_Ns t) (tg_Name t) (tg_Obj t) (apply_options s req) (w_cluster w)
      = (answer, w_cluster w2)"
    and run: "ResourceApply cd ua s req w = Some (apply_outcome ua s (aq_DryRun req) t answer, w2)"
  note tg = apply_target_dyn [OF t]
  have d: "tg_Dyn t = d" using tg(1) assms(2) by simp
  from run assms(4) have out: "apply_outcome ua s (aq_DryRun req) t answer = Inr a" "w2 = w'" by simp_all
  then obtain applied where applied: "answer = Inr applied" using apply_outcome_facts(2) [of ua s "aq_DryRun req" t answer]
    by (cases answer) auto
  have dry: "ao_DryRunAll (apply_options s req) = aq_DryRun req" by (simp add: apply_options_def)
  have law: "u_GetName ua applied = tg_Name t" "u_GetNamespace ua applied = (case tg_Ns t of None \<Rightarrow> [] | Some ns \<Rightarrow> ns)"
    "\<not> aq_DryRun req \<Longrightarrow> view (w_cluster w') (tg_Gvr t, tg_Ns t, tg_Name t) = Some applied"
    using call assms(3) unfolding apiserver_ok_def d applied out(2) dry [symmetric] by blast+
  have "a = projr (apply_outcome ua s (aq_DryRun req) t (Inr applied))" using out(1) by (simp add: applied)
  moreover from this have "ar_Name a = u_GetName ua applied" "ar_Namespace a = u_GetNamespace ua applied"
    by (simp_all add: apply_outcome_def)
  ultimately show thesis using law tg(5) by (intro that [OF t _ d]) auto
qed (use assms(4) in simp)

text \<open>A get of a stored object: it is found, whatever else goes wrong.\<close>

lemma get_stored:
  assumes "apiserver_ok ua d home view" and "resolveKind s grp kind = Inr (d, g, namespaced)"
    and "name \<noteq> []" and "view (w_cluster w) (g, if namespaced then Some ns else None, name) = Some obj"
  shows "case ResourceGet cd s \<lparr>gq_Kind = kind, gq_ApiGroup = grp, gq_Namespace = ns, gq_Name = name\<rparr> w of
      Inr resp \<Rightarrow> toStruct cd obj = Inr (gr_Object resp)
    | Inl e \<Rightarrow> (\<exists>err. e = GetResource kind name err \<and> \<not> ee_not_found err) \<or> (\<exists>err. e = ConvertObject err)"
proof (cases "dc_Get d g (if namespaced then Some ns else None) name (w_cluster w)")
  case (Inl e)
  moreover have "\<not> ee_not_found e" using assms(1,4) Inl unfolding apiserver_ok_def by force
  ultimately show ?thesis using assms(2,3) by (cases namespaced) (simp_all add: ResourceGet_def)
next
  case (Inr o')
  moreover have "o' = obj" using assms(1,4) Inr unfolding apiserver_ok_def by force
  ultimately show ?thesis using assms(2,3) by (cases namespaced) (simp_all add: ResourceGet_def split: sum.split)
qed

section \<open>Properties\<close>

text \<open>
  C4. The calls that write refine the object store with its audit log. Over a lawful apiserver, which may
  serve an object in several versions, any sequence of applies, deletes and batches runs to its end, and
  for a subscriber with room the events it adds are a run of the store: one update of a single object per
  event, which the event names by its kind, its namespace and its name. So nothing changes in silence:
  an object that is different after the run, in whichever version it is looked at, is named by one of the
  events.
\<close>

theorem writes_refine_store:
  assumes "broker_inv (w_audit w)" and "srv_dyn s = Some d" and "apiserver_ok ua d home view"
    and "sub \<in> set (b_subs (w_audit w))" and "(\<Sum>call \<leftarrow> calls. write_events call) \<le> space (w_audit w) sub"
  shows "\<exists>w' evs. write_run cd ua s calls w = Some w' \<and> pending (w_audit w') sub = pending (w_audit w) sub @ evs \<and>
    store_run d home evs (view (w_cluster w)) (view (w_cluster w')) \<and>
    (\<forall>k. view (w_cluster w') k \<noteq> view (w_cluster w) k \<longrightarrow>
       (\<exists>ev \<in> set evs. \<exists>k'. event_object d ev k' \<and> same_object home k' k))"
proof -
  obtain w' where run: "write_run cd ua s calls w = Some w'"
    and sim: "simulates d home view (\<Sum>call \<leftarrow> calls. write_events call) w w'"
    using write_run_simulates [OF assms(1-3)] by blast
  then obtain evs where "store_run d home evs (view (w_cluster w)) (view (w_cluster w'))"
    "pending (w_audit w') sub = pending (w_audit w) sub @ evs"
    using assms(4,5) by (auto simp: simulates_def)
  with run store_run_unnamed show ?thesis by blast
qed

text \<open>
  C5. Apply and get are inverse, over a lawful apiserver. After an apply that is not a dry run, of an object
  outside the core group (whose empty name a get replaces by the default group), a get with the kind, the
  group, the namespace and the name of its response returns the object with the identity and the version
  the response reported, also after any later writes whose audit events name other objects, be it of the
  same name in another namespace. It fails only when the apiserver itself does, or when the object cannot
  be converted to a struct, and never with "not found".
\<close>

theorem apply_get_roundtrip:
  assumes "broker_inv (w_audit w)" and "srv_dyn s = Some d" and "apiserver_ok ua d home view"
    and "ResourceApply cd ua s req w = Some (Inr a, w1)" and "\<not> aq_DryRun req" and "ar_ApiGroup a \<noteq> []"
    and "sub \<in> set (b_subs (w_audit w1))" and "(\<Sum>call \<leftarrow> calls. write_events call) \<le> space (w_audit w1) sub"
    and "write_run cd ua s calls w1 = Some w2"
    and "\<forall>ev \<in> set (drop (length (pending (w_audit w1) sub)) (pending (w_audit w2) sub)). ae_InvolvedName ev \<noteq> ar_Name a \<or>
      ar_Namespaced a \<and> event_ns True ev \<noteq> Some (ar_Namespace a)"
  shows "case ResourceGet cd s \<lparr>gq_Kind = ar_Kind a, gq_ApiGroup = ar_ApiGroup a, gq_Namespace = ar_Namespace a,
           gq_Name = ar_Name a\<rparr> w2 of
      Inr resp \<Rightarrow> \<exists>obj. toStruct cd obj = Inr (gr_Object resp) \<and> u_GetName ua obj = ar_Name a \<and>
        u_GetNamespace ua obj = ar_Namespace a \<and> u_GetUID ua obj = ar_Uid a \<and>
        u_GetResourceVersion ua obj = ar_ResourceVersion a \<and> u_GetGeneration ua obj = ar_Generation a
    | Inl e \<Rightarrow> (\<exists>err. e = GetResource (ar_Kind a) (ar_Name a) err \<and> \<not> ee_not_found err) \<or> (\<exists>err. e = ConvertObject err)"
proof -
  obtain t applied where t: "apply_target cd ua s (aq_Manifest req) = Inr t"
    "a = projr (apply_outcome ua s (aq_DryRun req) t (Inr applied))" "tg_Dyn t = d" "ar_Name a = tg_Name t"
    "tg_Ns t = (if tg_Namespaced t then Some (ar_Namespace a) else None)"
    "view (w_cluster w1) (tg_Gvr t, tg_Ns t, tg_Name t) = Some applied"
    using apply_stores [OF assms(1-4)] assms(5) by metis
  let ?key = "(tg_Gvr t, tg_Ns t, tg_Name t)"
  note tg = apply_target_dyn [OF t(1)]
  have a: "ar_Kind a = tg_Kind t" "ar_ApiGroup a = tg_Group t" "ar_Name a = u_GetName ua applied"
    "ar_Namespaced a = tg_Namespaced t" "ar_Namespace a = u_GetNamespace ua applied" "ar_Uid a = u_GetUID ua applied"
    "ar_ResourceVersion a = u_GetResourceVersion ua applied" "ar_Generation a = u_GetGeneration ua applied"
    by (simp_all add: t(2) apply_outcome_def)
  have "broker_inv (w_audit w1)"
    using apply_simulates [OF assms(1-4)] by (simp add: simulates_def)
  from write_run_simulates [OF this assms(2,3), of cd calls] obtain evs where
    run: "store_run d home evs (view (w_cluster w1)) (view (w_cluster w2))"
    and "pending (w_audit w2) sub = pending (w_audit w1) sub @ evs"
    using assms(7-9) by (auto simp: simulates_def)
  then have "\<not> event_object d ev k \<or> \<not> same_object home k ?key" if "ev \<in> set evs" for ev k
    using assms(10) that t(4,5) a(4) by (auto simp: event_object_def same_object_def event_ns_def split: if_splits)
  then have "view (w_cluster w2) ?key = view (w_cluster w1) ?key"
    using store_run_unnamed [OF run, of ?key] by blast
  then have stored: "view (w_cluster w2) ?key = Some applied" by (simp add: t(6))
  let ?get = "\<lparr>gq_Kind = ar_Kind a, gq_ApiGroup = ar_ApiGroup a, gq_Namespace = ar_Namespace a, gq_Name = ar_Name a\<rparr>"
  have "resolveKind s (ar_ApiGroup a) (ar_Kind a) = Inr (d, tg_Gvr t, tg_Namespaced t)"
    using tg assms(2,6) t(3) by (simp add: resolveKind_def a)
  then have "case ResourceGet cd s ?get w2 of
      Inr resp \<Rightarrow> toStruct cd applied = Inr (gr_Object resp)
    | Inl e \<Rightarrow> (\<exists>err. e = GetResource (ar_Kind a) (ar_Name a) err \<and> \<not> ee_not_found err) \<or> (\<exists>err. e = ConvertObject err)"
    by (rule get_stored [OF assms(3)]) (use stored tg(4) t(4,5) in simp_all)
  then show ?thesis using a by (auto split: sum.splits)
qed

text \<open>
  C29. Apply writes a namespaced object whose manifest has no namespace to the namespace \<open>default\<close>; the
  other calls pass an absent namespace on. So a get of its kind and name without a namespace, which the
  schema of the tool allows, never returns it, and a delete without a namespace leaves it there.
\<close>

theorem default_namespace_gap:
  assumes "broker_inv (w_audit w)" and "srv_dyn s = Some d" and "apiserver_ok ua d home view"
    and "ResourceApply cd ua s req w = Some (Inr a, w1)" and "\<not> aq_DryRun req" and "ar_Namespaced a" "ar_ApiGroup a \<noteq> []"
    and "yaml_YAMLToJSON cd (aq_Manifest req) = Inr json" "u_UnmarshalJSON ua json = Inr obj" "u_GetNamespace ua obj = []"
    and "gq_Kind get = ar_Kind a" "gq_ApiGroup get = ar_ApiGroup a" "gq_Namespace get = []" "gq_Name get = ar_Name a"
    and "dq_Kind del = ar_Kind a" "dq_ApiGroup del = ar_ApiGroup a" "dq_Namespace del = []" "dq_Name del = ar_Name a"
    and "ResourceDelete cd s del w1 = Some (r, w2)"
  shows "ar_Namespace a = ''default'' \<and> isl (ResourceGet cd s get w1) \<and>
    (\<exists>g applied. view (w_cluster w1) (g, Some ''default'', ar_Name a) = Some applied \<and>
       view (w_cluster w2) (g, Some ''default'', ar_Name a) = Some applied \<and> u_GetUID ua applied = ar_Uid a)"
proof -
  obtain t applied where t: "apply_target cd ua s (aq_Manifest req) = Inr t"
    "a = projr (apply_outcome ua s (aq_DryRun req) t (Inr applied))" "tg_Dyn t = d" "ar_Name a = tg_Name t"
    "tg_Ns t = (if tg_Namespaced t then Some (ar_Namespace a) else None)"
    "view (w_cluster w1) (tg_Gvr t, tg_Ns t, tg_Name t) = Some applied"
    using apply_stores [OF assms(1-4)] assms(5) by metis
  note tg = apply_target_dyn [OF t(1)]
  have a: "ar_Kind a = tg_Kind t" "ar_ApiGroup a = tg_Group t" "tg_Namespaced t" "ar_Uid a = u_GetUID ua applied"
    using assms(6) by (simp_all add: t(2) apply_outcome_def)
  then have ns: "ar_Namespace a = ''default''"
    using t(1,5) assms(8-10)
    by (auto simp: apply_target_def map_sum_eq Let_def split: sum.splits option.splits prod.splits if_splits)
  have resolve: "resolveKind s (ar_ApiGroup a) (ar_Kind a) = Inr (d, tg_Gvr t, True)"
    using tg assms(2,7) t(3) a(3) by (simp add: resolveKind_def a)
  have "view (w_cluster w1) (tg_Gvr t, Some [], tg_Name t) = None" using assms(3) unfolding apiserver_ok_def by blast
  then have "dc_Get d (tg_Gvr t) (Some []) (tg_Name t) (w_cluster w1) \<noteq> Inr obj'" for obj'
    using assms(3) unfolding apiserver_ok_def by (metis option.discI)
  then obtain err where "dc_Get d (tg_Gvr t) (Some []) (tg_Name t) (w_cluster w1) = Inl err"
    by (cases "dc_Get d (tg_Gvr t) (Some []) (tg_Name t) (w_cluster w1)") auto
  then have "isl (ResourceGet cd s get w1)"
    using resolve assms(11-14) t(4) by (simp add: ResourceGet_def)
  moreover have "view (w_cluster w2) (tg_Gvr t, Some ''default'', tg_Name t) = view (w_cluster w1) (tg_Gvr t, Some ''default'', tg_Name t)"
  proof (rule ResourceDelete_cases [of w1 del s cd])
    show "broker_inv (w_audit w1)" using apply_simulates [OF assms(1-4)] by (simp add: simulates_def)
  next
    fix d' g namespaced answer r' w'
    assume "resolveKind s (dq_ApiGroup del) (dq_Kind del) = Inr (d', g, namespaced)"
      "dc_Delete d' g (if namespaced then Some (dq_Namespace del) else None) (dq_Name del) (w_cluster w1) = (answer, w_cluster w')"
      "ResourceDelete cd s del w1 = Some (r', w')"
    then have "dc_Delete d (tg_Gvr t) (Some []) (tg_Name t) (w_cluster w1) = (answer, w_cluster w2)"
      using resolve assms(15-19) t(4) by simp
    then have "only_at home (tg_Gvr t, Some [], tg_Name t) (view (w_cluster w1)) (view (w_cluster w2))"
      using assms(3) unfolding apiserver_ok_def by blast
    then show ?thesis by (simp add: only_at_def same_object_def)
  qed (use assms(19) in simp)
  ultimately show ?thesis using t(4-6) ns a by auto
qed

section \<open>Witnesses\<close>

text \<open>
  A lawful apiserver: an association list by key, one namespaced kind, objects that carry their names. It
  serves every type in any version and keeps its objects under \<open>v1\<close>.
\<close>

type_synonym key_cluster = "(object_key \<times> json) list"

definition key_object :: "string option \<Rightarrow> string \<Rightarrow> json" where
  "key_object ns n = JObj [(''name'', JStr n), (''namespace'', JStr (case ns of None \<Rightarrow> [] | Some ns \<Rightarrow> ns))]"

definition key_home :: "gvr \<Rightarrow> gvr" where
  "key_home g = g\<lparr>g_Version := ''v1''\<rparr>"

definition key_dyn :: "key_cluster dyn_client" where
  "key_dyn =
     \<lparr>dc_RESTMapping = (\<lambda>g k. if k = ''Rule'' then Inr (\<lparr>g_Group = g, g_Version = ''v1'', g_Resource = ''rules''\<rparr>, True)
        else Inl (ex_err False)),
      dc_List = (\<lambda>g _ _ c. Inr (map snd (filter (\<lambda>(k, _). fst k = key_home g) c))),
      dc_Get = (\<lambda>g ns n c. if ns = Some [] then Inl (ex_err True)
        else case map_of c (key_home g, ns, n) of Some v \<Rightarrow> Inr v | None \<Rightarrow> Inl (ex_err True)),
      dc_Apply = (\<lambda>g ns n v opts c. if ns = Some [] then (Inl (ex_err False), c)
        else (Inr (key_object ns n), if ao_DryRunAll opts then c else AList.update (key_home g, ns, n) (key_object ns n) c)),
      dc_Delete = (\<lambda>g ns n c. if (key_home g, ns, n) \<in> set (map fst c) then (None, AList.delete (key_home g, ns, n) c) else (Some (ex_err True), c)),
      dc_Watch = (\<lambda>_ _ _. None)\<rparr>"

definition key_view :: "key_cluster \<Rightarrow> store" where
  "key_view c k = (if fst (snd k) = Some [] then None else map_of c (key_home (fst k), snd k))"

definition key_api :: unstructured_api where
  "key_api = ex_unstructured\<lparr>u_GetNamespace := struct_string ''namespace''\<rparr>"

definition key_svc :: "key_cluster Service" where
  "key_svc = \<lparr>srv_cfg = ex_config, srv_kube = None, srv_dyn = Some key_dyn, srv_streams = None, srv_startTime = zero_time\<rparr>"

definition key_world :: "key_cluster \<Rightarrow> key_cluster world" where
  "key_world c = \<lparr>w_cluster = c, w_audit = w_audit (ex_world []), w_now = zero_time\<rparr>"

lemma key_world_inv: "broker_inv (w_audit (key_world c))"
  using ex_world_inv [of "[]"] by (simp add: key_world_def)

lemma key_dyn_ok: "apiserver_ok key_api key_dyn key_home key_view"
proof -
  have names: "u_GetName key_api (key_object ns n) = n"
    "u_GetNamespace key_api (key_object ns n) = (case ns of None \<Rightarrow> [] | Some ns \<Rightarrow> ns)" for ns n
    by (simp_all add: key_api_def key_object_def ex_unstructured_def struct_string_def struct_field_def)
  have get: "(\<forall>obj. dc_Get key_dyn g ns n c = Inr obj \<longrightarrow> key_view c (g, ns, n) = Some obj) \<and>
      (\<forall>e. dc_Get key_dyn g ns n c = Inl e \<longrightarrow> ee_not_found e \<longrightarrow> key_view c (g, ns, n) = None)" for g ns n c
    by (simp add: key_dyn_def key_view_def split: option.split)
  have apply_law: "only_at key_home (g, ns, n) (key_view c) (key_view c') \<and> (ao_DryRunAll opts \<longrightarrow> key_view c' = key_view c) \<and>
      (\<forall>applied. answer = Inr applied \<longrightarrow> u_GetName key_api applied = n \<and>
         u_GetNamespace key_api applied = (case ns of None \<Rightarrow> [] | Some ns \<Rightarrow> ns) \<and>
         (\<not> ao_DryRunAll opts \<longrightarrow> key_view c' (g, ns, n) = Some applied))"
    if "dc_Apply key_dyn g ns n obj opts c = (answer, c')" for g ns n obj opts c answer c'
    using that by (auto simp: key_dyn_def key_view_def only_at_def same_object_def names update_conv' split: if_splits)
  have delete_law: "only_at key_home (g, ns, n) (key_view c) (key_view c')"
    if "dc_Delete key_dyn g ns n c = (answer, c')" for g ns n c answer c'
    using that by (auto simp: key_dyn_def key_view_def only_at_def same_object_def delete_conv' split: if_splits)
  show ?thesis
    unfolding apiserver_ok_def using get apply_law delete_law by (auto simp: key_view_def)
qed

lemma key_room: "0 \<in> set (b_subs (w_audit (key_world c)))" "space (w_audit (key_world c)) 0 = 64"
  "pending (w_audit (key_world c)) 0 = []"
  by (simp_all add: key_world_def ex_world_def Subscribe_def New_def make_chan_def defaultBufSize_def)

lemma writes_refine_store_witness:
  "\<exists>w' evs. write_run ex_codec_of key_api key_svc
       [WriteBatch (ex_batch False), WriteApply (ex_apply ''c'' False), WriteDelete ex_delete] (key_world []) = Some w' \<and>
     pending (w_audit w') 0 = evs \<and> store_run key_dyn key_home evs (key_view []) (key_view (w_cluster w'))"
proof -
  have "(\<Sum>call \<leftarrow> [WriteBatch (ex_batch False), WriteApply (ex_apply ''c'' False), WriteDelete ex_delete]. write_events call)
      \<le> space (w_audit (key_world [])) 0"
    by (simp add: key_room(2) ex_batch_def del: One_nat_def)
  moreover have "srv_dyn key_svc = Some key_dyn" by (simp add: key_svc_def)
  ultimately obtain w' evs where "write_run ex_codec_of key_api key_svc
       [WriteBatch (ex_batch False), WriteApply (ex_apply ''c'' False), WriteDelete ex_delete] (key_world []) = Some w'"
    "pending (w_audit w') 0 = pending (w_audit (key_world [])) 0 @ evs"
    "store_run key_dyn key_home evs (key_view (w_cluster (key_world []))) (key_view (w_cluster w'))"
    using writes_refine_store [OF key_world_inv _ key_dyn_ok key_room(1)] by blast
  moreover have "w_cluster (key_world []) = []" by (simp add: key_world_def)
  ultimately show ?thesis unfolding key_room(3) by (metis append_Nil)
qed

text \<open>Applying the manifest of an object by its name.\<close>

lemma apply_event_name: "ae_InvolvedName (apply_event cd ua dry t (Inr applied)) = u_GetName ua applied"
  by (simp add: apply_event_def audit_record_def Let_def)

lemma key_apply_run:
  assumes "broker_inv (w_audit w)" and "n \<noteq> []" "n \<noteq> ''?''"
  obtains a w' ev where "ResourceApply ex_codec_of key_api key_svc (ex_apply n False) w = Some (Inr a, w')"
    "ar_Kind a = ''Rule''" "ar_ApiGroup a = ''g''" "ar_Namespace a = ''default''" "ar_Name a = n" "ar_Namespaced a"
    "ae_InvolvedName ev = n" "audited ev w w'"
proof -
  obtain t where t: "apply_target ex_codec_of key_api key_svc n = Inr t" "tg_Kind t = ''Rule''" "tg_Group t = ''g''"
    "tg_Ns t = Some ''default''" "tg_Name t = n" "tg_Namespaced t" "tg_Dyn t = key_dyn"
    using assms(2,3)
    by (simp add: apply_target_def ex_codec_of_def key_api_def ex_unstructured_def key_svc_def key_dyn_def ResolveGVR_def
        struct_string_def struct_field_def ex_obj_def Let_def)
  note names = key_api_def ex_unstructured_def key_object_def struct_string_def struct_field_def
  show thesis
  proof (rule ResourceApply_cases [OF assms(1), of ex_codec_of key_api key_svc "ex_apply n False"])
    fix t' answer w'
    assume "apply_target ex_codec_of key_api key_svc (aq_Manifest (ex_apply n False)) = Inr t'"
      and call: "dc_Apply (tg_Dyn t') (tg_Gvr t') (tg_Ns t') (tg_Name t') (tg_Obj t') (apply_options key_svc (ex_apply n False))
        (w_cluster w) = (answer, w_cluster w')"
      and run: "ResourceApply ex_codec_of key_api key_svc (ex_apply n False) w =
        Some (apply_outcome key_api key_svc (aq_DryRun (ex_apply n False)) t' answer, w')"
        "audited (apply_event ex_codec_of key_api (aq_DryRun (ex_apply n False)) t' answer) w w'"
    then have "t' = t" using t(1) by (simp add: ex_apply_def)
    then have answer: "answer = Inr (key_object (Some ''default'') n)" using call t(4,5,7) by (simp add: key_dyn_def)
    have "u_GetName key_api (key_object (Some ''default'') n) = n" "u_GetNamespace key_api (key_object (Some ''default'') n) = ''default''"
      by (simp_all add: names)
    note facts = this answer \<open>t' = t\<close> t(2-6) apply_outcome_def
    obtain a where a: "apply_outcome key_api key_svc (aq_DryRun (ex_apply n False)) t' answer = Inr a"
      by (simp add: answer apply_outcome_def)
    then have "ar_Kind a = ''Rule''" "ar_ApiGroup a = ''g''" "ar_Namespace a = ''default''" "ar_Name a = n" "ar_Namespaced a"
      by (auto simp: facts)
    then show thesis
      by (intro that [OF run(1) [unfolded a] _ _ _ _ _ _ run(2)]) (simp_all add: facts apply_event_name)
  qed (use t(1) in \<open>simp add: ex_apply_def\<close>)
qed

lemma apply_get_roundtrip_witness:
  "\<exists>a w1 w2. ResourceApply ex_codec_of key_api key_svc (ex_apply ''a'' False) (key_world []) = Some (Inr a, w1) \<and>
     write_run ex_codec_of key_api key_svc [WriteApply (ex_apply ''c'' False)] w1 = Some w2 \<and>
     (case ResourceGet ex_codec_of key_svc \<lparr>gq_Kind = ar_Kind a, gq_ApiGroup = ar_ApiGroup a,
         gq_Namespace = ar_Namespace a, gq_Name = ar_Name a\<rparr> w2 of
        Inr resp \<Rightarrow> \<exists>obj. toStruct ex_codec_of obj = Inr (gr_Object resp) \<and> u_GetName key_api obj = ''a''
      | Inl e \<Rightarrow> \<forall>k n. e \<noteq> ResourceNotFound k n)"
proof -
  obtain a w1 ev where 1: "ResourceApply ex_codec_of key_api key_svc (ex_apply ''a'' False) (key_world []) = Some (Inr a, w1)"
    "ar_ApiGroup a = ''g''" "ar_Name a = ''a''" "audited ev (key_world []) w1"
    by (rule key_apply_run [OF key_world_inv, of "''a''"]) simp_all
  have inv: "broker_inv (w_audit w1)" "0 \<in> set (b_subs (w_audit w1))" "space (w_audit w1) 0 = 63"
    using 1(4) key_room by (simp_all add: audited_def)
  obtain b w2 ev' where 2: "ResourceApply ex_codec_of key_api key_svc (ex_apply ''c'' False) w1 = Some (Inr b, w2)"
    "ae_InvolvedName ev' = ''c''" "audited ev' w1 w2"
    by (rule key_apply_run [OF inv(1), of "''c''"]) simp_all
  then have run: "write_run ex_codec_of key_api key_svc [WriteApply (ex_apply ''c'' False)] w1 = Some w2"
    by (simp add: write_step_def)
  have events: "\<forall>ev \<in> set (drop (length (pending (w_audit w1) 0)) (pending (w_audit w2) 0)). ae_InvolvedName ev \<noteq> ar_Name a \<or>
      ar_Namespaced a \<and> event_ns True ev \<noteq> Some (ar_Namespace a)"
    using 2(2,3) inv(2,3) by (simp add: audited_def stamp_def 1(3))
  have "srv_dyn key_svc = Some key_dyn" "\<not> aq_DryRun (ex_apply ''a'' False)" "ar_ApiGroup a \<noteq> []"
    "(\<Sum>call \<leftarrow> [WriteApply (ex_apply ''c'' False)]. write_events call) \<le> space (w_audit w1) 0"
    using 1(2) inv(3) by (simp_all add: key_svc_def ex_apply_def)
  from apply_get_roundtrip [OF key_world_inv this(1) key_dyn_ok 1(1) this(2,3) inv(2) this(4) run events] 1 run
  show ?thesis by (fastforce split: sum.splits)
qed

lemma default_namespace_gap_witness:
  "\<exists>a w1. ResourceApply ex_codec_of key_api key_svc (ex_apply ''a'' False) (key_world []) = Some (Inr a, w1) \<and>
     ar_Namespace a = ''default'' \<and>
     isl (ResourceGet ex_codec_of key_svc \<lparr>gq_Kind = ''Rule'', gq_ApiGroup = ''g'', gq_Namespace = [], gq_Name = ''a''\<rparr> w1)"
proof -
  obtain a w1 ev where 1: "ResourceApply ex_codec_of key_api key_svc (ex_apply ''a'' False) (key_world []) = Some (Inr a, w1)"
    "ar_Kind a = ''Rule''" "ar_ApiGroup a = ''g''" "ar_Namespace a = ''default''" "ar_Name a = ''a''" "ar_Namespaced a"
    "audited ev (key_world []) w1"
    by (rule key_apply_run [OF key_world_inv, of "''a''"]) simp_all
  let ?get = "\<lparr>gq_Kind = ''Rule'', gq_ApiGroup = ''g'', gq_Namespace = [], gq_Name = ''a''\<rparr>"
  let ?del = "\<lparr>dq_Kind = ''Rule'', dq_ApiGroup = ''g'', dq_Namespace = [], dq_Name = ''a''\<rparr>"
  have "broker_inv (w_audit w1)" using 1(7) by (simp add: audited_def)
  then obtain r w2 where del: "ResourceDelete ex_codec_of key_svc ?del w1 = Some (r, w2)"
    by (rule ResourceDelete_cases [of w1 ?del key_svc ex_codec_of])
  have "srv_dyn key_svc = Some key_dyn" "\<not> aq_DryRun (ex_apply ''a'' False)" "ar_ApiGroup a \<noteq> []"
    "yaml_YAMLToJSON ex_codec_of (aq_Manifest (ex_apply ''a'' False)) = Inr ''a''"
    "u_UnmarshalJSON key_api ''a'' = Inr (ex_obj ''a'')" "u_GetNamespace key_api (ex_obj ''a'') = []"
    using 1(3) by (simp_all add: key_svc_def ex_apply_def ex_codec_of_def key_api_def ex_unstructured_def ex_obj_def
        struct_string_def struct_field_def)
  from default_namespace_gap [OF key_world_inv this(1) key_dyn_ok 1(1) this(2) 1(6) this(3-6), of ?get ?del] 1 del show ?thesis by simp
qed

end
