(* ===== verification/Forwarding.thy ===== *)
theory Forwarding
  imports Prelude
begin

text \<open>
  The loop the streaming calls share (\<open>TailStream\<close>, \<open>WatchResources\<close>, \<open>EventStream\<close>): a \<open>select\<close> over
  the context and one or two channels; what is received may be turned into a message, which is sent
  to the client. A call gives one turn of its loop; \<open>serve\<close> runs it over a sequence of what the
  \<open>select\<close> picks, with the result of the client's n-th \<open>Send\<close>.
\<close>

text \<open>
  A turn continues, sends a message (and says whether the loop ends after it), ends the call without
  an error, or never comes back.
\<close>

datatype ('s, 'o) turn = Next 's | Emit 's 'o bool | Finish | Hang

datatype 's verdict = Open 's | Ended "ext_err option" | Hung

fun serve ::
  "('s \<Rightarrow> 'ev \<Rightarrow> ('s, 'o) turn) \<Rightarrow> (nat \<Rightarrow> ext_err option) \<Rightarrow> 's \<Rightarrow> 'ev list \<Rightarrow> 'o list \<Rightarrow> 'o list \<times> 's verdict" where
  "serve step sends s [] sent = (sent, Open s)"
| "serve step sends s (ev # evs) sent =
     (case step s ev of
        Next s' \<Rightarrow> serve step sends s' evs sent
      | Emit s' x fin \<Rightarrow>
          (case sends (length sent) of
             Some e \<Rightarrow> (sent, Ended (Some e))
           | None \<Rightarrow>
               if fin then (sent @ [x], Ended None) else serve step sends s' evs (sent @ [x]))
      | Finish \<Rightarrow> (sent, Ended None)
      | Hang \<Rightarrow> (sent, Hung))"

section \<open>The interface of a loop\<close>

text \<open>
  \<open>view\<close> is the message an event stands for, \<open>ends\<close> marks the events that end a call. A loop sends
  only what its events stand for and ends without an error only at an ending event.
\<close>

locale forwarder =
  fixes step :: "'s \<Rightarrow> 'ev \<Rightarrow> ('s, 'o) turn" and view :: "'ev \<Rightarrow> 'o option" and ends :: "'ev \<Rightarrow> bool"
  assumes emit_view: "step s ev = Emit s' x fin \<Longrightarrow> view ev = Some x \<and> \<not> fin"
    and finish_ends: "step s ev = Finish \<Longrightarrow> ends ev"
begin

lemma serve_sent:
  "serve step sends s evs sent = (out, v) \<Longrightarrow> \<exists>rest. out = sent @ rest \<and> subseq rest (List.map_filter view evs)"
proof (induction evs arbitrary: s sent)
  case (Cons ev evs)
  show ?case
  proof (cases "step s ev")
    case (Next s')
    with Cons.prems have "serve step sends s' evs sent = (out, v)" by simp
    with Cons.IH obtain rest where "out = sent @ rest" "subseq rest (List.map_filter view evs)" by blast
    then show ?thesis by (auto simp: map_filter_simps split: option.splits)
  next
    case (Emit s' x fin)
    note ev = emit_view [OF Emit]
    show ?thesis
    proof (cases "sends (length sent)")
      case None
      with Emit ev Cons.prems have "serve step sends s' evs (sent @ [x]) = (out, v)" by simp
      with Cons.IH obtain rest where "out = (sent @ [x]) @ rest" "subseq rest (List.map_filter view evs)" by blast
      then show ?thesis using ev by (simp add: map_filter_simps)
    qed (use Emit Cons.prems in auto)
  qed (use Cons.prems in auto)
qed auto

lemma serve_ended: "serve step sends s evs sent = (out, Ended None) \<Longrightarrow> \<exists>ev \<in> set evs. ends ev"
proof (induction evs arbitrary: s sent)
  case (Cons ev evs)
  then show ?case
    by (cases "step s ev") (auto dest: emit_view finish_ends split: option.splits if_splits)
qed simp

lemma serve_failed: "serve step sends s evs sent = (out, Ended (Some e)) \<Longrightarrow> sends (length out) = Some e"
proof (induction evs arbitrary: s sent)
  case (Cons ev evs)
  then show ?case by (cases "step s ev") (auto split: option.splits if_splits)
qed simp

end

text \<open>A loop that skips nothing else: until it ends it sends exactly what its events stand for.\<close>

locale lossless_forwarder = forwarder +
  assumes next_view: "step s ev = Next s' \<Longrightarrow> view ev = None"
begin

lemma serve_open:
  "serve step sends s evs sent = (out, Open s') \<Longrightarrow> out = sent @ List.map_filter view evs"
proof (induction evs arbitrary: s sent)
  case (Cons ev evs)
  show ?case
  proof (cases "step s ev")
    case (Next s1)
    with Cons show ?thesis by (simp add: next_view map_filter_simps)
  next
    case (Emit s1 x fin)
    from Emit emit_view [OF Emit] Cons.prems
    have "serve step sends s1 evs (sent @ [x]) = (out, Open s')" by (simp split: option.splits)
    from Cons.IH [OF this] emit_view [OF Emit] show ?thesis by (simp add: map_filter_simps)
  qed (use Cons.prems in auto)
qed simp

lemma serve_prefix:
  "serve step sends s evs sent = (out, v) \<Longrightarrow> \<exists>rest. out = sent @ rest \<and> prefix rest (List.map_filter view evs)"
proof (induction evs arbitrary: s sent)
  case (Cons ev evs)
  show ?case
  proof (cases "step s ev")
    case (Next s1)
    with Cons show ?thesis by (simp add: next_view map_filter_simps)
  next
    case (Emit s1 x fin)
    note ev = emit_view [OF Emit]
    show ?thesis
    proof (cases "sends (length sent)")
      case None
      with Emit ev Cons.prems have "serve step sends s1 evs (sent @ [x]) = (out, v)" by simp
      with Cons.IH obtain rest where "out = (sent @ [x]) @ rest" "prefix rest (List.map_filter view evs)" by blast
      then show ?thesis using ev by (simp add: map_filter_simps)
    qed (use Emit Cons.prems in auto)
  qed (use Cons.prems in auto)
qed auto

text \<open>It stops without an error right at an ending event, with everything before it sent.\<close>

lemma serve_stops:
  "serve step sends s evs sent = (out, Ended None) \<Longrightarrow>
     \<exists>pre ev post. evs = pre @ ev # post \<and> ends ev \<and> out = sent @ List.map_filter view pre"
proof (induction evs arbitrary: s sent)
  case (Cons ev evs)
  have grow: "\<exists>pre ev' post. ev # evs = pre @ ev' # post \<and> ends ev' \<and> out = sent @ List.map_filter view pre"
    if "evs = pre @ ev' # post" "ends ev'" "out = sent @ List.map_filter view (ev # pre)" for pre ev' post
    using that by (intro exI [of _ "ev # pre"]) auto
  show ?case
  proof (cases "step s ev")
    case (Next s1)
    with Cons.prems have "serve step sends s1 evs sent = (out, Ended None)" by simp
    from Cons.IH [OF this] grow next_view [OF Next] show ?thesis by (force simp: map_filter_simps)
  next
    case (Emit s1 x fin)
    from Emit emit_view [OF Emit] Cons.prems
    have "serve step sends s1 evs (sent @ [x]) = (out, Ended None)" by (simp split: option.splits)
    from Cons.IH [OF this] grow emit_view [OF Emit] show ?thesis by (force simp: map_filter_simps)
  next
    case Finish
    then show ?thesis using Cons.prems finish_ends [OF Finish]
      by (intro exI [of _ "[]"]) (simp add: map_filter_simps)
  qed (use Cons.prems in auto)
qed simp

end

end
