(* ===== verification/Watches.thy ===== *)
theory Watches
  imports Service Forwarding
begin

text \<open>
  The streams of events: \<open>watch_resources.go\<close> and \<open>event_stream.go\<close>. What the apiserver and the
  broker deliver is a sequence of picks of the call's \<open>select\<close>; a pick on a channel the call does not
  hold (a nil channel in Go) is never made, so it has no effect.
\<close>

section \<open>WatchResources\<close>

record WatchResourcesRequest =
  wq_Kind :: string
  wq_ApiGroup :: string
  wq_Namespace :: string
  wq_LabelSelector :: string
  wq_ResourceVersion :: string

record WatchResourcesResponse =
  wr_Cluster :: ClusterRef
  wr_EventType :: string
  wr_Kind :: string
  wr_ApiGroup :: string
  wr_Namespace :: string
  wr_Name :: string
  wr_ResourceVersion :: string
  wr_Object :: "json option"

text \<open>A watch event: its type, and its object unless that is something else than the watched kind.\<close>

record 'o watch_event =
  we_Type :: string
  we_Object :: "'o option"

definition buildWatchEvent ::
  "codec \<Rightarrow> unstructured_api \<Rightarrow> ClusterRef \<Rightarrow> string \<Rightarrow> string \<Rightarrow> json watch_event \<Rightarrow> WatchResourcesResponse option" where
  "buildWatchEvent cd ua cluster kind grp evt =
     (let resp = \<lparr>wr_Cluster = cluster, wr_EventType = we_Type evt, wr_Kind = kind, wr_ApiGroup = grp,
                  wr_Namespace = [], wr_Name = [], wr_ResourceVersion = [], wr_Object = None\<rparr>
      in case we_Object evt of
           None \<Rightarrow> Some resp
         | Some u \<Rightarrow>
             let resp = resp\<lparr>wr_Namespace := u_GetNamespace ua u, wr_Name := u_GetName ua u,
                             wr_ResourceVersion := u_GetResourceVersion ua u\<rparr>
             in (case structpb_NewStruct cd u of
                   Inr st \<Rightarrow> Some (resp\<lparr>wr_Object := Some st\<rparr>)
                 | Inl e \<Rightarrow> Some resp))"

datatype watch_pick = WatchDone | WatchClosed | WatchEvent "json watch_event"

definition watch_turn ::
  "codec \<Rightarrow> unstructured_api \<Rightarrow> ClusterRef \<Rightarrow> string \<Rightarrow> string \<Rightarrow> unit \<Rightarrow> watch_pick \<Rightarrow> (unit, WatchResourcesResponse) turn" where
  "watch_turn cd ua cl kind grp u pick =
     (case pick of
        WatchDone \<Rightarrow> Finish
      | WatchClosed \<Rightarrow> Finish
      | WatchEvent evt \<Rightarrow>
          (case buildWatchEvent cd ua cl kind grp evt of
             None \<Rightarrow> Next u
           | Some resp \<Rightarrow> Emit u resp False))"

definition WatchResources ::
  "codec \<Rightarrow> unstructured_api \<Rightarrow> 'c Service \<Rightarrow> WatchResourcesRequest \<Rightarrow> (nat \<Rightarrow> ext_err option) \<Rightarrow> watch_pick list \<Rightarrow>
     grpc_status + (WatchResourcesResponse list \<times> unit verdict)" where
  "WatchResources cd ua s req sends picks =
     (case srv_dyn s of
        None \<Rightarrow> Inl \<lparr>gs_code = FailedPrecondition, gs_msg = ''no dynamic client (no kube wiring)''\<rparr>
      | Some d \<Rightarrow>
          if wq_Kind req = [] then Inl \<lparr>gs_code = InvalidArgument, gs_msg = ''kind is required''\<rparr>
          else
            let grp = (if wq_ApiGroup req = [] then CRDAPIGroup (srv_cfg s) else wq_ApiGroup req) in
            (case ResolveGVR d grp (wq_Kind req) of
               Inl e \<Rightarrow> Inl \<lparr>gs_code = InvalidArgument, gs_msg = k8s_error_text e\<rparr>
             | Inr (g, namespaced) \<Rightarrow>
                 let listOpts = \<lparr>wo_LabelSelector = wq_LabelSelector req,
                       wo_ResourceVersion = wq_ResourceVersion req, wo_AllowWatchBookmarks = True\<rparr>;
                     ns = (if namespaced \<and> wq_Namespace req \<noteq> [] then Some (wq_Namespace req) else None)
                 in (case dc_Watch d g ns listOpts of
                       Some e \<Rightarrow>
                         Inl \<lparr>gs_code = Internal, gs_msg = ''watch '' @ wq_Kind req @ '': '' @ ee_msg e\<rparr>
                     | None \<Rightarrow>
                         Inr (serve (watch_turn cd ua (clusterRef s) (wq_Kind req) grp) sends () picks []))))"

section \<open>EventStream\<close>

record EventStreamRequest =
  eq_Namespace :: string
  eq_Kind :: string
  eq_Source :: string

record EventStreamResponse =
  er_Cluster :: ClusterRef
  er_Source :: string
  er_Type :: string
  er_Reason :: string
  er_EventMessage :: string
  er_Timestamp :: string
  er_InvolvedKind :: string
  er_InvolvedName :: string
  er_InvolvedNamespace :: string
  er_Actor :: string

record k8s_event =
  ke_Type :: string
  ke_Reason :: string
  ke_Message :: string
  ke_LastTimestamp :: gotime
  ke_EventTime :: gotime
  ke_CreationTimestamp :: gotime
  ke_InvolvedKind :: string
  ke_InvolvedName :: string
  ke_InvolvedNamespace :: string

definition buildK8sEvent :: "ClusterRef \<Rightarrow> k8s_event \<Rightarrow> EventStreamResponse" where
  "buildK8sEvent cluster e =
     (let ts = ke_LastTimestamp e;
          ts = (if IsZero ts then ke_EventTime e else ts);
          ts = (if IsZero ts then ke_CreationTimestamp e else ts)
      in \<lparr>er_Cluster = cluster, er_Source = ''k8s'', er_Type = ke_Type e, er_Reason = ke_Reason e,
          er_EventMessage = ke_Message e, er_Timestamp = rfc3339OrEmpty ts, er_InvolvedKind = ke_InvolvedKind e,
          er_InvolvedName = ke_InvolvedName e, er_InvolvedNamespace = ke_InvolvedNamespace e, er_Actor = []\<rparr>)"

definition buildAuditEvent :: "ClusterRef \<Rightarrow> AuditEvent \<Rightarrow> EventStreamResponse" where
  "buildAuditEvent cluster e =
     \<lparr>er_Cluster = cluster, er_Source = ''audit'', er_Type = ''Audit'', er_Reason = ae_Reason e,
      er_EventMessage = ae_Message e, er_Timestamp = rfc3339OrEmpty (ae_Timestamp e),
      er_InvolvedKind = ae_InvolvedKind e, er_InvolvedName = ae_InvolvedName e,
      er_InvolvedNamespace = ae_InvolvedNamespace e, er_Actor = ae_Actor e\<rparr>"

text \<open>
  \<open>startEventsWatch\<close>: without a Kubernetes client the channel is one that never fires. The call
  holds the two channels or nil in their place.
\<close>

definition startEventsWatch :: "'c Service \<Rightarrow> string \<Rightarrow> ext_err option" where
  "startEventsWatch s namespace =
     (case srv_kube s of None \<Rightarrow> None | Some kc \<Rightarrow> kc_WatchEvents kc namespace)"

record stream_state =
  es_k8sCh :: bool
  es_auditCh :: bool

text \<open>The part before the loop: the channels held, and the subscription to the broker, if any.\<close>

definition EventStream_open ::
  "codec \<Rightarrow> 'c Service \<Rightarrow> EventStreamRequest \<Rightarrow> 'c world \<Rightarrow> grpc_status + (stream_state \<times> nat option \<times> 'c world)" where
  "EventStream_open cd s req w =
     (let source = ToLower cd (eq_Source req); k8s = (source = [] \<or> source = ''k8s'')
      in case (if k8s then startEventsWatch s (eq_Namespace req) else None) of
           Some e \<Rightarrow> Inl \<lparr>gs_code = Internal, gs_msg = ''events watch: '' @ ee_msg e\<rparr>
         | None \<Rightarrow>
             if source = [] \<or> source = ''audit'' then
               (case Subscribe 0 (w_audit w) of
                  (sub, b) \<Rightarrow> Inr (\<lparr>es_k8sCh = k8s, es_auditCh = True\<rparr>, Some sub, w\<lparr>w_audit := b\<rparr>))
             else Inr (\<lparr>es_k8sCh = k8s, es_auditCh = False\<rparr>, None, w))"

datatype event_pick =
  EvDone | EvK8s "k8s_event watch_event" | EvK8sClosed | EvAudit AuditEvent | EvAuditClosed

text \<open>
  One turn. After a successful \<open>Send\<close> the loop ends if both channels are nil; the branches that set a
  channel to nil go to the next turn without that test.
\<close>

definition event_turn ::
  "ClusterRef \<Rightarrow> string \<Rightarrow> stream_state \<Rightarrow> event_pick \<Rightarrow> (stream_state, EventStreamResponse) turn" where
  "event_turn cl kindFilter st pick =
     (case pick of
        EvDone \<Rightarrow> Finish
      | EvK8s ev \<Rightarrow>
          if \<not> es_k8sCh st then Next st
          else (case we_Object ev of
             None \<Rightarrow> Next st
           | Some ke \<Rightarrow>
               if kindFilter \<noteq> [] \<and> ke_InvolvedKind ke \<noteq> kindFilter then Next st
               else Emit st (buildK8sEvent cl ke) (\<not> es_k8sCh st \<and> \<not> es_auditCh st))
      | EvK8sClosed \<Rightarrow> Next (st\<lparr>es_k8sCh := False\<rparr>)
      | EvAudit ae \<Rightarrow>
          if \<not> es_auditCh st then Next st
          else if kindFilter \<noteq> [] \<and> ae_InvolvedKind ae \<noteq> kindFilter then Next st
          else Emit st (buildAuditEvent cl ae) (\<not> es_k8sCh st \<and> \<not> es_auditCh st)
      | EvAuditClosed \<Rightarrow> Next (st\<lparr>es_auditCh := False\<rparr>))"

definition EventStream_loop ::
  "'c Service \<Rightarrow> EventStreamRequest \<Rightarrow> (nat \<Rightarrow> ext_err option) \<Rightarrow> stream_state \<Rightarrow> event_pick list \<Rightarrow>
     EventStreamResponse list \<times> stream_state verdict" where
  "EventStream_loop s req sends st picks = serve (event_turn (clusterRef s) (eq_Kind req)) sends st picks []"

text \<open>What the deferred calls do when the loop is left.\<close>

definition EventStream_close :: "nat option \<Rightarrow> 'c world \<Rightarrow> 'c world option" where
  "EventStream_close sub w =
     (case sub of
        None \<Rightarrow> Some w
      | Some i \<Rightarrow> map_option (\<lambda>b. w\<lparr>w_audit := b\<rparr>) (cancel i (w_audit w)))"

section \<open>Lemmas\<close>

definition watch_view ::
  "codec \<Rightarrow> unstructured_api \<Rightarrow> ClusterRef \<Rightarrow> string \<Rightarrow> string \<Rightarrow> watch_pick \<Rightarrow> WatchResourcesResponse option" where
  "watch_view cd ua cl kind grp pick =
     (case pick of WatchEvent evt \<Rightarrow> buildWatchEvent cd ua cl kind grp evt | _ \<Rightarrow> None)"

interpretation watch_loop: lossless_forwarder "watch_turn cd ua cl kind grp" "watch_view cd ua cl kind grp"
    "\<lambda>p. p = WatchDone \<or> p = WatchClosed" for cd ua cl kind grp
  by unfold_locales (auto simp: watch_turn_def watch_view_def split: watch_pick.splits option.splits)

text \<open>What a pick stands for when the call holds both channels.\<close>

definition event_view :: "ClusterRef \<Rightarrow> string \<Rightarrow> event_pick \<Rightarrow> EventStreamResponse option" where
  "event_view cl kindFilter pick =
     (case pick of
        EvK8s ev \<Rightarrow>
          Option.bind (we_Object ev)
            (\<lambda>ke. if kindFilter \<noteq> [] \<and> ke_InvolvedKind ke \<noteq> kindFilter then None else Some (buildK8sEvent cl ke))
      | EvAudit ae \<Rightarrow>
          if kindFilter \<noteq> [] \<and> ae_InvolvedKind ae \<noteq> kindFilter then None else Some (buildAuditEvent cl ae)
      | _ \<Rightarrow> None)"

interpretation event_loop: forwarder "event_turn cl kindFilter" "event_view cl kindFilter" "\<lambda>p. p = EvDone"
  for cl kindFilter
  by unfold_locales
    (auto simp: event_turn_def event_view_def split: event_pick.splits option.splits if_splits)

text \<open>
  What a client is to see of an event: its type, the kind and group it asked for, and of the object, when
  there is one, its namespace, its name, its version and the object itself, left out only when it has no
  struct.
\<close>

definition shows_event ::
  "codec \<Rightarrow> unstructured_api \<Rightarrow> ClusterRef \<Rightarrow> string \<Rightarrow> string \<Rightarrow> json watch_event \<Rightarrow> WatchResourcesResponse \<Rightarrow> bool" where
  "shows_event cd ua cl kind grp evt r \<longleftrightarrow>
     wr_Cluster r = cl \<and> wr_EventType r = we_Type evt \<and> wr_Kind r = kind \<and> wr_ApiGroup r = grp \<and>
     (case we_Object evt of
        None \<Rightarrow> wr_Namespace r = [] \<and> wr_Name r = [] \<and> wr_ResourceVersion r = [] \<and> wr_Object r = None
      | Some u \<Rightarrow> wr_Namespace r = u_GetNamespace ua u \<and> wr_Name r = u_GetName ua u \<and>
          wr_ResourceVersion r = u_GetResourceVersion ua u \<and>
          (case structpb_NewStruct cd u of Inr st \<Rightarrow> wr_Object r = Some st | Inl e \<Rightarrow> wr_Object r = None))"

lemma buildWatchEvent_shows:
  "\<exists>resp. buildWatchEvent cd ua cl kind grp evt = Some resp \<and> shows_event cd ua cl kind grp evt resp"
  by (simp add: buildWatchEvent_def shows_event_def Let_def split: option.split sum.split)

lemma WatchResources_ok:
  assumes "WatchResources cd ua s req sends picks = Inr (out, v)"
  shows "serve (watch_turn cd ua (clusterRef s) (wq_Kind req) (firstNonEmpty (wq_ApiGroup req) (CRDAPIGroup (srv_cfg s))))
     sends () picks [] = (out, v)"
  using assms
  by (auto simp: WatchResources_def firstNonEmpty_def Let_def split: option.splits if_splits sum.splits prod.splits)

lemma WatchResources_asked:
  assumes "WatchResources cd ua s req sends picks = Inr (out, v)"
  shows "\<exists>d g namespaced. srv_dyn s = Some d \<and>
    ResolveGVR d (if wq_ApiGroup req = [] then CRDAPIGroup (srv_cfg s) else wq_ApiGroup req) (wq_Kind req) = Inr (g, namespaced) \<and>
    dc_Watch d g (if namespaced \<and> wq_Namespace req \<noteq> [] then Some (wq_Namespace req) else None)
      \<lparr>wo_LabelSelector = wq_LabelSelector req, wo_ResourceVersion = wq_ResourceVersion req,
       wo_AllowWatchBookmarks = True\<rparr> = None"
proof -
  obtain d where d: "srv_dyn s = Some d" "wq_Kind req \<noteq> []"
    using assms by (auto simp: WatchResources_def split: option.splits if_splits)
  let ?grp = "if wq_ApiGroup req = [] then CRDAPIGroup (srv_cfg s) else wq_ApiGroup req"
  obtain g namespaced where g: "ResolveGVR d ?grp (wq_Kind req) = Inr (g, namespaced)"
    using assms d by (cases "ResolveGVR d ?grp (wq_Kind req)") (auto simp: WatchResources_def Let_def)
  show ?thesis
    using assms d g by (intro exI [of _ d] exI [of _ g] exI [of _ namespaced])
      (simp add: WatchResources_def Let_def split: option.splits split del: if_split)
qed

lemma serve_audit_queue:
  assumes "es_auditCh st"
  shows "serve (event_turn cl kindFilter) (\<lambda>_. None) st (map EvAudit es) sent =
    (sent @ map (buildAuditEvent cl) (filter (\<lambda>e. kindFilter = [] \<or> ae_InvolvedKind e = kindFilter) es), Open st)"
  using assms by (induction es arbitrary: sent) (simp_all add: event_turn_def)

lemma event_turn_open:
  assumes "event_turn cl kindFilter st pick = Emit st' x fin"
  shows "st' = st \<and> \<not> fin \<and> (es_k8sCh st \<or> es_auditCh st)"
  using assms by (auto simp: event_turn_def split: event_pick.splits option.splits if_splits)

text \<open>The events among the picks, and that the messages show them one by one.\<close>

definition watched :: "watch_pick list \<Rightarrow> json watch_event list" where
  "watched = List.map_filter (\<lambda>p. case p of WatchEvent e \<Rightarrow> Some e | _ \<Rightarrow> None)"

lemma watched_shown:
  "list_all2 (shows_event cd ua cl kind grp) (watched picks) (List.map_filter (watch_view cd ua cl kind grp) picks)"
proof (induction picks)
  case (Cons p picks)
  show ?case
  proof (cases p)
    case (WatchEvent e)
    obtain resp where "buildWatchEvent cd ua cl kind grp e = Some resp" "shows_event cd ua cl kind grp e resp"
      using buildWatchEvent_shows by blast
    with Cons WatchEvent show ?thesis by (simp add: map_filter_simps watch_view_def watched_def)
  qed (use Cons in \<open>simp_all add: map_filter_simps watch_view_def watched_def\<close>)
qed (simp add: map_filter_simps watched_def)

section \<open>Properties\<close>

text \<open>
  C22. A watch forwards every event of the apiserver, bookmarks and errors included, in order and with all it
  says: the n-th message shows the n-th event, its type, object, name, namespace and version, and none is
  skipped. The watch was asked for with the selector, the version and the namespace of the request. It ends
  without an error only on cancellation or when the apiserver closes it, and then all events before that
  have been sent; with an error only when the client's \<open>Send\<close> fails.
\<close>

theorem WatchResources_forwards:
  assumes "WatchResources cd ua s req sends picks = Inr (out, v)"
    and "grp = (if wq_ApiGroup req = [] then CRDAPIGroup (srv_cfg s) else wq_ApiGroup req)"
  shows "list_all2 (shows_event cd ua (clusterRef s) (wq_Kind req) grp) (take (length out) (watched picks)) out \<and>
    (\<exists>d g namespaced. srv_dyn s = Some d \<and> ResolveGVR d grp (wq_Kind req) = Inr (g, namespaced) \<and>
       dc_Watch d g (if namespaced \<and> wq_Namespace req \<noteq> [] then Some (wq_Namespace req) else None)
         \<lparr>wo_LabelSelector = wq_LabelSelector req, wo_ResourceVersion = wq_ResourceVersion req,
          wo_AllowWatchBookmarks = True\<rparr> = None) \<and>
    (case v of
       Open _ \<Rightarrow> length out = length (watched picks)
     | Ended None \<Rightarrow> \<exists>pre p post. picks = pre @ p # post \<and> p \<in> {WatchDone, WatchClosed} \<and> length out = length (watched pre)
     | Ended (Some e) \<Rightarrow> sends (length out) = Some e
     | Hung \<Rightarrow> False)"
proof -
  let ?turn = "watch_turn cd ua (clusterRef s) (wq_Kind req) grp"
  let ?view = "watch_view cd ua (clusterRef s) (wq_Kind req) grp"
  have run: "serve ?turn sends () picks [] = (out, v)"
    using WatchResources_ok [OF assms(1)] by (cases "wq_ApiGroup req = []") (simp_all add: assms(2) firstNonEmpty_def)
  have "?turn u p \<noteq> Hang" for u p by (auto simp: watch_turn_def split: watch_pick.splits option.splits)
  then have "serve ?turn sends () picks acc \<noteq> (out, Hung)" for acc
    by (induction picks arbitrary: acc) (auto split: turn.splits option.splits)
  then have hung: "v \<noteq> Hung" using run by blast
  have len: "length (List.map_filter ?view ps) = length (watched ps)" for ps
    using watched_shown list_all2_lengthD by metis
  obtain rest where "List.map_filter ?view picks = out @ rest"
    using watch_loop.serve_prefix [OF run] by (auto simp: prefix_def)
  then have shown: "list_all2 (shows_event cd ua (clusterRef s) (wq_Kind req) grp) (take (length out) (watched picks)) out"
    using list_all2_takeI [OF watched_shown [of cd ua "clusterRef s" "wq_Kind req" grp picks], of "length out"] by simp
  have "case v of
       Open _ \<Rightarrow> length out = length (watched picks)
     | Ended None \<Rightarrow> \<exists>pre p post. picks = pre @ p # post \<and> p \<in> {WatchDone, WatchClosed} \<and> length out = length (watched pre)
     | Ended (Some e) \<Rightarrow> sends (length out) = Some e
     | Hung \<Rightarrow> False"
  proof (cases v)
    case (Open u)
    then show ?thesis using watch_loop.serve_open run len by fastforce
  next
    case (Ended err)
    then show ?thesis
      using watch_loop.serve_stops [of cd ua "clusterRef s" "wq_Kind req" grp sends "()" picks "[]" out]
        watch_loop.serve_failed [of cd ua "clusterRef s" "wq_Kind req" grp sends "()" picks "[]" out] run len
      by (cases err) fastforce+
  qed (use hung in simp)
  with shown WatchResources_asked [OF assms(1)] show ?thesis unfolding assms(2) by blast
qed

text \<open>
  C10. An event stream ends without an error only when the client cancels. Whatever channels it holds,
  and also when it holds none (both sources gone, or a source name that is neither \<open>k8s\<close> nor
  \<open>audit\<close>), it stays open: the test for both channels being nil never succeeds.
\<close>

theorem EventStream_only_cancel_ends:
  "(EventStream_loop s req sends st picks = (out, Ended None) \<longrightarrow> EvDone \<in> set picks) \<and>
   (\<not> es_k8sCh st \<and> \<not> es_auditCh st \<and> EvDone \<notin> set picks \<longrightarrow>
      EventStream_loop s req sends st picks = ([], Open st))"
proof (intro conjI impI)
  assume "EventStream_loop s req sends st picks = (out, Ended None)"
  then show "EvDone \<in> set picks"
    using event_loop.serve_ended unfolding EventStream_loop_def by fastforce
next
  assume "\<not> es_k8sCh st \<and> \<not> es_auditCh st \<and> EvDone \<notin> set picks"
  then show "EventStream_loop s req sends st picks = ([], Open st)"
    unfolding EventStream_loop_def
    by (cases st, hypsubst, induction picks) (auto simp: event_turn_def split: event_pick.splits)
qed

text \<open>
  C20. A stream of audit events that reads what its subscription holds has sent, after any publications
  made since it was opened, exactly the first 64 of them whose kind passes the filter, in order.
\<close>

theorem EventStream_sees_audit:
  assumes "broker_inv (w_audit w)"
    and "EventStream_open cd s req w = Inr (st, Some sub, w1)"
    and "publish_each publish_event ms (w_audit w1) = Some b"
  shows "EventStream_loop s req (\<lambda>_. None) st (map EvAudit (pending b sub)) =
    (map (buildAuditEvent (clusterRef s))
       (filter (\<lambda>e. eq_Kind req = [] \<or> ae_InvolvedKind e = eq_Kind req)
          (take 64 (map (\<lambda>m. stamp (fst m) (snd m)) ms))), Open st)"
proof -
  obtain bb where "Subscribe 0 (w_audit w) = (sub, bb)" "w_audit w1 = bb" "es_auditCh st"
    using assms(2) by (auto simp: EventStream_open_def Let_def split: option.splits if_splits prod.splits)
  then have "pending b sub = take 64 (map (\<lambda>m. stamp (fst m) (snd m)) ms)"
    using bus.subscribe_then_publish [OF assms(1), of sub bb ms] assms(3) by (auto simp: defaultBufSize_def)
  then show ?thesis
    using serve_audit_queue [OF \<open>es_auditCh st\<close>] by (simp add: EventStream_loop_def)
qed

section \<open>Witnesses\<close>

lemma WatchResources_forwards_witness:
  "\<exists>out. WatchResources ex_codec_of ex_unstructured (ex_svc None)
       \<lparr>wq_Kind = ''Rule'', wq_ApiGroup = [], wq_Namespace = [], wq_LabelSelector = [], wq_ResourceVersion = []\<rparr>
       (\<lambda>_. None) [WatchEvent \<lparr>we_Type = ''ADDED'', we_Object = Some (ex_obj ''a'')\<rparr>,
         WatchEvent \<lparr>we_Type = ''ERROR'', we_Object = None\<rparr>, WatchClosed] = Inr (out, Ended None) \<and>
     map wr_Name out = [''a'', []] \<and> map wr_EventType out = [''ADDED'', ''ERROR'']"
proof -
  let ?req = "\<lparr>wq_Kind = ''Rule'', wq_ApiGroup = [], wq_Namespace = [], wq_LabelSelector = [], wq_ResourceVersion = []\<rparr>"
  let ?picks = "[WatchEvent \<lparr>we_Type = ''ADDED'', we_Object = Some (ex_obj ''a'')\<rparr>,
      WatchEvent \<lparr>we_Type = ''ERROR'', we_Object = None\<rparr>, WatchClosed]"
  obtain out where *: "WatchResources ex_codec_of ex_unstructured (ex_svc None) ?req (\<lambda>_. None) ?picks = Inr (out, Ended None)"
    "length out = 2"
    by (simp add: WatchResources_def ex_svc_def ex_dyn_def ResolveGVR_def ex_config_def watch_turn_def
        buildWatchEvent_def Let_def ex_codec_of_def)
  have evts: "watched ?picks = [\<lparr>we_Type = ''ADDED'', we_Object = Some (ex_obj ''a'')\<rparr>, \<lparr>we_Type = ''ERROR'', we_Object = None\<rparr>]"
    by (simp add: watched_def map_filter_simps)
  note shown = WatchResources_forwards [OF *(1) refl, THEN conjunct1, unfolded evts]
  then obtain r1 r2 where out: "out = [r1, r2]" using *(2) by (auto simp: length_Suc_conv numeral_2_eq_2)
  then have "wr_Name r1 = u_GetName ex_unstructured (ex_obj ''a'')" "wr_EventType r1 = ''ADDED''"
    "wr_Name r2 = []" "wr_EventType r2 = ''ERROR''"
    using shown by (simp_all add: shows_event_def)
  moreover have "u_GetName ex_unstructured (ex_obj ''a'') = ''a''"
    by (simp add: ex_unstructured_def ex_obj_def struct_string_def struct_field_def)
  ultimately have "map wr_Name out = [''a'', []] \<and> map wr_EventType out = [''ADDED'', ''ERROR'']"
    by (simp add: out)
  with *(1) show ?thesis by (intro exI [of _ out] conjI) simp_all
qed

lemma EventStream_only_cancel_ends_witness:
  "EventStream_loop (ex_svc None) \<lparr>eq_Namespace = [], eq_Kind = [], eq_Source = ''both''\<rparr> (\<lambda>_. None)
     \<lparr>es_k8sCh = False, es_auditCh = False\<rparr> [EvK8sClosed, EvAuditClosed] =
   ([], Open \<lparr>es_k8sCh = False, es_auditCh = False\<rparr>)"
  using EventStream_only_cancel_ends [of "ex_svc None" "\<lparr>eq_Namespace = [], eq_Kind = [], eq_Source = ''both''\<rparr>"
      "\<lambda>_. None" "\<lparr>es_k8sCh = False, es_auditCh = False\<rparr>" "[EvK8sClosed, EvAuditClosed]"]
  by simp

lemma EventStream_sees_audit_witness:
  "\<exists>st sub w1 b. EventStream_open ex_codec_of (ex_svc None) \<lparr>eq_Namespace = [], eq_Kind = [], eq_Source = ''audit''\<rparr>
      (ex_world []) = Inr (st, Some sub, w1) \<and>
    publish_each publish_event [(zero_time, ex_event ''r'')] (w_audit w1) = Some b \<and>
    length (fst (EventStream_loop (ex_svc None) \<lparr>eq_Namespace = [], eq_Kind = [], eq_Source = ''audit''\<rparr> (\<lambda>_. None) st
       (map EvAudit (pending b sub)))) = 1"
proof -
  let ?req = "\<lparr>eq_Namespace = [], eq_Kind = [], eq_Source = ''audit''\<rparr>"
  obtain sub bb where sub: "Subscribe 0 (w_audit (ex_world [])) = (sub, bb)" by fastforce
  have "ToLower ex_codec_of ''audit'' = ''audit''" by (simp add: ToLower_def)
  then have op: "EventStream_open ex_codec_of (ex_svc None) ?req (ex_world []) =
      Inr (\<lparr>es_k8sCh = False, es_auditCh = True\<rparr>, Some sub, (ex_world [])\<lparr>w_audit := bb\<rparr>)"
    by (simp add: EventStream_open_def sub)
  obtain b where b: "publish_each publish_event [(zero_time, ex_event ''r'')] bb = Some b"
    using bus.publish_total [OF Subscribe_inv [OF ex_world_inv sub], of "(zero_time, ex_event ''r'')"] by auto
  with EventStream_sees_audit [OF ex_world_inv op, of "[(zero_time, ex_event ''r'')]" b] op show ?thesis by simp
qed

end
