(* ===== verification/McpServer.thy ===== *)
theory McpServer
  imports GoStrings
begin

text \<open>
  \<open>internal/mcp\<close>: the JSON-RPC types, the tool registry (\<open>RegisterTool\<close>), the dispatcher and the
  HTTP handler. A tool's \<open>Call\<close> reads and writes a world \<open>'w\<close> (the service behind it) and may panic.
  The JSON text of the messages is a record of functions that the handlers take; \<open>McpJson\<close> gives the one
  of \<open>encoding/json\<close>.
\<close>

section \<open>Types (types.go)\<close>

definition ProtocolVersion :: string where
  "ProtocolVersion = ''2024-11-05''"

definition ErrCodeParse :: int where "ErrCodeParse = -32700"
definition ErrCodeInvalidReq :: int where "ErrCodeInvalidReq = -32600"
definition ErrCodeMethodNotFound :: int where "ErrCodeMethodNotFound = -32601"
definition ErrCodeInvalidParams :: int where "ErrCodeInvalidParams = -32602"
definition ErrCodeInternal :: int where "ErrCodeInternal = -32603"

lemmas err_codes =
  ErrCodeParse_def ErrCodeInvalidReq_def ErrCodeMethodNotFound_def ErrCodeInvalidParams_def
  ErrCodeInternal_def

record Request =
  rq_JSONRPC :: string
  rq_ID :: string
  rq_Method :: string
  rq_Params :: string

record Error =
  er_Code :: int
  er_Message :: string

record InitializeParams =
  ip_ProtocolVersion :: string
  ip_ClientName :: string
  ip_ClientVersion :: string

record ServerCapabilities =
  cap_Tools_ListChanged :: "bool option"
  cap_Resources :: "(bool \<times> bool) option"

record ServerInfo =
  si_Name :: string
  si_Version :: string

record InitializeResult =
  ir_ProtocolVersion :: string
  ir_Capabilities :: ServerCapabilities
  ir_ServerInfo :: ServerInfo

record Tool =
  tl_Name :: string
  tl_Description :: string
  tl_InputSchema :: string

record CallToolParams =
  cp_Name :: string
  cp_Arguments :: string

record Content =
  ct_Type :: string
  ct_Text :: string

record CallToolResult =
  cr_Content :: "Content list"
  cr_IsError :: bool

datatype rpc_result =
    RInitialize InitializeResult
  | RTools "Tool list"
  | RCall CallToolResult
  | RPing

record Response =
  rs_JSONRPC :: string
  rs_ID :: string
  rs_Result :: "rpc_result option"
  rs_Error :: "Error option"

definition text_result :: "string \<Rightarrow> CallToolResult" where
  "text_result t = \<lparr>cr_Content = [\<lparr>ct_Type = ''text'', ct_Text = t\<rparr>], cr_IsError = False\<rparr>"

section \<open>Tools and the server (server.go)\<close>

text \<open>What a call of a tool comes to: a result, an error (its text), a panic, or no return.\<close>

datatype call_outcome = CallOk CallToolResult | CallErr string | CallPanic | CallHang

record 'w ToolHandler =
  th_Name :: string
  th_Description :: string
  th_InputSchema :: string
  th_Call :: "string \<Rightarrow> 'w \<Rightarrow> call_outcome \<times> 'w"

record 'w Server =
  sv_name :: string
  sv_version :: string
  sv_tools :: "string \<rightharpoonup> 'w ToolHandler"

datatype register_error = NilTool | EmptyToolName | AlreadyRegistered string

definition NewServer :: "string \<Rightarrow> string \<Rightarrow> 'w Server" where
  "NewServer name version = \<lparr>sv_name = name, sv_version = version, sv_tools = Map.empty\<rparr>"

definition RegisterTool :: "'w ToolHandler option \<Rightarrow> 'w Server \<Rightarrow> register_error option \<times> 'w Server" where
  "RegisterTool t s =
     (case t of
        None \<Rightarrow> (Some NilTool, s)
      | Some th \<Rightarrow>
          let n = th_Name th in
          if n = [] then (Some EmptyToolName, s)
          else if sv_tools s n \<noteq> None then (Some (AlreadyRegistered n), s)
          else (None, s\<lparr>sv_tools := (sv_tools s)(n \<mapsto> th)\<rparr>))"

text \<open>\<open>isNotification\<close>: no id, or white space and the literal \<open>null\<close>.\<close>

fun strip_ws :: "string \<Rightarrow> string" where
  "strip_ws [] = []"
| "strip_ws (c # cs) =
     (if c = CHR '' '' \<or> c = CHR 0x09 \<or> c = CHR 0x0A \<or> c = CHR 0x0D then strip_ws cs else c # cs)"

definition isNotification :: "Request \<Rightarrow> bool" where
  "isNotification req \<longleftrightarrow> rq_ID req = [] \<or> strip_ws (rq_ID req) = ''null''"

text \<open>
  The coding of \<open>encoding/json\<close>: the envelope from the bytes read (and whether the body ended in a
  read error), the parameter objects, and a response to its bytes. An error is its text.
\<close>

record json_codec =
  jc_request :: "string \<Rightarrow> bool \<Rightarrow> string + Request"
  jc_init_params :: "string \<Rightarrow> string + InitializeParams"
  jc_call_params :: "string \<Rightarrow> string + CallToolParams"
  jc_encode :: "Response \<Rightarrow> string + string"

text \<open>
  \<open>tools/list\<close> visits the registry in an order Go does not fix (\<open>ord\<close>, the visited names) and then
  sorts by name.
\<close>

definition list_tools :: "Tool sorter \<Rightarrow> string list \<Rightarrow> 'w Server \<Rightarrow> Tool list" where
  "list_tools srt ord s =
     srt (\<lambda>x y. tl_Name x < tl_Name y)
       (map (\<lambda>t. \<lparr>tl_Name = th_Name t, tl_Description = th_Description t,
                   tl_InputSchema = th_InputSchema t\<rparr>)
          (List.map_filter (sv_tools s) ord))"

datatype dispatch_outcome = Replied Response bool | DispatchPanic | DispatchHang

definition initialize_result :: "'w Server \<Rightarrow> InitializeResult" where
  "initialize_result s =
     \<lparr>ir_ProtocolVersion = ProtocolVersion,
      ir_Capabilities = \<lparr>cap_Tools_ListChanged = Some False, cap_Resources = Some (False, False)\<rparr>,
      ir_ServerInfo = \<lparr>si_Name = sv_name s, si_Version = sv_version s\<rparr>\<rparr>"

definition Dispatch ::
  "json_codec \<Rightarrow> Tool sorter \<Rightarrow> string list \<Rightarrow> 'w Server \<Rightarrow> Request \<Rightarrow> 'w \<Rightarrow> dispatch_outcome \<times> 'w" where
  "Dispatch jc srt ord s req w =
     (let resp = \<lparr>rs_JSONRPC = ''2.0'', rs_ID = rq_ID req, rs_Result = None, rs_Error = None\<rparr>;
          send = (\<not> isNotification req);
          fail = (\<lambda>code msg. Replied (resp\<lparr>rs_Error := Some \<lparr>er_Code = code, er_Message = msg\<rparr>\<rparr>) send);
          ok = (\<lambda>r. Replied (resp\<lparr>rs_Result := Some r\<rparr>) send)
      in
      if rq_Method req = ''initialize'' then
        (if rq_Params req \<noteq> [] then
           (case jc_init_params jc (rq_Params req) of
              Inl e \<Rightarrow> (fail ErrCodeInvalidParams e, w)
            | Inr p \<Rightarrow> (ok (RInitialize (initialize_result s)), w))
         else (ok (RInitialize (initialize_result s)), w))
      else if rq_Method req = ''notifications/initialized'' then (Replied resp False, w)
      else if rq_Method req = ''tools/list'' then (ok (RTools (list_tools srt ord s)), w)
      else if rq_Method req = ''tools/call'' then
        (case jc_call_params jc (rq_Params req) of
           Inl e \<Rightarrow> (fail ErrCodeInvalidParams e, w)
         | Inr p \<Rightarrow>
             (case sv_tools s (cp_Name p) of
                None \<Rightarrow> (fail ErrCodeMethodNotFound (''tool not found: '' @ cp_Name p), w)
              | Some t \<Rightarrow>
                  (case th_Call t (cp_Arguments p) w of
                     (CallErr e, w') \<Rightarrow> (ok (RCall ((text_result e)\<lparr>cr_IsError := True\<rparr>)), w')
                   | (CallOk r, w') \<Rightarrow> (ok (RCall r), w')
                   | (CallPanic, w') \<Rightarrow> (DispatchPanic, w')
                   | (CallHang, w') \<Rightarrow> (DispatchHang, w'))))
      else if rq_Method req = ''ping'' then (ok RPing, w)
      else (fail ErrCodeMethodNotFound (''method not found: '' @ rq_Method req), w))"

section \<open>The HTTP handler (http.go)\<close>

definition MaxRequestBytes :: nat where
  "MaxRequestBytes = 2 ^ 20"

record http_request =
  hr_method :: string
  hr_path :: string
  hr_body :: string

record http_response =
  hs_status :: nat
  hs_ctype :: string
  hs_body :: string

text \<open>
  A handler writes its response, panics, or does not return. \<open>ServeHTTP\<close> recovers a panic of its own
  (of a tool, before the header is written) and answers it with status 500.
\<close>

datatype 'r served = Served 'r | ServePanic | ServeHang

text \<open>\<open>http.Error\<close>\<close>

definition http_Error :: "string \<Rightarrow> nat \<Rightarrow> http_response" where
  "http_Error msg code =
     \<lparr>hs_status = code, hs_ctype = ''text/plain; charset=utf-8'', hs_body = msg @ [CHR 0x0A]\<rparr>"

text \<open>What \<open>http.MaxBytesReader\<close> lets through: the capped bytes, and whether reading them fails.\<close>

definition capped_body :: "string \<Rightarrow> string \<times> bool" where
  "capped_body body = (take MaxRequestBytes body, length body > MaxRequestBytes)"

text \<open>A response is encoded whole before a byte of it is written: a failure leaves the body empty.\<close>

definition write_response :: "json_codec \<Rightarrow> Response \<Rightarrow> http_response" where
  "write_response jc resp =
     \<lparr>hs_status = 200, hs_ctype = ''application/json; charset=utf-8'',
      hs_body = (case jc_encode jc resp of Inl e \<Rightarrow> [] | Inr b \<Rightarrow> b)\<rparr>"

definition writeJSONRPCError :: "json_codec \<Rightarrow> string \<Rightarrow> int \<Rightarrow> string \<Rightarrow> http_response" where
  "writeJSONRPCError jc rid code msg =
     write_response jc
       \<lparr>rs_JSONRPC = ''2.0'', rs_ID = rid, rs_Result = None,
        rs_Error = Some \<lparr>er_Code = code, er_Message = msg\<rparr>\<rparr>"

definition ServeHTTP ::
  "json_codec \<Rightarrow> Tool sorter \<Rightarrow> string list \<Rightarrow> 'w Server \<Rightarrow> http_request \<Rightarrow> 'w \<Rightarrow>
     http_response served \<times> 'w" where
  "ServeHTTP jc srt ord s r w =
     (if hr_method r \<noteq> ''POST'' then (Served (http_Error ''method not allowed'' 405), w)
      else let (body, cut) = capped_body (hr_body r) in
        case jc_request jc body cut of
          Inl e \<Rightarrow> (Served (writeJSONRPCError jc [] ErrCodeParse (''parse error: '' @ e)), w)
        | Inr req \<Rightarrow>
            if rq_JSONRPC req \<noteq> ''2.0'' then
              (Served (writeJSONRPCError jc (rq_ID req) ErrCodeInvalidReq ''jsonrpc must be 2.0''), w)
            else if rq_Method req = [] then
              (Served (writeJSONRPCError jc (rq_ID req) ErrCodeInvalidReq ''method is required''), w)
            else
              (case Dispatch jc srt ord s req w of
                 (DispatchPanic, w') \<Rightarrow> (Served (http_Error ''internal server error'' 500), w')
               | (DispatchHang, w') \<Rightarrow> (ServeHang, w')
               | (Replied resp hasResponse, w') \<Rightarrow>
                   if \<not> hasResponse then (Served \<lparr>hs_status = 202, hs_ctype = [], hs_body = []\<rparr>, w')
                   else (Served (write_response jc resp), w')))"

section \<open>The registry as an interface\<close>

text \<open>Registering a list of tools, stopping at the first error (the loops of \<open>buildMCPServer\<close>).\<close>

fun register_each :: "('t \<Rightarrow> 's \<Rightarrow> 'e option \<times> 's) \<Rightarrow> 't list \<Rightarrow> 's \<Rightarrow> 'e option \<times> 's" where
  "register_each reg [] s = (None, s)"
| "register_each reg (t # ts) s =
     (case reg t s of
        (Some e, s') \<Rightarrow> (Some e, s')
      | (None, s') \<Rightarrow> register_each reg ts s')"

text \<open>
  What a client of a registry relies on: a fresh, non-empty name is accepted and becomes visible,
  nothing else changes; a used or empty name is refused and changes nothing.
\<close>

locale tool_registry =
  fixes register :: "'t \<Rightarrow> 's \<Rightarrow> 'e option \<times> 's"
    and lookup :: "'s \<Rightarrow> string \<Rightarrow> 't option"
    and name :: "'t \<Rightarrow> string"
  assumes register_fresh:
      "name t \<noteq> [] \<Longrightarrow> lookup s (name t) = None \<Longrightarrow>
         \<exists>s'. register t s = (None, s') \<and> lookup s' = (lookup s)(name t \<mapsto> t)"
    and register_refused:
      "name t = [] \<or> lookup s (name t) \<noteq> None \<Longrightarrow> \<exists>e. register t s = (Some e, s)"
begin

lemma register_each_fresh:
  assumes "distinct (map name ts)" and "[] \<notin> name ` set ts" and "\<forall>t \<in> set ts. lookup s (name t) = None"
  shows "\<exists>s'. register_each register ts s = (None, s') \<and>
              lookup s' = lookup s ++ map_of (map (\<lambda>t. (name t, t)) ts)"
  using assms
proof (induction ts arbitrary: s)
  case (Cons t ts)
  obtain s1 where s1: "register t s = (None, s1)" "lookup s1 = (lookup s)(name t \<mapsto> t)"
    using register_fresh [of t s] Cons.prems by auto
  have "\<forall>u \<in> set ts. lookup s1 (name u) = None"
  proof
    fix u assume "u \<in> set ts"
    then have "name u \<noteq> name t" using Cons.prems(1) by (auto simp: image_iff)
    then show "lookup s1 (name u) = None" using s1(2) Cons.prems(3) \<open>u \<in> set ts\<close> by simp
  qed
  then obtain s2 where s2: "register_each register ts s1 = (None, s2)"
    "lookup s2 = lookup s1 ++ map_of (map (\<lambda>t. (name t, t)) ts)"
    using Cons.IH [of s1] Cons.prems by auto
  have "name t \<notin> dom (map_of (map (\<lambda>t. (name t, t)) ts))"
    using Cons.prems(1) by (simp add: dom_map_of_conv_image_fst image_image)
  then have "lookup s2 = (lookup s ++ map_of (map (\<lambda>t. (name t, t)) ts))(name t \<mapsto> t)"
    using s1(2) s2(2) by (simp add: map_add_upd_left)
  then have "lookup s2 = lookup s ++ map_of (map (\<lambda>t. (name t, t)) (t # ts))" by simp
  then show ?case using s1(1) s2(1) by (simp del: map_of.simps)
qed simp

text \<open>No lookup ever changes once it is defined.\<close>

lemma register_keeps: "register t s = (r, s') \<Longrightarrow> lookup s n = Some u \<Longrightarrow> lookup s' n = Some u"
  using register_fresh [of t s] register_refused [of t s]
  by (cases "name t = [] \<or> lookup s (name t) \<noteq> None") auto

lemma register_each_keeps:
  "register_each register ts s = (r, s') \<Longrightarrow> lookup s n = Some u \<Longrightarrow> lookup s' n = Some u"
proof (induction ts arbitrary: s)
  case (Cons t ts)
  then show ?case by (auto split: prod.splits option.splits dest: register_keeps)
qed simp

end

definition registry_ok :: "'w Server \<Rightarrow> bool" where
  "registry_ok s \<longleftrightarrow> (\<forall>n t. sv_tools s n = Some t \<longrightarrow> th_Name t = n \<and> n \<noteq> [])"

lemma registry_ok_New [simp]: "registry_ok (NewServer n v)"
  by (simp add: registry_ok_def NewServer_def)

lemma registry_ok_Register:
  "registry_ok s \<Longrightarrow> RegisterTool t s = (r, s') \<Longrightarrow> registry_ok s'"
  unfolding registry_ok_def RegisterTool_def Let_def
  by (auto split: option.splits if_splits; blast?)

lemma RegisterTool_identity:
  "sv_name (snd (RegisterTool t s)) = sv_name s" "sv_version (snd (RegisterTool t s)) = sv_version s"
  by (auto simp: RegisterTool_def Let_def split: option.splits)

interpretation tools_reg: tool_registry "\<lambda>t. RegisterTool (Some t)" sv_tools th_Name
  by unfold_locales (auto simp: RegisterTool_def Let_def)

section \<open>Lemmas: listing\<close>

abbreviation tool_of :: "'w ToolHandler \<Rightarrow> Tool" where
  "tool_of t \<equiv> \<lparr>tl_Name = th_Name t, tl_Description = th_Description t,
                 tl_InputSchema = th_InputSchema t\<rparr>"

lemma map_filter_dom: "set ns \<subseteq> dom m \<Longrightarrow> List.map_filter m ns = map (\<lambda>n. the (m n)) ns"
  by (induction ns) auto

lemma listed_names:
  assumes "registry_ok s" and "set ord \<subseteq> dom (sv_tools s)"
  shows "map tl_Name (map tool_of (List.map_filter (sv_tools s) ord)) = ord"
  using assms by (auto simp: map_filter_dom registry_ok_def intro!: map_idI)

lemma list_tools_sort_key:
  assumes "slice_sort srt" "registry_ok s" "distinct ord" "set ord = dom (sv_tools s)"
    and "mset ord' = mset ord"
  shows "list_tools srt ord s = sort_key tl_Name (map tool_of (List.map_filter (sv_tools s) ord'))"
proof -
  have set_eq: "set ord' = set ord" using assms(5) by (metis set_mset_mset)
  let ?f = "\<lambda>n. tool_of (the (sv_tools s n))"
  have map_eq: "map tool_of (List.map_filter (sv_tools s) ns) = map ?f ns" if "set ns = set ord" for ns
    using that assms(4) by (simp add: map_filter_dom)
  have "mset (map ?f ord) = mset (map ?f ord')" using assms(5) by simp
  moreover have "map tl_Name (map ?f ord) = ord"
    using listed_names [OF assms(2), of ord] assms(4) map_eq [of ord] by simp
  then have "distinct (map tl_Name (map ?f ord))" using assms(3) by (rule ssubst)
  ultimately have "srt (\<lambda>x y. tl_Name x < tl_Name y) (map ?f ord) = sort_key tl_Name (map ?f ord')"
    by (rule slice_sort.srt_key_unique [OF assms(1)])
  then show ?thesis by (simp only: list_tools_def map_eq set_eq)
qed

lemma strip_ws_null: "strip_ws s = CHR ''n'' # t \<longleftrightarrow>
    (\<exists>ws. set ws \<subseteq> {CHR '' '', CHR 0x09, CHR 0x0A, CHR 0x0D} \<and> s = ws @ CHR ''n'' # t)"
  (is "_ \<longleftrightarrow> (\<exists>ws. ?W ws \<and> _)")
proof (induction s)
  case (Cons c cs)
  show ?case
  proof (cases "c \<in> {CHR '' '', CHR 0x09, CHR 0x0A, CHR 0x0D}")
    case True
    then have "strip_ws (c # cs) = strip_ws cs" by auto
    moreover have "(\<exists>ws. ?W ws \<and> c # cs = ws @ CHR ''n'' # t) \<longleftrightarrow> (\<exists>ws. ?W ws \<and> cs = ws @ CHR ''n'' # t)"
    proof
      assume "\<exists>ws. ?W ws \<and> c # cs = ws @ CHR ''n'' # t"
      then obtain ws where "?W ws" "c # cs = ws @ CHR ''n'' # t" by blast
      then show "\<exists>ws. ?W ws \<and> cs = ws @ CHR ''n'' # t" using True by (cases ws) auto
    next
      assume "\<exists>ws. ?W ws \<and> cs = ws @ CHR ''n'' # t"
      then obtain ws where "?W ws" "cs = ws @ CHR ''n'' # t" by blast
      then have "?W (c # ws) \<and> c # cs = (c # ws) @ CHR ''n'' # t" using True by auto
      then show "\<exists>ws. ?W ws \<and> c # cs = ws @ CHR ''n'' # t" by blast
    qed
    ultimately show ?thesis using Cons by simp
  next
    case False
    then have "strip_ws (c # cs) = c # cs" by auto
    moreover have "(\<exists>ws. ?W ws \<and> c # cs = ws @ CHR ''n'' # t) \<longleftrightarrow> c # cs = CHR ''n'' # t"
    proof
      assume "\<exists>ws. ?W ws \<and> c # cs = ws @ CHR ''n'' # t"
      then obtain ws where "?W ws" "c # cs = ws @ CHR ''n'' # t" by blast
      then show "c # cs = CHR ''n'' # t" using False by (cases ws) auto
    next
      assume "c # cs = CHR ''n'' # t"
      then show "\<exists>ws. ?W ws \<and> c # cs = ws @ CHR ''n'' # t" by (intro exI [of _ "[]"]) simp
    qed
    ultimately show ?thesis by simp
  qed
qed simp

section \<open>Lemmas: dispatch\<close>

lemma isNotification_iff:
  "isNotification req \<longleftrightarrow> rq_ID req = [] \<or>
     (\<exists>ws. set ws \<subseteq> {CHR '' '', CHR 0x09, CHR 0x0A, CHR 0x0D} \<and> rq_ID req = ws @ ''null'')"
  using strip_ws_null [of "rq_ID req" "''ull''"] by (simp add: isNotification_def)

lemmas dispatch_cases =
  if_splits sum.splits option.splits call_outcome.splits prod.splits

text \<open>The envelope of every reply.\<close>

definition reply_ok :: "Request \<Rightarrow> Response \<Rightarrow> bool \<Rightarrow> bool" where
  "reply_ok req resp send \<longleftrightarrow>
     rs_JSONRPC resp = ''2.0'' \<and> rs_ID resp = rq_ID req \<and>
     send = (\<not> isNotification req \<and> rq_Method req \<noteq> ''notifications/initialized'') \<and>
     ((rs_Result resp = None \<and> rs_Error resp = None) = (rq_Method req = ''notifications/initialized'')) \<and>
     \<not> (rs_Result resp \<noteq> None \<and> rs_Error resp \<noteq> None)"

lemma Dispatch_reply_ok:
  "fst (Dispatch jc srt ord s req w) = Replied resp send \<Longrightarrow> reply_ok req resp send"
  by (auto simp: Dispatch_def Let_def reply_ok_def split: dispatch_cases)

text \<open>Only a registered tool, called by \<open>tools/call\<close>, touches the world, panics or does not return.\<close>

lemma Dispatch_world:
  "snd (Dispatch jc srt ord s req w) =
     (if rq_Method req = ''tools/call'' then
        (case jc_call_params jc (rq_Params req) of
           Inl e \<Rightarrow> w
         | Inr p \<Rightarrow> (case sv_tools s (cp_Name p) of
                      None \<Rightarrow> w | Some t \<Rightarrow> snd (th_Call t (cp_Arguments p) w)))
      else w)"
  by (auto simp: Dispatch_def Let_def split: dispatch_cases)

lemma Dispatch_panic:
  "fst (Dispatch jc srt ord s req w) = DispatchPanic \<longleftrightarrow>
     rq_Method req = ''tools/call'' \<and>
     (\<exists>p t. jc_call_params jc (rq_Params req) = Inr p \<and> sv_tools s (cp_Name p) = Some t \<and>
        fst (th_Call t (cp_Arguments p) w) = CallPanic)"
  by (auto simp: Dispatch_def Let_def split: dispatch_cases)

lemma Dispatch_hang:
  "fst (Dispatch jc srt ord s req w) = DispatchHang \<longleftrightarrow>
     rq_Method req = ''tools/call'' \<and>
     (\<exists>p t. jc_call_params jc (rq_Params req) = Inr p \<and> sv_tools s (cp_Name p) = Some t \<and>
        fst (th_Call t (cp_Arguments p) w) = CallHang)"
  by (auto simp: Dispatch_def Let_def split: dispatch_cases)

lemma Dispatch_hangD:
  "Dispatch jc srt ord s req w = (DispatchHang, w') \<Longrightarrow>
     rq_Method req = ''tools/call'' \<and> (\<exists>t \<in> ran (sv_tools s). \<exists>a. fst (th_Call t a w) = CallHang)"
  using Dispatch_hang [of jc srt ord s req w] by (auto intro: ranI)

lemma Dispatch_panicD:
  "Dispatch jc srt ord s req w = (DispatchPanic, w') \<Longrightarrow>
     rq_Method req = ''tools/call'' \<and> (\<exists>t \<in> ran (sv_tools s). \<exists>a. fst (th_Call t a w) = CallPanic)"
  using Dispatch_panic [of jc srt ord s req w] by (auto intro: ranI)

lemma Dispatch_worldD:
  "Dispatch jc srt ord s req w = (out, w') \<Longrightarrow> w' \<noteq> w \<Longrightarrow> rq_Method req = ''tools/call''"
  using Dispatch_world [of jc srt ord s req w] by (auto split: if_splits)

section \<open>Properties\<close>

text \<open>
  Registration: a non-nil tool with a fresh, non-empty name is added under its own name; every
  other call is refused with the error of its cause and leaves the server as it was.
\<close>

theorem RegisterTool_spec:
  "RegisterTool t s =
     (case t of
        Some th \<Rightarrow>
          if th_Name th \<noteq> [] \<and> th_Name th \<notin> dom (sv_tools s)
          then (None, s\<lparr>sv_tools := (sv_tools s)(th_Name th \<mapsto> th)\<rparr>)
          else (Some (if th_Name th = [] then EmptyToolName else AlreadyRegistered (th_Name th)), s)
      | None \<Rightarrow> (Some NilTool, s))"
  by (auto simp: RegisterTool_def Let_def split: option.splits)

text \<open>
  \<open>tools/list\<close> is reproducible: whatever order the registry is visited in and whichever
  conforming sort is used, the list is the same, in strictly ascending order of names.
\<close>

theorem list_tools_deterministic:
  assumes "slice_sort srt" and "slice_sort srt'" and "registry_ok s"
    and "distinct ord" and "set ord = dom (sv_tools s)"
    and "distinct ord'" and "set ord' = dom (sv_tools s)"
  shows "list_tools srt ord s = list_tools srt' ord' s \<and>
         sorted_wrt (<) (map tl_Name (list_tools srt ord s)) \<and>
         set (map tl_Name (list_tools srt ord s)) = dom (sv_tools s)"
proof -
  let ?ts = "map tool_of (List.map_filter (sv_tools s) ord)"
  have m: "mset ord' = mset ord"
    using assms(5,7) by (simp only: set_eq_iff_mset_eq_distinct [OF assms(6,4), symmetric])
  have eq: "list_tools srt ord s = sort_key tl_Name ?ts"
    by (rule list_tools_sort_key [OF assms(1,3,4,5)]) simp
  have eq': "list_tools srt' ord' s = sort_key tl_Name ?ts"
    by (rule list_tools_sort_key [OF assms(2,3,6,7)]) (simp add: m)
  have names: "map tl_Name ?ts = ord" using listed_names [OF assms(3)] assms(5) by simp
  have mn: "mset (map tl_Name (sort_key tl_Name ?ts)) = mset ord"
    using names by (simp only: mset_map mset_sort) (metis mset_map)
  have "distinct (map tl_Name (sort_key tl_Name ?ts))"
    using mset_eq_imp_distinct_iff [OF mn] assms(4) by simp
  then have "sorted_wrt (<) (map tl_Name (sort_key tl_Name ?ts))"
    using sorted_sort_key [of tl_Name ?ts] by (simp only: strict_sorted_iff simp_thms)
  moreover have "set (map tl_Name (sort_key tl_Name ?ts)) = dom (sv_tools s)"
    using mset_eq_setD [OF mn] assms(5) by simp
  ultimately show ?thesis by (simp only: eq eq' simp_thms)
qed

text \<open>
  Every reply echoes the request's id and version, carries exactly one of a result and an error,
  and is sent exactly when the request is no notification; the one method answered with nothing is
  \<open>notifications/initialized\<close>.
\<close>

theorem Dispatch_envelope:
  "case fst (Dispatch jc srt ord s req w) of
     Replied resp send \<Rightarrow> reply_ok req resp send
   | _ \<Rightarrow> rq_Method req = ''tools/call''"
  using Dispatch_reply_ok [of jc srt ord s req w] Dispatch_panic [of jc srt ord s req w]
    Dispatch_hang [of jc srt ord s req w]
  by (simp split: dispatch_outcome.splits)

text \<open>
  The HTTP handler answers every request unless a registered tool does not return: only POST is
  let in; a body that does not parse, has the wrong version or no method is a JSON-RPC error under
  status 200 and touches nothing; status 500 is a panic of a registered tool, and status 202 goes with
  no body.
\<close>

theorem ServeHTTP_status:
  "let (out, w') = ServeHTTP jc srt ord s r w in
     (case out of
        Served h \<Rightarrow>
          hs_status h \<in> {200, 202, 405, 500} \<and> (hs_status h = 405) = (hr_method r \<noteq> ''POST'') \<and>
          (hs_status h = 202 \<longrightarrow> hs_body h = []) \<and>
          (hs_status h = 500 \<longrightarrow> (\<exists>t \<in> ran (sv_tools s). \<exists>a. fst (th_Call t a w) = CallPanic))
      | ServePanic \<Rightarrow> False
      | ServeHang \<Rightarrow> \<exists>t \<in> ran (sv_tools s). \<exists>a. fst (th_Call t a w) = CallHang) \<and>
     (w' \<noteq> w \<longrightarrow>
        (\<exists>req. jc_request jc (fst (capped_body (hr_body r))) (snd (capped_body (hr_body r))) = Inr req \<and>
           rq_Method req = ''tools/call'' \<and> rq_JSONRPC req = ''2.0''))"
  by (auto simp: ServeHTTP_def http_Error_def writeJSONRPCError_def write_response_def Let_def
       dest: Dispatch_panicD Dispatch_hangD Dispatch_worldD
       split: sum.splits dispatch_outcome.splits served.splits prod.splits if_splits)

section \<open>Witnesses\<close>

text \<open>A server with two tools over a counter, and a coding that knows one request.\<close>

definition ex_tool :: "string \<Rightarrow> call_outcome \<Rightarrow> nat ToolHandler" where
  "ex_tool n out = \<lparr>th_Name = n, th_Description = ''d'', th_InputSchema = ''{}'',
     th_Call = (\<lambda>args w. (out, Suc w))\<rparr>"

definition ex_server :: "nat Server" where
  "ex_server = snd (register_each (\<lambda>t. RegisterTool (Some t))
     [ex_tool ''b'' (CallErr ''boom''), ex_tool ''a'' (CallOk (text_result ''hi''))]
     (NewServer ''eob-mcp'' ''dev''))"

definition ex_request :: Request where
  "ex_request = \<lparr>rq_JSONRPC = ''2.0'', rq_ID = ''7'', rq_Method = ''tools/call'', rq_Params = ''P''\<rparr>"

definition ex_codec :: json_codec where
  "ex_codec = \<lparr>jc_request = (\<lambda>b cut. if b = ''R'' then Inr ex_request else Inl ''bad''),
     jc_init_params = (\<lambda>_. Inl ''bad''),
     jc_call_params = (\<lambda>_. Inr \<lparr>cp_Name = ''b'', cp_Arguments = []\<rparr>),
     jc_encode = (\<lambda>r. Inr ''E'')\<rparr>"

lemma ex_server_tools:
  "sv_tools ex_server = [''b'' \<mapsto> ex_tool ''b'' (CallErr ''boom''),
                         ''a'' \<mapsto> ex_tool ''a'' (CallOk (text_result ''hi''))]"
  by (simp add: ex_server_def RegisterTool_def NewServer_def ex_tool_def Let_def)

lemma ex_server_ok: "registry_ok ex_server"
  by (auto simp: registry_ok_def ex_server_tools ex_tool_def split: if_splits)

theorem list_tools_deterministic_witness:
  "map tl_Name (list_tools sort_by [''b'', ''a''] ex_server) = [''a'', ''b''] \<and>
   list_tools sort_by [''b'', ''a''] ex_server = list_tools sort_by [''a'', ''b''] ex_server"
proof -
  have d: "set [''b'', ''a''] = dom (sv_tools ex_server)" "set [''a'', ''b''] = dom (sv_tools ex_server)"
    by (auto simp: ex_server_tools)
  have "list_tools sort_by [''b'', ''a''] ex_server = list_tools sort_by [''a'', ''b''] ex_server"
    using list_tools_deterministic [OF isort.slice_sort_axioms isort.slice_sort_axioms ex_server_ok
        _ d(1) _ d(2)] by simp
  moreover have "map tl_Name (list_tools sort_by [''a'', ''b''] ex_server) = [''a'', ''b'']"
    by (simp add: list_tools_def ex_server_tools ex_tool_def)
  ultimately show ?thesis by simp
qed

theorem ServeHTTP_status_witness:
  "(\<exists>h. fst (ServeHTTP ex_codec sort_by [] ex_server
      \<lparr>hr_method = ''POST'', hr_path = ''/mcp'', hr_body = ''R''\<rparr> 0) = Served h \<and> hs_status h = 200) \<and>
   (\<exists>h. fst (ServeHTTP ex_codec sort_by [] ex_server
      \<lparr>hr_method = ''GET'', hr_path = ''/mcp'', hr_body = []\<rparr> 0) = Served h \<and> hs_status h = 405)"
  using ServeHTTP_status [of ex_codec sort_by "[]" ex_server
      "\<lparr>hr_method = ''GET'', hr_path = ''/mcp'', hr_body = []\<rparr>" 0]
  by (simp add: ServeHTTP_def capped_body_def MaxRequestBytes_def ex_codec_def ex_request_def
      Dispatch_def ex_server_tools ex_tool_def isNotification_def write_response_def text_result_def
      http_Error_def case_prod_beta)

end
