(* ===== verification/StreamRpc.thy ===== *)
theory StreamRpc
  imports Service Forwarding
begin

text \<open>
  The calls on streams: \<open>stream_list.go\<close>, \<open>stream_stats.go\<close>, \<open>stream_read.go\<close> and \<open>tail_stream.go\<close>.
  A jq filter need not come back; the calls that run one return None when it does not.
\<close>

section \<open>Requests and responses\<close>

record StreamInfoMsg =
  sm_Name :: string
  sm_Messages :: u64
  sm_Bytes :: u64
  sm_FirstTs :: string
  sm_LastTs :: string

record StreamListResponse =
  sl_Cluster :: ClusterRef
  sl_Streams :: "StreamInfoMsg list"

record StreamStatsRequest =
  tq_Name :: string
  tq_Since :: string
  tq_Until :: string

record StreamStatsResponse =
  tr_Cluster :: ClusterRef
  tr_Name :: string
  tr_Messages :: u64
  tr_Bytes :: u64
  tr_Since :: string
  tr_Until :: string

record StreamReadRequest =
  rq_StreamName :: string
  rq_Since :: string
  rq_Until :: string
  rq_Limit :: i32
  rq_Filter :: string

record RawEnvelope =
  en_Subject :: string
  en_Sequence :: u64
  en_Timestamp :: string
  en_Data :: json

record StreamReadResponse =
  rr_Cluster :: ClusterRef
  rr_Name :: string
  rr_Count :: i32
  rr_Messages :: "RawEnvelope list"

record TailStreamRequest =
  yq_Name :: string
  yq_Filter :: string
  yq_StartAtSeq :: u64
  yq_StartAtTs :: string

record TailStreamResponse =
  yr_Cluster :: ClusterRef
  yr_Envelope :: RawEnvelope

section \<open>Catalogue and totals\<close>

definition StreamList :: "'c Service \<Rightarrow> svc_error + StreamListResponse" where
  "StreamList s =
     (case srv_streams s of
        None \<Rightarrow> Inl StreamsNotConfigured
      | Some r \<Rightarrow>
          (case rd_List r of
             Inl e \<Rightarrow> Inl (StreamError e)
           | Inr infos \<Rightarrow>
               Inr \<lparr>sl_Cluster = clusterRef s,
                 sl_Streams = map (\<lambda>i. \<lparr>sm_Name = si_StreamName i, sm_Messages = si_Messages i,
                   sm_Bytes = si_Bytes i, sm_FirstTs = rfc3339OrEmpty (si_FirstTS i),
                   sm_LastTs = rfc3339OrEmpty (si_LastTS i)\<rparr>) infos\<rparr>))"

definition parseTimeWindow :: "codec \<Rightarrow> string \<Rightarrow> string \<Rightarrow> svc_error + (gotime \<times> gotime)" where
  "parseTimeWindow cd since until' =
     (case (if since \<noteq> [] then map_sum ParseSince id (time_Parse cd since) else Inr zero_time) of
        Inl e \<Rightarrow> Inl e
      | Inr s \<Rightarrow>
          (case (if until' \<noteq> [] then map_sum ParseUntil id (time_Parse cd until') else Inr zero_time) of
             Inl e \<Rightarrow> Inl e
           | Inr u \<Rightarrow> Inr (s, u)))"

definition StreamStats :: "codec \<Rightarrow> 'c Service \<Rightarrow> StreamStatsRequest \<Rightarrow> svc_error + StreamStatsResponse" where
  "StreamStats cd s req =
     (case srv_streams s of
        None \<Rightarrow> Inl StreamsNotConfigured
      | Some r \<Rightarrow>
          if tq_Name req = [] then Inl NameRequired
          else (case parseTimeWindow cd (tq_Since req) (tq_Until req) of
             Inl e \<Rightarrow> Inl e
           | Inr (since, until') \<Rightarrow>
               (case rd_Stats r (tq_Name req) since until' of
                  Inl e \<Rightarrow> Inl (StreamError e)
                | Inr st \<Rightarrow>
                    Inr \<lparr>tr_Cluster = clusterRef s, tr_Name = tq_Name req, tr_Messages = ss_Messages st,
                      tr_Bytes = ss_Bytes st, tr_Since = rfc3339OrEmpty (ss_Since st),
                      tr_Until = rfc3339OrEmpty (ss_Until st)\<rparr>)))"

section \<open>Reading\<close>

definition streamReadDefaultLimit :: int where "streamReadDefaultLimit = 100"
definition streamReadMaxLimit :: int where "streamReadMaxLimit = 1000"

definition read_limit :: "i32 \<Rightarrow> int" where
  "read_limit n =
     (let limit = (if sint n \<le> 0 then streamReadDefaultLimit else sint n)
      in if limit > streamReadMaxLimit then streamReadMaxLimit else limit)"

definition backend_limit :: "'code option \<Rightarrow> int \<Rightarrow> int" where
  "backend_limit f limit =
     (case f of
        None \<Rightarrow> limit
      | Some _ \<Rightarrow> if limit * 4 > streamReadMaxLimit then streamReadMaxLimit else limit * 4)"

text \<open>Whether a filter, if any, keeps an object: an error of the filter counts as a rejection.\<close>

definition filter_keeps :: "('q, 'code) gojq \<Rightarrow> 'code option \<Rightarrow> json \<Rightarrow> bool option" where
  "filter_keeps gj f obj =
     (case f of
        None \<Rightarrow> Some True
      | Some code \<Rightarrow> map_option (\<lambda>r. case r of Inl _ \<Rightarrow> False | Inr match \<Rightarrow> match) (Match gj code obj))"

fun read_loop ::
  "codec \<Rightarrow> ('q, 'code) gojq \<Rightarrow> 'code option \<Rightarrow> int \<Rightarrow> RawMessage list \<Rightarrow> RawEnvelope list \<Rightarrow>
     RawEnvelope list option" where
  "read_loop cd gj f limit [] out = Some out"
| "read_loop cd gj f limit (m # ms) out =
     (case json_UnmarshalMap cd (rm_Data m) of
        Inl e \<Rightarrow> read_loop cd gj f limit ms out
      | Inr obj \<Rightarrow>
          (case filter_keeps gj f obj of
             None \<Rightarrow> None
           | Some False \<Rightarrow> read_loop cd gj f limit ms out
           | Some True \<Rightarrow>
               (case structpb_NewStruct cd obj of
                  Inl e \<Rightarrow> read_loop cd gj f limit ms out
                | Inr st \<Rightarrow>
                    let out = out @ [\<lparr>en_Subject = rm_Subject m, en_Sequence = rm_Sequence m,
                                      en_Timestamp = rfc3339OrEmpty (rm_Timestamp m), en_Data = st\<rparr>]
                    in if int (length out) \<ge> limit then Some out
                       else read_loop cd gj f limit ms out)))"

definition StreamRead ::
  "codec \<Rightarrow> ('q, 'code) gojq \<Rightarrow> 'c Service \<Rightarrow> StreamReadRequest \<Rightarrow> (svc_error + StreamReadResponse) option" where
  "StreamRead cd gj s req =
     (case srv_streams s of
        None \<Rightarrow> Some (Inl StreamsNotConfigured)
      | Some r \<Rightarrow>
          if rq_StreamName req = [] then Some (Inl NameRequired)
          else (case parseTimeWindow cd (rq_Since req) (rq_Until req) of
             Inl e \<Rightarrow> Some (Inl e)
           | Inr (since, until') \<Rightarrow>
               let limit = read_limit (rq_Limit req) in
               (case (if rq_Filter req \<noteq> [] then map_sum FilterError Some (Compile gj (rq_Filter req)) else Inr None) of
                  Inl e \<Rightarrow> Some (Inl e)
                | Inr f \<Rightarrow>
                    (case rd_Read r (rq_StreamName req)
                            \<lparr>ro_Since = since, ro_Until = until', ro_Limit = backend_limit f limit\<rparr> of
                       (_, Some e) \<Rightarrow> Some (Inl (StreamError e))
                     | (raw, None) \<Rightarrow>
                         (case read_loop cd gj f limit raw [] of
                            None \<Rightarrow> None
                          | Some out \<Rightarrow>
                              Some (Inr \<lparr>rr_Cluster = clusterRef s, rr_Name = rq_StreamName req,
                                         rr_Count = i32_len out, rr_Messages = out\<rparr>))))))"

section \<open>Tailing\<close>

text \<open>None when the filter does not come back, \<open>Some None\<close> for Go's nil.\<close>

definition buildEnvelope ::
  "codec \<Rightarrow> ('q, 'code) gojq \<Rightarrow> 'code option \<Rightarrow> RawMessage \<Rightarrow> RawEnvelope option option" where
  "buildEnvelope cd gj f m =
     (case json_UnmarshalMap cd (rm_Data m) of
        Inl e \<Rightarrow> Some None
      | Inr obj \<Rightarrow>
          (case filter_keeps gj f obj of
             None \<Rightarrow> None
           | Some False \<Rightarrow> Some None
           | Some True \<Rightarrow>
               (case structpb_NewStruct cd obj of
                  Inl e \<Rightarrow> Some None
                | Inr st \<Rightarrow>
                    Some (Some \<lparr>en_Subject = rm_Subject m, en_Sequence = rm_Sequence m,
                                en_Timestamp = rfc3339OrEmpty (rm_Timestamp m), en_Data = st\<rparr>))))"

datatype tail_pick = TailDone | TailClosed | TailMsg RawMessage

definition tail_turn ::
  "codec \<Rightarrow> ('q, 'code) gojq \<Rightarrow> ClusterRef \<Rightarrow> 'code option \<Rightarrow> unit \<Rightarrow> tail_pick \<Rightarrow> (unit, TailStreamResponse) turn" where
  "tail_turn cd gj cl f u pick =
     (case pick of
        TailDone \<Rightarrow> Finish
      | TailClosed \<Rightarrow> Finish
      | TailMsg m \<Rightarrow>
          (case buildEnvelope cd gj f m of
             None \<Rightarrow> Hang
           | Some None \<Rightarrow> Next u
           | Some (Some env) \<Rightarrow> Emit u \<lparr>yr_Cluster = cl, yr_Envelope = env\<rparr> False))"

text \<open>
  The call: the status it fails with, or what it opened at the backend and the messages it sent and
  how it stands, for a sequence of picks of its loop.
\<close>

definition TailStream ::
  "codec \<Rightarrow> ('q, 'code) gojq \<Rightarrow> 'c Service \<Rightarrow> TailStreamRequest \<Rightarrow> (nat \<Rightarrow> ext_err option) \<Rightarrow> tail_pick list \<Rightarrow>
     grpc_status + ((nat \<times> DeliverPolicy) \<times> TailStreamResponse list \<times> unit verdict)" where
  "TailStream cd gj s req sends picks =
     (case srv_streams s of
        None \<Rightarrow> Inl \<lparr>gs_code = FailedPrecondition, gs_msg = ''streams backend not configured (set EOB_NATS_URL)''\<rparr>
      | Some r \<Rightarrow>
          if yq_Name req = [] then Inl \<lparr>gs_code = InvalidArgument, gs_msg = ''name is required''\<rparr>
          else (case (if yq_Filter req \<noteq> [] then map_sum id Some (Compile gj (yq_Filter req)) else Inr None) of
             Inl e \<Rightarrow> Inl \<lparr>gs_code = InvalidArgument, gs_msg = ''filter compile: '' @ filter_error_text cd e\<rparr>
           | Inr f \<Rightarrow>
               (case (if yq_StartAtTs req \<noteq> [] then time_Parse cd (yq_StartAtTs req) else Inr zero_time) of
                  Inl e \<Rightarrow> Inl \<lparr>gs_code = InvalidArgument, gs_msg = ''parse start_at_ts: '' @ ee_msg e\<rparr>
                | Inr t \<Rightarrow>
                    (case rd_Tail r (yq_Name req)
                            \<lparr>to_StartAtSeq = yq_StartAtSeq req, to_StartAtTS = t, to_BufSize = 0\<rparr> of
                       Inl e \<Rightarrow>
                         Inl \<lparr>gs_code = Internal,
                           gs_msg = ''tail '' @ Quote (unicode_table cd) (yq_Name req) @ '': '' @ stream_error_text cd e\<rparr>
                     | Inr opened \<Rightarrow>
                         Inr (opened, serve (tail_turn cd gj (clusterRef s) f) sends () picks [])))))"

section \<open>Lemmas\<close>

text \<open>The envelope a message contributes, if any.\<close>

definition env_of :: "codec \<Rightarrow> ('q, 'code) gojq \<Rightarrow> 'code option \<Rightarrow> RawMessage \<Rightarrow> RawEnvelope option" where
  "env_of cd gj f m = Option.bind (buildEnvelope cd gj f m) (\<lambda>x. x)"

lemma env_of_fields:
  "env_of cd gj f m = Some e \<Longrightarrow>
     en_Subject e = rm_Subject m \<and> en_Sequence e = rm_Sequence m \<and> en_Timestamp e = rfc3339OrEmpty (rm_Timestamp m)"
  by (auto simp: env_of_def buildEnvelope_def split: sum.splits option.splits bool.splits)

lemma read_loop_step:
  "read_loop cd gj f limit (m # ms) out =
     (case buildEnvelope cd gj f m of
        None \<Rightarrow> None
      | Some None \<Rightarrow> read_loop cd gj f limit ms out
      | Some (Some e) \<Rightarrow>
          if int (length out) + 1 \<ge> limit then Some (out @ [e]) else read_loop cd gj f limit ms (out @ [e]))"
  by (simp add: buildEnvelope_def Let_def split: sum.split option.split bool.split)

lemma read_loop_Some:
  assumes "read_loop cd gj f limit ms out = Some res" and "int (length out) < limit"
  shows "res = out @ take (nat limit - length out) (List.map_filter (env_of cd gj f) ms)"
  using assms
proof (induction ms arbitrary: out)
  case (Cons m ms)
  show ?case
  proof (cases "env_of cd gj f m")
    case None
    with Cons.prems(1) have "read_loop cd gj f limit ms out = Some res"
      unfolding read_loop_step by (auto simp: env_of_def split: option.splits)
    from Cons.IH [OF this Cons.prems(2)] show ?thesis using None by (simp add: map_filter_simps)
  next
    case (Some e)
    then have b: "buildEnvelope cd gj f m = Some (Some e)"
      by (cases "buildEnvelope cd gj f m") (auto simp: env_of_def)
    show ?thesis
    proof (cases "int (length out) + 1 \<ge> limit")
      case True
      then have "nat limit - length out = 1" using Cons.prems(2) by linarith
      then show ?thesis using Cons.prems(1) True b Some unfolding read_loop_step by (simp add: map_filter_simps)
    next
      case False
      then have "nat limit - length out = Suc (nat limit - length (out @ [e]))" by simp
      moreover have "read_loop cd gj f limit ms (out @ [e]) = Some res"
        using Cons.prems(1) False b unfolding read_loop_step by simp
      ultimately show ?thesis using Cons.IH [of "out @ [e]"] False Some by (simp add: map_filter_simps)
    qed
  qed
qed simp

lemma read_loop_total:
  "\<forall>m \<in> set ms. buildEnvelope cd gj f m \<noteq> None \<Longrightarrow> \<exists>res. read_loop cd gj f limit ms out = Some res"
  by (induction ms arbitrary: out) (auto simp: read_loop_step simp del: read_loop.simps(2) split: option.splits)

lemma buildEnvelope_total:
  assumes "\<And>obj. filter_keeps gj f obj \<noteq> None"
  shows "buildEnvelope cd gj f m \<noteq> None"
proof (cases "json_UnmarshalMap cd (rm_Data m)")
  case (Inr obj)
  obtain b where "filter_keeps gj f obj = Some b" using assms by blast
  then show ?thesis using Inr by (cases b) (simp_all add: buildEnvelope_def split: sum.split)
qed (simp add: buildEnvelope_def)

lemma read_limit_bounds: "1 \<le> read_limit n" "read_limit n \<le> 1000"
  by (simp_all add: read_limit_def Let_def streamReadDefaultLimit_def streamReadMaxLimit_def)

text \<open>When the loop does not come back: a message on which the program does not return is reached below the limit.\<close>

definition read_stuck :: "codec \<Rightarrow> ('q, 'code) gojq \<Rightarrow> 'code \<Rightarrow> RawMessage \<Rightarrow> bool" where
  "read_stuck cd gj code m \<longleftrightarrow> (\<exists>obj. json_UnmarshalMap cd (rm_Data m) = Inr obj \<and> Match gj code obj = None)"

definition read_kept :: "codec \<Rightarrow> ('q, 'code) gojq \<Rightarrow> 'code \<Rightarrow> RawMessage \<Rightarrow> bool" where
  "read_kept cd gj code m \<longleftrightarrow> (\<exists>obj st. json_UnmarshalMap cd (rm_Data m) = Inr obj \<and>
     Match gj code obj = Some (Inr True) \<and> structpb_NewStruct cd obj = Inr st)"

lemma buildEnvelope_cases:
  "case buildEnvelope cd gj (Some code) m of
     None \<Rightarrow> read_stuck cd gj code m
   | Some None \<Rightarrow> \<not> read_stuck cd gj code m \<and> \<not> read_kept cd gj code m
   | Some (Some e) \<Rightarrow> \<not> read_stuck cd gj code m \<and> read_kept cd gj code m"
  by (auto simp: buildEnvelope_def filter_keeps_def read_stuck_def read_kept_def split: sum.splits option.splits bool.splits)

lemma read_loop_None_iff:
  "int (length out) < limit \<Longrightarrow> read_loop cd gj (Some code) limit ms out = None \<longleftrightarrow>
     (\<exists>i < length ms. read_stuck cd gj code (ms ! i) \<and>
        int (length out) + int (length (filter (read_kept cd gj code) (take i ms))) < limit)"
proof (induction ms arbitrary: out)
  case (Cons m ms)
  note env = buildEnvelope_cases [of cd gj code m]
  have "(\<exists>i < length (m # ms). P i) \<longleftrightarrow> P 0 \<or> (\<exists>i < length ms. P (Suc i))" for P
    by (auto simp: less_Suc_eq_0_disj)
  then have first: "(\<exists>i < length (m # ms). read_stuck cd gj code ((m # ms) ! i) \<and>
        k + int (length (filter (read_kept cd gj code) (take i (m # ms)))) < limit) \<longleftrightarrow>
      read_stuck cd gj code m \<and> k < limit \<or>
      (\<exists>i < length ms. read_stuck cd gj code (ms ! i) \<and>
        (if read_kept cd gj code m then k + 1 else k) + int (length (filter (read_kept cd gj code) (take i ms))) < limit)" for k
    by (simp add: algebra_simps)
  show ?case
  proof (cases "buildEnvelope cd gj (Some code) m")
    case None
    then show ?thesis using env Cons.prems unfolding first by (simp add: read_loop_step del: read_loop.simps(2))
  next
    case (Some x)
    note some = this
    show ?thesis
    proof (cases x)
      case None
      then show ?thesis using some env Cons.prems Cons.IH [of out] unfolding first
        by (simp add: read_loop_step del: read_loop.simps(2))
    next
      case (Some e)
      have "\<not> limit \<le> int (length out) + 1 \<Longrightarrow> int (length (out @ [e])) < limit" by simp
      then show ?thesis using Some some env Cons.prems Cons.IH [of "out @ [e]"] unfolding first
        by (cases "limit \<le> int (length out) + 1")
          (simp_all add: read_loop_step add.commute [of _ 1] del: read_loop.simps(2))
    qed
  qed
qed simp

lemma backend_limit_bounds: "1 \<le> n \<Longrightarrow> n \<le> 1000 \<Longrightarrow> n \<le> backend_limit f n \<and> backend_limit f n \<le> 1000"
  by (simp add: backend_limit_def streamReadMaxLimit_def split: option.split)

text \<open>A successful read, taken apart.\<close>

lemma StreamRead_ok:
  assumes "StreamRead cd gj s req = Some (Inr resp)"
  obtains r since until' f raw where "srv_streams s = Some r"
    "parseTimeWindow cd (rq_Since req) (rq_Until req) = Inr (since, until')"
    "rd_Read r (rq_StreamName req) \<lparr>ro_Since = since, ro_Until = until',
        ro_Limit = backend_limit f (read_limit (rq_Limit req))\<rparr> = (raw, None)"
    "(rq_Filter req = [] \<and> f = None) \<or> (\<exists>code. f = Some code \<and> Compile gj (rq_Filter req) = Inr code)"
    "resp = \<lparr>rr_Cluster = clusterRef s, rr_Name = rq_StreamName req, rr_Count = i32_len (rr_Messages resp),
        rr_Messages = take (nat (read_limit (rq_Limit req))) (List.map_filter (env_of cd gj f) raw)\<rparr>"
proof -
  obtain r where r: "srv_streams s = Some r" "rq_StreamName req \<noteq> []"
    using assms by (auto simp: StreamRead_def split: option.splits if_splits)
  obtain since until' where w: "parseTimeWindow cd (rq_Since req) (rq_Until req) = Inr (since, until')"
    using assms r by (auto simp: StreamRead_def split: sum.splits)
  obtain f where f: "(if rq_Filter req \<noteq> [] then map_sum FilterError Some (Compile gj (rq_Filter req)) else Inr None) = Inr f"
    using assms r w by (auto simp: StreamRead_def Let_def split: sum.splits if_splits)
  let ?limit = "read_limit (rq_Limit req)"
  obtain raw where raw: "rd_Read r (rq_StreamName req) \<lparr>ro_Since = since, ro_Until = until',
      ro_Limit = backend_limit f ?limit\<rparr> = (raw, None)"
    using assms r w f by (auto simp: StreamRead_def Let_def split: prod.splits option.splits)
  obtain out where out: "read_loop cd gj f ?limit raw [] = Some out"
    "resp = \<lparr>rr_Cluster = clusterRef s, rr_Name = rq_StreamName req, rr_Count = i32_len out, rr_Messages = out\<rparr>"
    using assms r w f raw by (auto simp: StreamRead_def Let_def split: option.splits)
  have "out = take (nat ?limit) (List.map_filter (env_of cd gj f) raw)"
    using read_loop_Some [OF out(1)] read_limit_bounds(1) [of "rq_Limit req"] by simp
  moreover have "(rq_Filter req = [] \<and> f = None) \<or> (\<exists>code. f = Some code \<and> Compile gj (rq_Filter req) = Inr code)"
    using f by (cases "Compile gj (rq_Filter req)") (auto split: if_splits)
  ultimately show thesis using that [OF r(1) w raw] out(2) by simp
qed

text \<open>Over any reader that keeps the contract of the interface, what is kept stays bounded and ordered.\<close>

context stream_reader
begin

lemma kept_length:
  assumes "ok r" and "read r name opts = (ms, None)" and "0 < ro_Limit opts"
  shows "int (length (take k (List.map_filter g ms))) \<le> min (int k) (ro_Limit opts)"
  using read_limit [OF assms] length_map_filter_le [of g ms] by auto

lemma kept_ordered:
  assumes "ok r" and "read r name opts = (ms, None)"
    and "\<And>m e. g m = Some e \<Longrightarrow> sq e = rm_Sequence m"
  shows "sorted_wrt (<) (map sq (take k (List.map_filter g ms)))"
proof -
  have "sorted_wrt (\<lambda>a b. sq a < sq b) (List.map_filter g ms)"
    using read_order [OF assms(1,2)]
  proof (induction ms)
    case (Cons m ms)
    then show ?case
      by (auto simp: map_filter_simps assms(3) dest!: set_map_filterD split: option.splits)
  qed (simp add: map_filter_simps)
  then show ?thesis by (simp add: sorted_wrt_map sorted_wrt_take)
qed

lemma kept_origin:
  assumes "ok r" and "read r name opts = (ms, None)" and "e \<in> set (take k (List.map_filter g ms))"
  shows "\<exists>m \<in> set ms. g m = Some e \<and> in_window (ro_Since opts) (ro_Until opts) (rm_Timestamp m)"
  using assms(3) read_window [OF assms(1,2)] by (auto dest!: in_set_takeD set_map_filterD)

end

definition tail_view ::
  "codec \<Rightarrow> ('q, 'code) gojq \<Rightarrow> ClusterRef \<Rightarrow> 'code option \<Rightarrow> tail_pick \<Rightarrow> TailStreamResponse option" where
  "tail_view cd gj cl f pick =
     (case pick of
        TailMsg m \<Rightarrow> map_option (\<lambda>e. \<lparr>yr_Cluster = cl, yr_Envelope = e\<rparr>) (env_of cd gj f m)
      | _ \<Rightarrow> None)"

interpretation tail_loop: lossless_forwarder "tail_turn cd gj cl f" "tail_view cd gj cl f"
    "\<lambda>p. p = TailDone \<or> p = TailClosed" for cd gj cl f
  by unfold_locales
    (auto simp: tail_turn_def tail_view_def env_of_def split: tail_pick.splits option.splits)

lemma TailStream_ok:
  assumes "TailStream cd gj s req sends picks = Inr (opened, out, v)"
  obtains f where "serve (tail_turn cd gj (clusterRef s) f) sends () picks [] = (out, v)"
    "(yq_Filter req = [] \<and> f = None) \<or> (\<exists>code. f = Some code \<and> Compile gj (yq_Filter req) = Inr code)"
proof -
  obtain r where r: "srv_streams s = Some r" "yq_Name req \<noteq> []"
    using assms by (auto simp: TailStream_def split: option.splits if_splits)
  obtain f where f: "(if yq_Filter req \<noteq> [] then map_sum id Some (Compile gj (yq_Filter req)) else Inr None) = Inr f"
    using assms r by (auto simp: TailStream_def split: sum.splits if_splits)
  have "serve (tail_turn cd gj (clusterRef s) f) sends () picks [] = (out, v)"
    using assms r f by (auto simp: TailStream_def split: sum.splits)
  moreover have "(yq_Filter req = [] \<and> f = None) \<or> (\<exists>code. f = Some code \<and> Compile gj (yq_Filter req) = Inr code)"
    using f by (cases "Compile gj (yq_Filter req)") (auto split: if_splits)
  ultimately show thesis by (rule that)
qed

lemma tail_view_msgs:
  "List.map_filter (tail_view cd gj cl f) (map TailMsg ms) =
     map (\<lambda>e. \<lparr>yr_Cluster = cl, yr_Envelope = e\<rparr>) (List.map_filter (env_of cd gj f) ms)"
  by (induction ms) (auto simp: map_filter_simps tail_view_def split: option.split)

text \<open>The envelopes of a read are renderings of messages the backend gave, inside the window.\<close>

definition read_from :: "('st, 'con) jetstream \<Rightarrow> string \<Rightarrow> gotime \<Rightarrow> gotime \<Rightarrow> RawEnvelope \<Rightarrow> bool" where
  "read_from js name since until' e \<longleftrightarrow>
     (\<exists>opts ms m. js_Read js name opts = (ms, None) \<and> m \<in> set ms \<and> en_Sequence e = rm_Sequence m \<and>
        en_Timestamp e = rfc3339OrEmpty (rm_Timestamp m) \<and> in_window since until' (rm_Timestamp m))"

lemma StreamRead_origin:
  assumes "js_ok js" and "srv_streams s = Some (js_reader js)" and "StreamRead cd gj s req = Some (Inr resp)"
  obtains since until' where "parseTimeWindow cd (rq_Since req) (rq_Until req) = Inr (since, until')"
    "\<And>e. e \<in> set (rr_Messages resp) \<Longrightarrow> read_from js (rq_StreamName req) since until' e"
  using assms(3)
proof (rule StreamRead_ok)
  fix r since until' f raw
  assume r: "srv_streams s = Some r" and win: "parseTimeWindow cd (rq_Since req) (rq_Until req) = Inr (since, until')"
    and rd: "rd_Read r (rq_StreamName req) \<lparr>ro_Since = since, ro_Until = until',
        ro_Limit = backend_limit f (read_limit (rq_Limit req))\<rparr> = (raw, None)"
    and resp: "resp = \<lparr>rr_Cluster = clusterRef s, rr_Name = rq_StreamName req, rr_Count = i32_len (rr_Messages resp),
        rr_Messages = take (nat (read_limit (rq_Limit req))) (List.map_filter (env_of cd gj f) raw)\<rparr>"
  have r: "r = js_reader js" using assms(2) r by simp
  then have ok: "\<exists>js' :: ('a, 'b) jetstream. js_ok js' \<and> r = js_reader js'" using assms(1) by blast
  have ms: "rr_Messages resp = take (nat (read_limit (rq_Limit req))) (List.map_filter (env_of cd gj f) raw)"
    by (subst resp) simp
  show thesis
  proof (rule that [OF win])
    fix e assume e: "e \<in> set (rr_Messages resp)"
    obtain m where "m \<in> set raw" "env_of cd gj f m = Some e" "in_window since until' (rm_Timestamp m)"
      using jsr.kept_origin [OF ok rd e [unfolded ms]] by auto
    moreover obtain opts where "js_Read js (rq_StreamName req) opts = (raw, None)" using rd by (auto simp: r js_reader_def)
    ultimately show "read_from js (rq_StreamName req) since until' e"
      using env_of_fields [of cd gj f m e] unfolding read_from_def by blast
  qed
qed

section \<open>Properties\<close>

text \<open>
  C12. A successful read over JetStream returns no more envelopes than asked for and never more than
  1000, as many as its count says, in strictly ascending stream order, and every one of them is
  the rendering of a message inside the requested window.
\<close>

theorem StreamRead_contract:
  assumes "js_ok js" and "srv_streams s = Some (js_reader js)" and "StreamRead cd gj s req = Some (Inr resp)"
  shows "length (rr_Messages resp) \<le> 1000 \<and>
    (0 < sint (rq_Limit req) \<longrightarrow> int (length (rr_Messages resp)) \<le> sint (rq_Limit req)) \<and>
    unat (rr_Count resp) = length (rr_Messages resp) \<and>
    sorted_wrt (<) (map en_Sequence (rr_Messages resp)) \<and>
    (\<exists>since until'. parseTimeWindow cd (rq_Since req) (rq_Until req) = Inr (since, until') \<and>
      (\<forall>e \<in> set (rr_Messages resp). \<exists>m :: RawMessage. en_Sequence e = rm_Sequence m \<and>
         en_Timestamp e = rfc3339OrEmpty (rm_Timestamp m) \<and> in_window since until' (rm_Timestamp m)))"
  using assms(3)
proof (rule StreamRead_ok)
  fix r since until' f raw
  assume r: "srv_streams s = Some r" and win: "parseTimeWindow cd (rq_Since req) (rq_Until req) = Inr (since, until')"
    and rd: "rd_Read r (rq_StreamName req) \<lparr>ro_Since = since, ro_Until = until',
        ro_Limit = backend_limit f (read_limit (rq_Limit req))\<rparr> = (raw, None)"
    and resp: "resp = \<lparr>rr_Cluster = clusterRef s, rr_Name = rq_StreamName req, rr_Count = i32_len (rr_Messages resp),
        rr_Messages = take (nat (read_limit (rq_Limit req))) (List.map_filter (env_of cd gj f) raw)\<rparr>"
  let ?n = "nat (read_limit (rq_Limit req))"
  have ok: "\<exists>js' :: ('a, 'b) jetstream. js_ok js' \<and> r = js_reader js'" using assms(1,2) r by auto
  have ms: "rr_Messages resp = take ?n (List.map_filter (env_of cd gj f) raw)"
    by (subst resp) simp
  have len: "length (rr_Messages resp) \<le> ?n" by (simp add: ms)
  have cnt: "rr_Count resp = i32_len (rr_Messages resp)" by (subst resp) simp
  have "length (rr_Messages resp) \<le> 1000"
    using len read_limit_bounds(2) [of "rq_Limit req"] by linarith
  moreover have "0 < sint (rq_Limit req) \<longrightarrow> read_limit (rq_Limit req) \<le> sint (rq_Limit req)"
    by (simp add: read_limit_def Let_def)
  moreover have "sorted_wrt (<) (map en_Sequence (rr_Messages resp))"
    unfolding ms by (rule jsr.kept_ordered [OF ok rd]) (simp add: env_of_fields)
  moreover have "\<exists>since until'. parseTimeWindow cd (rq_Since req) (rq_Until req) = Inr (since, until') \<and>
      (\<forall>e \<in> set (rr_Messages resp). \<exists>m :: RawMessage. en_Sequence e = rm_Sequence m \<and>
         en_Timestamp e = rfc3339OrEmpty (rm_Timestamp m) \<and> in_window since until' (rm_Timestamp m))"
    by (rule StreamRead_origin [OF assms]) (unfold read_from_def, blast)
  ultimately show ?thesis
    using len win read_limit_bounds(1) [of "rq_Limit req"] by (auto simp: cnt)
qed

text \<open>
  C13. Paging works: the time of an envelope, given back as the lower end of the next window, parses, in
  whatever time zone it is shown, and it parses to the second of the very message the envelope was made
  of; that message lies in the new window, the upper end of which is unchanged; and no read with that
  window sends anything older than the second of the message.
\<close>

theorem StreamRead_resumes:
  assumes "js_ok js" and "srv_streams s = Some (js_reader js)"
    and "StreamRead cd gj s req = Some (Inr resp)" and "e \<in> set (rr_Messages resp)"
    and "\<And>name opts ms err m. js_Read js name opts = (ms, err) \<Longrightarrow> m \<in> set ms \<Longrightarrow> shown_ok (rm_Timestamp m)"
    and "rq_Since req' = en_Timestamp e" and "rq_Until req' = rq_Until req"
  shows "\<exists>(m :: RawMessage) opts ms since until'. js_Read js (rq_StreamName req) opts = (ms, None) \<and> m \<in> set ms \<and>
    en_Sequence e = rm_Sequence m \<and> en_Timestamp e = rfc3339OrEmpty (rm_Timestamp m) \<and>
    parseTimeWindow cd (rq_Since req) (rq_Until req) = Inr (since, until') \<and>
    parseTimeWindow cd (rq_Since req') (rq_Until req') = Inr (to_second (rm_Timestamp m), until') \<and>
    in_window (to_second (rm_Timestamp m)) until' (rm_Timestamp m) \<and>
    (\<forall>resp'. StreamRead cd gj s req' = Some (Inr resp') \<longrightarrow>
       (\<forall>e' \<in> set (rr_Messages resp'). \<exists>m' :: RawMessage. en_Sequence e' = rm_Sequence m' \<and>
          en_Timestamp e' = rfc3339OrEmpty (rm_Timestamp m') \<and>
          t_ns (rm_Timestamp m) div Second \<le> t_ns (rm_Timestamp m') div Second))"
proof -
  obtain since until' where first: "parseTimeWindow cd (rq_Since req) (rq_Until req) = Inr (since, until')"
    and origin: "\<And>e. e \<in> set (rr_Messages resp) \<Longrightarrow> read_from js (rq_StreamName req) since until' e"
    by (rule StreamRead_origin [OF assms(1-3)]) blast
  obtain opts ms m where read: "js_Read js (rq_StreamName req) opts = (ms, None)" "m \<in> set ms" and
    m: "en_Sequence e = rm_Sequence m" "en_Timestamp e = rfc3339OrEmpty (rm_Timestamp m)"
      "in_window since until' (rm_Timestamp m)"
    using origin [OF assms(4)] unfolding read_from_def by auto
  note shown = assms(5) [OF read]
  have second: "parseTimeWindow cd (rq_Since req') (rq_Until req') = Inr (to_second (rm_Timestamp m), until')"
    using first shown shown_not_zero [OF shown]
    by (auto simp: parseTimeWindow_def assms(6,7) m(2) time_Parse_def parse_shown rfc3339OrEmpty_Nil split: sum.splits option.splits if_splits)
  have inside: "in_window (to_second (rm_Timestamp m)) until' (rm_Timestamp m)"
    using m(3) by (simp add: in_window_def to_second_le)
  have later: "\<exists>m' :: RawMessage. en_Sequence e' = rm_Sequence m' \<and> en_Timestamp e' = rfc3339OrEmpty (rm_Timestamp m') \<and>
      t_ns (rm_Timestamp m) div Second \<le> t_ns (rm_Timestamp m') div Second"
    if resp': "StreamRead cd gj s req' = Some (Inr resp')" and e': "e' \<in> set (rr_Messages resp')" for resp' e'
  proof (rule StreamRead_origin [OF assms(1,2) resp'])
    fix since' until''
    assume "parseTimeWindow cd (rq_Since req') (rq_Until req') = Inr (since', until'')"
      and "\<And>e. e \<in> set (rr_Messages resp') \<Longrightarrow> read_from js (rq_StreamName req') since' until'' e"
    then have "read_from js (rq_StreamName req') (to_second (rm_Timestamp m)) until' e'" using second e' by simp
    then show ?thesis using shown_not_zero [OF shown] by (auto simp: read_from_def in_window_def after_second)
  qed
  show ?thesis using read m(1,2) first second inside later by blast
qed

text \<open>
  C33. A read that has got its messages from the backend comes back unless the jq program does not, and
  only as far as it is asked: it hangs exactly when the program does not return on a message before the
  limit of the messages it lets through is reached. Messages that are no JSON objects, fail in the
  program, or do not convert are passed over; what follows the last message needed is never looked at.
\<close>

theorem StreamRead_hangs_iff:
  assumes "srv_streams s = Some r" and "rq_StreamName req \<noteq> []" and "rq_Filter req \<noteq> []"
    and "parseTimeWindow cd (rq_Since req) (rq_Until req) = Inr (since, until')" and "Compile gj (rq_Filter req) = Inr code"
    and "limit = (if sint (rq_Limit req) \<le> 0 then 100 else min 1000 (sint (rq_Limit req)))"
    and "rd_Read r (rq_StreamName req) \<lparr>ro_Since = since, ro_Until = until', ro_Limit = min 1000 (4 * limit)\<rparr> = (raw, None)"
  shows "StreamRead cd gj s req = None \<longleftrightarrow>
    (\<exists>i < length raw. (\<exists>obj. json_UnmarshalMap cd (rm_Data (raw ! i)) = Inr obj \<and> Match gj code obj = None) \<and>
       int (length (filter (\<lambda>m. \<exists>obj st. json_UnmarshalMap cd (rm_Data m) = Inr obj \<and>
         Match gj code obj = Some (Inr True) \<and> structpb_NewStruct cd obj = Inr st) (take i raw))) < limit)"
proof -
  have limit: "read_limit (rq_Limit req) = limit" "backend_limit (Some code) limit = min 1000 (4 * limit)"
    by (auto simp: assms(6) read_limit_def backend_limit_def Let_def streamReadDefaultLimit_def streamReadMaxLimit_def)
  have "StreamRead cd gj s req = None \<longleftrightarrow> read_loop cd gj (Some code) limit raw [] = None"
    using assms(1-5,7) limit by (simp add: StreamRead_def Let_def split: option.split)
  also have "\<dots> \<longleftrightarrow> (\<exists>i < length raw. read_stuck cd gj code (raw ! i) \<and>
      int (length (filter (read_kept cd gj code) (take i raw))) < limit)"
    using read_limit_bounds(1) [of "rq_Limit req"] limit(1) by (subst read_loop_None_iff) simp_all
  finally show ?thesis unfolding read_stuck_def read_kept_def .
qed

text \<open>
  C23. A tail sends, in order and without gaps, the envelopes of the messages it takes from its
  channel: all of them while it is open; it ends without an error only on cancellation or on the
  close of the channel, and with one only when the client's \<open>Send\<close> fails.
\<close>

theorem TailStream_forwards:
  assumes "TailStream cd gj s req sends picks = Inr (opened, out, v)"
  shows "\<exists>f. ((yq_Filter req = [] \<and> f = None) \<or> (\<exists>code. f = Some code \<and> Compile gj (yq_Filter req) = Inr code)) \<and>
    prefix out (List.map_filter (tail_view cd gj (clusterRef s) f) picks) \<and>
    (case v of
       Open _ \<Rightarrow> out = List.map_filter (tail_view cd gj (clusterRef s) f) picks
     | Ended None \<Rightarrow> TailDone \<in> set picks \<or> TailClosed \<in> set picks
     | Ended (Some e) \<Rightarrow> sends (length out) = Some e
     | Hung \<Rightarrow> f \<noteq> None)"
  using assms
proof (rule TailStream_ok)
  fix f assume run: "serve (tail_turn cd gj (clusterRef s) f) sends () picks [] = (out, v)"
    and f: "(yq_Filter req = [] \<and> f = None) \<or> (\<exists>code. f = Some code \<and> Compile gj (yq_Filter req) = Inr code)"
  have "f \<noteq> None" if "v = Hung"
  proof
    assume "f = None"
    then have "tail_turn cd gj (clusterRef s) f u p \<noteq> Hang" for u p
      by (auto simp: tail_turn_def buildEnvelope_def filter_keeps_def split: tail_pick.splits sum.splits)
    then have "serve (tail_turn cd gj (clusterRef s) f) sends () picks acc \<noteq> (out, Hung)" for acc
      by (induction picks arbitrary: acc) (auto split: turn.splits option.splits)
    with run that show False by blast
  qed
  moreover have "prefix out (List.map_filter (tail_view cd gj (clusterRef s) f) picks)"
    using tail_loop.serve_prefix [OF run] by auto
  ultimately show ?thesis
    using f tail_loop.serve_open tail_loop.serve_ended tail_loop.serve_failed run
    by (intro exI [of _ f]) (fastforce split: verdict.splits option.splits)
qed

text \<open>
  C19. Reading and tailing agree: for the same filter, the messages a read returns are the first
  \<open>limit\<close> envelopes that a tail would send for the messages the backend gave the read.
\<close>

theorem StreamRead_agrees_with_TailStream:
  assumes "StreamRead cd gj s req = Some (Inr resp)"
  shows "\<exists>r opts raw. srv_streams s = Some r \<and> rd_Read r (rq_StreamName req) opts = (raw, None) \<and>
    (\<forall>treq opened out. yq_Filter treq = rq_Filter req \<longrightarrow>
       TailStream cd gj s treq (\<lambda>_. None) (map TailMsg raw) = Inr (opened, out, Open ()) \<longrightarrow>
       rr_Messages resp = take (nat (read_limit (rq_Limit req))) (map yr_Envelope out))"
  using assms
proof (rule StreamRead_ok)
  fix r since until' f raw
  assume r: "srv_streams s = Some r"
    and rd: "rd_Read r (rq_StreamName req) \<lparr>ro_Since = since, ro_Until = until',
        ro_Limit = backend_limit f (read_limit (rq_Limit req))\<rparr> = (raw, None)"
    and f: "(rq_Filter req = [] \<and> f = None) \<or> (\<exists>code. f = Some code \<and> Compile gj (rq_Filter req) = Inr code)"
    and resp: "resp = \<lparr>rr_Cluster = clusterRef s, rr_Name = rq_StreamName req, rr_Count = i32_len (rr_Messages resp),
        rr_Messages = take (nat (read_limit (rq_Limit req))) (List.map_filter (env_of cd gj f) raw)\<rparr>"
  have ms: "rr_Messages resp = take (nat (read_limit (rq_Limit req))) (List.map_filter (env_of cd gj f) raw)"
    by (subst resp) simp
  have "rr_Messages resp = take (nat (read_limit (rq_Limit req))) (map yr_Envelope out)"
    if same: "yq_Filter treq = rq_Filter req" and
      "TailStream cd gj s treq (\<lambda>_. None) (map TailMsg raw) = Inr (opened, out, Open ())" for treq opened out
    using that(2)
  proof (rule TailStream_ok)
    fix f' assume run: "serve (tail_turn cd gj (clusterRef s) f') (\<lambda>_. None) () (map TailMsg raw) [] = (out, Open ())"
      and f': "(yq_Filter treq = [] \<and> f' = None) \<or> (\<exists>code. f' = Some code \<and> Compile gj (yq_Filter treq) = Inr code)"
    have "Compile gj [] \<noteq> Inr code" for code by (simp add: Compile_def)
    then have "f' = f" using f f' same by auto
    with tail_loop.serve_open [OF run] show ?thesis
      by (simp add: tail_view_msgs ms comp_def)
  qed
  with r rd show ?thesis by blast
qed

section \<open>Witnesses\<close>

definition ex_read :: "string \<Rightarrow> StreamReadRequest" where
  "ex_read jq = \<lparr>rq_StreamName = ''s'', rq_Since = [], rq_Until = [], rq_Limit = 2, rq_Filter = jq\<rparr>"

definition ex_tail :: TailStreamRequest where
  "ex_tail = \<lparr>yq_Name = ''s'', yq_Filter = [], yq_StartAtSeq = 0, yq_StartAtTs = []\<rparr>"

abbreviation ex_stream_svc :: "ex_cluster Service" where
  "ex_stream_svc \<equiv> ex_svc (Some (js_reader ex_js))"

lemmas ex_stream_defs = ex_read_def ex_tail_def ex_svc_def js_reader_def js_Read_def js_Tail_def ex_js_def ex_msg_def
  clamp_read_limit_def maxReadLimit_def read_limit_def streamReadMaxLimit_def backend_limit_def parseTimeWindow_def
  After_def zero_time_def IsZero_def ex_codec_of_def filter_keeps_def i32_len_def

lemma StreamRead_contract_witness:
  "\<exists>resp. StreamRead ex_codec_of (ex_jq JqDone) ex_stream_svc (ex_read []) = Some (Inr resp) \<and>
     length (rr_Messages resp) = 2 \<and> sorted_wrt (<) (map en_Sequence (rr_Messages resp))"
proof -
  obtain resp where resp: "StreamRead ex_codec_of (ex_jq JqDone) ex_stream_svc (ex_read []) = Some (Inr resp)"
    "length (rr_Messages resp) = 2"
    by (simp add: StreamRead_def Let_def ex_stream_defs)
  have "srv_streams ex_stream_svc = Some (js_reader ex_js)" by (simp add: ex_svc_def)
  from StreamRead_contract [OF ex_js_ok this resp(1)] resp show ?thesis by auto
qed

lemma ex_js_shown:
  assumes "js_Read ex_js name opts = (ms, err)" and "m \<in> set ms"
  shows "shown_ok (rm_Timestamp m)"
proof -
  obtain t where m: "rm_Timestamp m = \<lparr>t_ns = t, t_off = 0\<rparr>" and t: "t = 10000000000 \<or> t = 20000000000 \<or> t = 30000000000"
    using ex_js_times [OF assms] by (cases "rm_Timestamp m") auto
  have first: "civil 0 = (1, 1, 1)" unfolding civil_def Let_def by simp
  from t have "local_year \<lparr>t_ns = t, t_off = 0\<rparr> = 1 \<and> Second \<le> t"
    by (elim disjE) (simp_all add: local_year_def Second_def first)
  with m show ?thesis by (simp add: shown_ok_def)
qed

text \<open>Reading the example backend without a filter succeeds for every window that parses.\<close>

lemma ex_read_succeeds:
  assumes "parseTimeWindow ex_codec_of (rq_Since req) (rq_Until req) = Inr (since, until')"
    and "rq_Filter req = []" "rq_StreamName req \<noteq> []"
  shows "\<exists>resp. StreamRead ex_codec_of (ex_jq JqDone) ex_stream_svc req = Some (Inr resp)"
proof -
  have read: "\<exists>raw. js_Read ex_js name opts = (raw, None)" for name opts
    by (simp add: js_Read_def ex_js_def Let_def)
  have "\<exists>out. read_loop ex_codec_of (ex_jq JqDone) None limit raw [] = Some out" for limit raw
    using read_loop_total [of raw ex_codec_of "ex_jq JqDone" None limit "[]"]
    by (simp add: buildEnvelope_total filter_keeps_def)
  then obtain out where loop: "\<And>limit raw. read_loop ex_codec_of (ex_jq JqDone) None limit raw [] = Some (out limit raw)"
    by metis
  obtain raw where read: "\<And>name opts. js_Read ex_js name opts = (raw name opts, None)" using read by metis
  show ?thesis using assms by (simp add: StreamRead_def ex_svc_def js_reader_def Let_def loop read)
qed

lemma StreamRead_resumes_witness:
  "\<exists>resp resp' e. StreamRead ex_codec_of (ex_jq JqDone) ex_stream_svc (ex_read []) = Some (Inr resp) \<and>
     e \<in> set (rr_Messages resp) \<and>
     StreamRead ex_codec_of (ex_jq JqDone) ex_stream_svc ((ex_read [])\<lparr>rq_Since := en_Timestamp e\<rparr>) = Some (Inr resp') \<and>
     (\<exists>m :: RawMessage. en_Timestamp e = rfc3339OrEmpty (rm_Timestamp m) \<and>
       (\<forall>e' \<in> set (rr_Messages resp'). \<exists>m' :: RawMessage. en_Timestamp e' = rfc3339OrEmpty (rm_Timestamp m') \<and>
          t_ns (rm_Timestamp m) div Second \<le> t_ns (rm_Timestamp m') div Second))"
proof -
  obtain resp e es where resp: "StreamRead ex_codec_of (ex_jq JqDone) ex_stream_svc (ex_read []) = Some (Inr resp)"
    "rr_Messages resp = e # es"
    by (simp add: StreamRead_def Let_def ex_stream_defs)
  then have e: "e \<in> set (rr_Messages resp)" by simp
  have reader: "srv_streams ex_stream_svc = Some (js_reader ex_js)" by (simp add: ex_svc_def)
  obtain resp' where resp': "StreamRead ex_codec_of (ex_jq JqDone) ex_stream_svc ((ex_read [])\<lparr>rq_Since := en_Timestamp e\<rparr>)
      = Some (Inr resp')"
  proof -
    obtain since until' where "read_from ex_js (rq_StreamName (ex_read [])) since until' e"
      using StreamRead_origin [OF ex_js_ok reader resp(1)] e by blast
    then obtain m :: RawMessage where "shown_ok (rm_Timestamp m)" "en_Timestamp e = rfc3339OrEmpty (rm_Timestamp m)"
      unfolding read_from_def by (metis ex_js_shown)
    then have "\<exists>since. parseTimeWindow ex_codec_of (en_Timestamp e) [] = Inr (since, zero_time)"
      by (simp add: parseTimeWindow_def time_Parse_def parse_shown)
    with that show thesis
      using ex_read_succeeds [of "(ex_read [])\<lparr>rq_Since := en_Timestamp e\<rparr>"] by (auto simp: ex_read_def)
  qed
  have req: "rq_Since ((ex_read [])\<lparr>rq_Since := en_Timestamp e\<rparr>) = en_Timestamp e"
    "rq_Until ((ex_read [])\<lparr>rq_Since := en_Timestamp e\<rparr>) = rq_Until (ex_read [])" by simp_all
  from StreamRead_resumes [OF ex_js_ok reader resp(1) e ex_js_shown req] obtain m :: RawMessage where
    "en_Timestamp e = rfc3339OrEmpty (rm_Timestamp m)"
    "\<And>resp'. StreamRead ex_codec_of (ex_jq JqDone) ex_stream_svc ((ex_read [])\<lparr>rq_Since := en_Timestamp e\<rparr>) = Some (Inr resp') \<Longrightarrow>
       \<forall>e' \<in> set (rr_Messages resp'). \<exists>m' :: RawMessage. en_Sequence e' = rm_Sequence m' \<and>
         en_Timestamp e' = rfc3339OrEmpty (rm_Timestamp m') \<and> t_ns (rm_Timestamp m) div Second \<le> t_ns (rm_Timestamp m') div Second"
    by fast
  from this(1) this(2) [OF resp'] have "\<exists>m :: RawMessage. en_Timestamp e = rfc3339OrEmpty (rm_Timestamp m) \<and>
      (\<forall>e' \<in> set (rr_Messages resp'). \<exists>m' :: RawMessage. en_Timestamp e' = rfc3339OrEmpty (rm_Timestamp m') \<and>
         t_ns (rm_Timestamp m) div Second \<le> t_ns (rm_Timestamp m') div Second)" by fast
  with resp(1) e resp' show ?thesis by blast
qed

lemma StreamRead_hangs_iff_witness:
  "StreamRead ex_codec_of (ex_jq (forever JNull)) ex_stream_svc (ex_read ''.x'') = None \<and>
   StreamRead ex_codec_of (ex_jq JqDone) ex_stream_svc (ex_read ''.x'') \<noteq> None"
proof -
  have req: "srv_streams ex_stream_svc = Some (js_reader ex_js)" "rq_StreamName (ex_read ''.x'') \<noteq> []" "rq_Filter (ex_read ''.x'') \<noteq> []"
    "parseTimeWindow ex_codec_of (rq_Since (ex_read ''.x'')) (rq_Until (ex_read ''.x'')) = Inr (zero_time, zero_time)"
    "(2::int) = (if sint (rq_Limit (ex_read ''.x'')) \<le> 0 then 100 else min 1000 (sint (rq_Limit (ex_read ''.x''))))"
    by (simp_all add: ex_svc_def ex_read_def parseTimeWindow_def)
  have code: "Compile (ex_jq it) (rq_Filter (ex_read ''.x'')) = Inr ()" for it by (simp add: Compile_def ex_jq_def ex_read_def)
  obtain m raw where raw: "rd_Read (js_reader ex_js) (rq_StreamName (ex_read ''.x''))
      \<lparr>ro_Since = zero_time, ro_Until = zero_time, ro_Limit = min 1000 (4 * 2)\<rparr> = (m # raw, None)"
    by (simp add: ex_stream_defs)
  have obj: "\<exists>obj. json_UnmarshalMap ex_codec_of b = Inr obj" for b by (simp add: ex_codec_of_def)
  note iff = StreamRead_hangs_iff [OF req(1-4) code req(5) raw]
  have "StreamRead ex_codec_of (ex_jq (forever JNull)) ex_stream_svc (ex_read ''.x'') = None"
    unfolding iff using obj forever_hangs by (intro exI [of _ 0]) simp
  moreover have "Match (ex_jq JqDone) () v \<noteq> None" for v by (simp add: Match_def ex_jq_def)
  then have "StreamRead ex_codec_of (ex_jq JqDone) ex_stream_svc (ex_read ''.x'') \<noteq> None" unfolding iff by blast
  ultimately show ?thesis by blast
qed

lemma TailStream_forwards_witness:
  "\<exists>opened out. TailStream ex_codec_of (ex_jq JqDone) ex_stream_svc ex_tail (\<lambda>_. None)
       [TailMsg \<lparr>rm_Subject = ''s'', rm_Sequence = 4, rm_Timestamp = zero_time, rm_Data = ''{}''\<rparr>, TailDone]
       = Inr (opened, out, Ended None) \<and> length out = 1 \<and> length out \<le> 1"
proof -
  let ?p = "[TailMsg \<lparr>rm_Subject = ''s'', rm_Sequence = 4, rm_Timestamp = zero_time, rm_Data = ''{}''\<rparr>, TailDone]"
  obtain opened out where *: "TailStream ex_codec_of (ex_jq JqDone) ex_stream_svc ex_tail (\<lambda>_. None) ?p
      = Inr (opened, out, Ended None)" "length out = 1"
    by (simp add: TailStream_def tail_turn_def buildEnvelope_def ex_stream_defs Let_def)
  obtain f where "prefix out (List.map_filter (tail_view ex_codec_of (ex_jq JqDone) (clusterRef ex_stream_svc) f) ?p)"
    using TailStream_forwards [OF *(1)] by blast
  then have "length out \<le> 1"
    by (auto simp: map_filter_simps tail_view_def dest!: prefix_length_le split: option.splits)
  with * show ?thesis by blast
qed

lemma StreamRead_agrees_with_TailStream_witness:
  "\<exists>resp r opts raw. StreamRead ex_codec_of (ex_jq JqDone) ex_stream_svc (ex_read []) = Some (Inr resp) \<and>
     srv_streams ex_stream_svc = Some r \<and> rd_Read r ''s'' opts = (raw, None) \<and>
     (\<forall>opened out. TailStream ex_codec_of (ex_jq JqDone) ex_stream_svc ex_tail (\<lambda>_. None) (map TailMsg raw)
         = Inr (opened, out, Open ()) \<longrightarrow> rr_Messages resp = take 2 (map yr_Envelope out))"
proof -
  obtain resp where resp: "StreamRead ex_codec_of (ex_jq JqDone) ex_stream_svc (ex_read []) = Some (Inr resp)"
    by (simp add: StreamRead_def Let_def ex_stream_defs)
  have "nat (read_limit (rq_Limit (ex_read []))) = 2" "yq_Filter ex_tail = rq_Filter (ex_read [])"
    "rq_StreamName (ex_read []) = ''s''"
    by (simp_all add: ex_stream_defs)
  with StreamRead_agrees_with_TailStream [OF resp] resp show ?thesis by metis
qed

end
