(* ===== verification/Tally.thy ===== *)
theory Tally
  imports Prelude
begin

text \<open>
  Counting into a Go map: each element looks its key up, makes a fresh entry when there is none, and
  updates the entry. Several components count this way; the interface says which number an entry
  holds and what an element adds to it, and gives the totals.
\<close>

definition upsert :: "'k \<Rightarrow> ('v \<Rightarrow> 'v) \<Rightarrow> 'v \<Rightarrow> ('k \<rightharpoonup> 'v) \<Rightarrow> ('k \<rightharpoonup> 'v)" where
  "upsert k f init m = m(k \<mapsto> f (case m k of None \<Rightarrow> init | Some v \<Rightarrow> v))"

fun tally :: "('x \<Rightarrow> 'k) \<Rightarrow> ('x \<Rightarrow> 'v \<Rightarrow> 'v) \<Rightarrow> ('x \<Rightarrow> 'v) \<Rightarrow> 'x list \<Rightarrow> ('k \<rightharpoonup> 'v) \<Rightarrow> ('k \<rightharpoonup> 'v)" where
  "tally key bump init [] m = m"
| "tally key bump init (x # xs) m = tally key bump init xs (upsert (key x) (bump x) (init x) m)"

lemma upsert_other [simp]: "k' \<noteq> k \<Longrightarrow> upsert k f i m k' = m k'"
  by (simp add: upsert_def)

lemma dom_upsert [simp]: "dom (upsert k f i m) = insert k (dom m)"
  by (auto simp: upsert_def)

lemma dom_tally: "dom (tally key bump init xs m) = dom m \<union> key ` set xs"
  by (induction xs arbitrary: m) auto

locale counting =
  fixes key :: "'x \<Rightarrow> 'k" and bump :: "'x \<Rightarrow> 'v \<Rightarrow> 'v" and init :: "'x \<Rightarrow> 'v"
    and val :: "'v \<Rightarrow> 'n::comm_monoid_add" and weight :: "'x \<Rightarrow> 'n"
  assumes val_init: "val (init x) = 0"
    and val_bump: "val (bump x v) = val v + weight x"
begin

definition total :: "('k \<rightharpoonup> 'v) \<Rightarrow> 'k \<Rightarrow> 'n" where
  "total m k = (case m k of None \<Rightarrow> 0 | Some v \<Rightarrow> val v)"

lemma total_upsert: "total (upsert (key x) (bump x) (init x) m) k = total m k + (if key x = k then weight x else 0)"
  by (auto simp: total_def upsert_def val_init val_bump split: option.split)

text \<open>The number under a key is what was there and the weights of the elements with that key.\<close>

lemma total_tally:
  "total (tally key bump init xs m) k = total m k + sum_list (map weight (filter (\<lambda>x. key x = k) xs))"
  by (induction xs arbitrary: m) (auto simp: total_upsert ac_simps)

lemma val_tally:
  assumes "tally key bump init xs Map.empty k = Some v"
  shows "val v = sum_list (map weight (filter (\<lambda>x. key x = k) xs))"
  using total_tally [of xs Map.empty k] assms by (simp add: total_def)

text \<open>Nothing is counted twice or lost.\<close>

lemma total_sum:
  assumes "finite K" and "key ` set xs \<subseteq> K"
  shows "(\<Sum>k\<in>K. total (tally key bump init xs Map.empty) k) = sum_list (map weight xs)"
proof -
  have "(\<Sum>k\<in>K. sum_list (map weight (filter (\<lambda>x. key x = k) xs))) = sum_list (map weight xs)"
    using assms(2)
  proof (induction xs)
    case (Cons x xs)
    then have "key x \<in> K" by simp
    have "(\<Sum>k\<in>K. sum_list (map weight (filter (\<lambda>y. key y = k) (x # xs)))) =
        (\<Sum>k\<in>K. (if key x = k then weight x else 0) + sum_list (map weight (filter (\<lambda>y. key y = k) xs)))"
      by (rule sum.cong) simp_all
    also have "\<dots> = weight x + sum_list (map weight xs)"
      using Cons assms(1) \<open>key x \<in> K\<close> by (simp add: sum.distrib sum.delta)
    finally show ?case by simp
  qed simp
  then show ?thesis by (simp add: total_tally) (simp add: total_def)
qed

end

lemma sum_list_ones: "sum_list (map (\<lambda>x. if P x then 1 else 0) xs) = (of_nat (length (filter P xs)) :: 'n::semiring_1)"
  by (induction xs) simp_all

end
