(* ===== verification/Health.thy ===== *)
theory Health
  imports Service Tally "HOL-Library.Log_Nat"
begin

text \<open>
  The health and identity calls: \<open>eob_health.go\<close>, \<open>trace_health.go\<close>, \<open>cluster_identity.go\<close> and
  \<open>heartbeat.go\<close>. They only read: the typed client and the reader answer from the cluster as it is
  during the call. Replica counts are int32 and compared as signed; sums of them wrap. A Go map in a
  response is a partial map, a nil map the empty one.
\<close>

section \<open>Responses\<close>

record ComponentStatus =
  cs_Kind :: string
  cs_Status :: string
  cs_Ready :: i32
  cs_Desired :: i32
  cs_Detail :: string

record DirectiveStatus =
  di_Name :: string
  di_Ready :: i32
  di_Desired :: i32
  di_Status :: string

record NodeAgentSummary =
  na_Ready :: i32
  na_Total :: i32

record EoBHealthResponse =
  hr_Cluster :: ClusterRef
  hr_ClusterState :: string
  hr_Components :: "string \<rightharpoonup> ComponentStatus"
  hr_Directives :: "DirectiveStatus list"
  hr_AgentsPerNode :: "string \<rightharpoonup> NodeAgentSummary"

record TraceHealthResponse =
  th_Cluster :: ClusterRef
  th_ClusterState :: string
  th_Components :: "string \<rightharpoonup> ComponentStatus"
  th_AgentsPerNode :: "string \<rightharpoonup> NodeAgentSummary"

record ClusterIdentityResponse =
  ci_Cluster :: ClusterRef
  ci_K8SVersion :: string
  ci_EobVersion :: string
  ci_McpVersion :: string

record HeartbeatResponse =
  hb_Cluster :: ClusterRef
  hb_ServerTime :: string
  hb_UptimeSeconds :: i64
  hb_McpVersion :: string
  hb_EobVersion :: string
  hb_KubeReachable :: bool
  hb_DirectiveCount :: i32
  hb_StreamsReachable :: bool
  hb_StreamCount :: i32
  hb_ErrorCount_24H :: i64

section \<open>Component status (eob_health.go)\<close>

definition tawonDashboardDeployment :: string where
  "tawonDashboardDeployment = ''tawon-dashboard''"
definition tawonStreamstoreStatefulSet :: string where
  "tawonStreamstoreStatefulSet = ''tawon-streamstore''"

definition new_status :: "string \<Rightarrow> ComponentStatus" where
  "new_status kind = \<lparr>cs_Kind = kind, cs_Status = [], cs_Ready = 0, cs_Desired = 0, cs_Detail = []\<rparr>"

definition absentOrError :: "ComponentStatus \<Rightarrow> ext_err \<Rightarrow> ComponentStatus" where
  "absentOrError cs e =
     (if ee_not_found e then cs\<lparr>cs_Status := ''absent''\<rparr>
      else cs\<lparr>cs_Status := ''error'', cs_Detail := ee_msg e\<rparr>)"

definition readyStatus :: "i32 \<Rightarrow> i32 \<Rightarrow> string" where
  "readyStatus ready desired =
     (if desired = 0 then ''absent''
      else if sint ready \<ge> sint desired then ''ok''
      else ''degraded'')"

definition deploymentStatus :: "kube_client \<Rightarrow> string \<Rightarrow> string \<Rightarrow> ComponentStatus" where
  "deploymentStatus kc ns name =
     (case kc_GetDeployment kc ns name of
        Inl e \<Rightarrow> absentOrError (new_status ''Deployment'') e
      | Inr dep \<Rightarrow>
          let desired = (case dep_Replicas dep of Some n \<Rightarrow> n | None \<Rightarrow> 1)
          in (new_status ''Deployment'')\<lparr>cs_Desired := desired, cs_Ready := dep_ReadyReplicas dep,
                cs_Status := readyStatus (dep_ReadyReplicas dep) desired\<rparr>)"

definition statefulSetStatus :: "kube_client \<Rightarrow> string \<Rightarrow> string \<Rightarrow> ComponentStatus" where
  "statefulSetStatus kc ns name =
     (case kc_GetStatefulSet kc ns name of
        Inl e \<Rightarrow> absentOrError (new_status ''StatefulSet'') e
      | Inr ss \<Rightarrow>
          let desired = (case sts_Replicas ss of Some n \<Rightarrow> n | None \<Rightarrow> 1)
          in (new_status ''StatefulSet'')\<lparr>cs_Desired := desired, cs_Ready := sts_ReadyReplicas ss,
                cs_Status := readyStatus (sts_ReadyReplicas ss) desired\<rparr>)"

definition webhookConfigStatus :: "kube_client \<Rightarrow> string \<Rightarrow> ComponentStatus" where
  "webhookConfigStatus kc name =
     (case kc_GetMutatingWebhooks kc name of
        Inl e \<Rightarrow> absentOrError (new_status ''MutatingWebhookConfiguration'') e
      | Inr webhooks \<Rightarrow>
          let count = i32_len webhooks
          in (new_status ''MutatingWebhookConfiguration'')\<lparr>cs_Desired := count, cs_Ready := count,
                cs_Status := (if count = 0 then ''absent'' else ''ok'')\<rparr>)"

definition directive_of :: "daemonset \<Rightarrow> DirectiveStatus" where
  "directive_of ds =
     \<lparr>di_Name = ds_Name ds, di_Ready = ds_NumberReady ds, di_Desired = ds_DesiredNumberScheduled ds,
      di_Status = readyStatus (ds_NumberReady ds) (ds_DesiredNumberScheduled ds)\<rparr>"

definition directiveStatus ::
  "DirectiveStatus sorter \<Rightarrow> config \<Rightarrow> kube_client \<Rightarrow> ComponentStatus \<times> DirectiveStatus list" where
  "directiveStatus srt cfg kc =
     (case kc_ListDaemonSets kc (TawonNamespace cfg) (DirectiveLabelSelector cfg) of
        Inl e \<Rightarrow> ((new_status ''DaemonSet'')\<lparr>cs_Status := ''error'', cs_Detail := ee_msg e\<rparr>, [])
      | Inr items \<Rightarrow>
          if items = [] then ((new_status ''DaemonSet'')\<lparr>cs_Status := ''absent''\<rparr>, [])
          else
            let perDirective = map directive_of items;
                totalReady = sum_list (map ds_NumberReady items);
                totalDesired = sum_list (map ds_DesiredNumberScheduled items)
            in ((new_status ''DaemonSet'')\<lparr>cs_Ready := totalReady, cs_Desired := totalDesired,
                   cs_Status := readyStatus totalReady totalDesired\<rparr>,
                srt (\<lambda>x y. di_Name x < di_Name y) perDirective))"

fun isPodReady_conditions :: "(string \<times> string) list \<Rightarrow> bool" where
  "isPodReady_conditions [] = False"
| "isPodReady_conditions ((t, st) # cs) = (if t = ''Ready'' \<and> st = ''True'' then True else isPodReady_conditions cs)"

definition isPodReady :: "pod \<Rightarrow> bool" where
  "isPodReady p = isPodReady_conditions (pod_Conditions p)"

definition pod_node :: "pod \<Rightarrow> string" where
  "pod_node p = (if pod_NodeName p = [] then ''<pending>'' else pod_NodeName p)"

definition bump_node :: "pod \<Rightarrow> NodeAgentSummary \<Rightarrow> NodeAgentSummary" where
  "bump_node p sm =
     (let sm = sm\<lparr>na_Total := na_Total sm + 1\<rparr>
      in if isPodReady p then sm\<lparr>na_Ready := na_Ready sm + 1\<rparr> else sm)"

definition no_agents :: NodeAgentSummary where
  "no_agents = \<lparr>na_Ready = 0, na_Total = 0\<rparr>"

definition agentReadinessByNode :: "config \<Rightarrow> kube_client \<Rightarrow> string \<rightharpoonup> NodeAgentSummary" where
  "agentReadinessByNode cfg kc =
     (case kc_ListPods kc (TawonNamespace cfg) (DirectiveLabelSelector cfg) of
        Inl e \<Rightarrow> Map.empty
      | Inr pods \<Rightarrow> tally pod_node bump_node (\<lambda>_. no_agents) pods Map.empty)"

definition EoBHealth :: "DirectiveStatus sorter \<Rightarrow> 'c Service \<Rightarrow> EoBHealthResponse" where
  "EoBHealth srt s =
     (case srv_kube s of
        None \<Rightarrow> \<lparr>hr_Cluster = clusterRef s, hr_ClusterState = ''no-cluster'', hr_Components = Map.empty,
                 hr_Directives = [], hr_AgentsPerNode = Map.empty\<rparr>
      | Some kc \<Rightarrow>
          (case directiveStatus srt (srv_cfg s) kc of
             (agent, directives) \<Rightarrow>
               \<lparr>hr_Cluster = clusterRef s, hr_ClusterState = ''connected'',
                hr_Components = [''operator'' \<mapsto> deploymentStatus kc (OperatorNamespace (srv_cfg s))
                    (OperatorDeploymentName (srv_cfg s)),
                  ''dashboard'' \<mapsto> deploymentStatus kc (TawonNamespace (srv_cfg s)) tawonDashboardDeployment,
                  ''streamstore'' \<mapsto> statefulSetStatus kc (TawonNamespace (srv_cfg s)) tawonStreamstoreStatefulSet,
                  ''webhook'' \<mapsto> webhookConfigStatus kc (WebhookConfigName (srv_cfg s)),
                  ''agent'' \<mapsto> agent],
                hr_Directives = directives, hr_AgentsPerNode = agentReadinessByNode (srv_cfg s) kc\<rparr>))"

section \<open>The defense stack (trace_health.go)\<close>

definition traceNamespace :: string where "traceNamespace = ''trace-system''"
definition traceAgentDS :: string where "traceAgentDS = ''trace-agent''"
definition raceNamespace :: string where "raceNamespace = ''defense-system''"
definition raceAgentDS :: string where "raceAgentDS = ''defense-agent''"

definition daemonSetStatusAndNodes ::
  "kube_client \<Rightarrow> string \<Rightarrow> string \<Rightarrow> ComponentStatus \<times> (string \<rightharpoonup> NodeAgentSummary)" where
  "daemonSetStatusAndNodes kc ns name =
     (case kc_GetDaemonSet kc ns name of
        Inl e \<Rightarrow> (absentOrError (new_status ''DaemonSet'') e, Map.empty)
      | Inr ds \<Rightarrow>
          let cs = (new_status ''DaemonSet'')\<lparr>cs_Desired := ds_DesiredNumberScheduled ds, cs_Ready := ds_NumberReady ds,
                cs_Status := readyStatus (ds_NumberReady ds) (ds_DesiredNumberScheduled ds)\<rparr>
          in (case ds_Selector ds of
                Inl e \<Rightarrow> (cs, Map.empty)
              | Inr sel \<Rightarrow>
                  (case kc_ListPods kc ns sel of
                     Inl e \<Rightarrow> (cs, Map.empty)
                   | Inr pods \<Rightarrow> (cs, tally pod_node bump_node (\<lambda>_. no_agents) pods Map.empty))))"

text \<open>
  The maps are visited in an order that Go leaves open: each comes with the order of its keys.
\<close>

definition merge_one :: "NodeAgentSummary \<Rightarrow> NodeAgentSummary \<Rightarrow> NodeAgentSummary" where
  "merge_one sm out = \<lparr>na_Ready = na_Ready out + na_Ready sm, na_Total = na_Total out + na_Total sm\<rparr>"

fun merge_keys ::
  "string list \<Rightarrow> (string \<rightharpoonup> NodeAgentSummary) \<Rightarrow> (string \<rightharpoonup> NodeAgentSummary) \<Rightarrow> (string \<rightharpoonup> NodeAgentSummary)" where
  "merge_keys [] m out = out"
| "merge_keys (node # nodes) m out =
     merge_keys nodes m (case m node of None \<Rightarrow> out | Some sm \<Rightarrow> upsert node (merge_one sm) no_agents out)"

fun mergeNodeSummaries ::
  "(string list \<times> (string \<rightharpoonup> NodeAgentSummary)) list \<Rightarrow> (string \<rightharpoonup> NodeAgentSummary) \<Rightarrow> (string \<rightharpoonup> NodeAgentSummary)" where
  "mergeNodeSummaries [] out = out"
| "mergeNodeSummaries ((nodes, m) # ms) out = mergeNodeSummaries ms (merge_keys nodes m out)"

definition TraceHealth :: "string list \<Rightarrow> string list \<Rightarrow> 'c Service \<Rightarrow> TraceHealthResponse" where
  "TraceHealth traceOrd raceOrd s =
     (case srv_kube s of
        None \<Rightarrow> \<lparr>th_Cluster = clusterRef s, th_ClusterState = ''no-cluster'', th_Components = Map.empty,
                 th_AgentsPerNode = Map.empty\<rparr>
      | Some kc \<Rightarrow>
          (case (daemonSetStatusAndNodes kc traceNamespace traceAgentDS, daemonSetStatusAndNodes kc raceNamespace raceAgentDS) of
             ((traceCS, traceNodes), (raceCS, raceNodes)) \<Rightarrow>
               \<lparr>th_Cluster = clusterRef s, th_ClusterState = ''connected'',
                th_Components = [''trace_agent'' \<mapsto> traceCS, ''race_agent'' \<mapsto> raceCS],
                th_AgentsPerNode = mergeNodeSummaries [(traceOrd, traceNodes), (raceOrd, raceNodes)] Map.empty\<rparr>))"

section \<open>Identity (cluster_identity.go)\<close>

definition operatorVersionLabel :: string where "operatorVersionLabel = ''app.kubernetes.io/version''"
definition operatorManagerContainer :: string where "operatorManagerContainer = ''manager''"

definition imageTag :: "string \<Rightarrow> string" where
  "imageTag ref =
     (if ref = [] then []
      else
        let ref = (case index_of (CHR ''@'') ref of Some i \<Rightarrow> take i ref | None \<Rightarrow> ref);
            tail = (case last_index_of (CHR ''/'') ref of Some i \<Rightarrow> drop (Suc i) ref | None \<Rightarrow> ref)
        in (case last_index_of (CHR '':'') tail of None \<Rightarrow> [] | Some i \<Rightarrow> drop (Suc i) tail))"

text \<open>The image of the first container named \<open>manager\<close>.\<close>

fun manager_image :: "(string \<times> string) list \<Rightarrow> string option" where
  "manager_image [] = None"
| "manager_image ((name, img) # cs) = (if name = operatorManagerContainer then Some img else manager_image cs)"

definition k8sVersion :: "'c Service \<Rightarrow> string" where
  "k8sVersion s =
     (case srv_kube s of
        None \<Rightarrow> []
      | Some kc \<Rightarrow> (case kc_ServerVersion kc of Inl e \<Rightarrow> [] | Inr v \<Rightarrow> v))"

definition eobVersion :: "'c Service \<Rightarrow> string" where
  "eobVersion s =
     (case srv_kube s of
        None \<Rightarrow> []
      | Some kc \<Rightarrow>
          (case kc_GetDeployment kc (OperatorNamespace (srv_cfg s)) (OperatorDeploymentName (srv_cfg s)) of
             Inl e \<Rightarrow> []
           | Inr dep \<Rightarrow>
               let v = (case dep_Labels dep operatorVersionLabel of Some v \<Rightarrow> v | None \<Rightarrow> []) in
               if v \<noteq> [] then v
               else
                 let tag = (case manager_image (dep_Containers dep) of Some img \<Rightarrow> imageTag img | None \<Rightarrow> []) in
                 if tag \<noteq> [] then tag
                 else (case dep_Containers dep of [] \<Rightarrow> [] | (_, img) # _ \<Rightarrow> imageTag img)))"

definition ClusterIdentity :: "'c Service \<Rightarrow> ClusterIdentityResponse" where
  "ClusterIdentity s =
     \<lparr>ci_Cluster = clusterRef s, ci_K8SVersion = k8sVersion s, ci_EobVersion = eobVersion s,
      ci_McpVersion = MCPVersion (srv_cfg s)\<rparr>"

section \<open>Heartbeat (heartbeat.go)\<close>

definition probeKube :: "'c Service \<Rightarrow> bool" where
  "probeKube s = (case srv_kube s of None \<Rightarrow> False | Some kc \<Rightarrow> is_ok (kc_ServerVersion kc))"

definition countDirectives :: "'c Service \<Rightarrow> i32" where
  "countDirectives s =
     (case srv_kube s of
        None \<Rightarrow> 0
      | Some kc \<Rightarrow>
          (case kc_ListDaemonSets kc (TawonNamespace (srv_cfg s)) (DirectiveLabelSelector (srv_cfg s)) of
             Inl e \<Rightarrow> 0
           | Inr items \<Rightarrow> i32_len items))"

definition probeStreams :: "'c Service \<Rightarrow> bool \<times> i32" where
  "probeStreams s =
     (case srv_streams s of
        None \<Rightarrow> (False, 0)
      | Some r \<Rightarrow> (case rd_List r of Inl e \<Rightarrow> (False, 0) | Inr infos \<Rightarrow> (True, i32_len infos)))"

text \<open>
  \<open>int64(d.Seconds())\<close> of a duration: \<open>Seconds\<close> adds the whole seconds and the nanoseconds over
  \<open>10^9\<close> as float64, so from \<open>2^24\<close> seconds on a sum just below the next second rounds up to it.
\<close>

definition pos_seconds :: "int \<Rightarrow> int" where
  "pos_seconds d =
     (let sec = d div Second; ns = d mod Second
      in if sec \<ge> 1 \<and> (Second - ns) * 2 ^ 53 \<le> Second * 2 ^ nat (bitlen sec - 1) then sec + 1 else sec)"

definition whole_seconds :: "int \<Rightarrow> i64" where
  "whole_seconds d = word_of_int (if d \<ge> 0 then pos_seconds d else - pos_seconds (- d))"

definition Heartbeat :: "'c Service \<Rightarrow> gotime \<Rightarrow> HeartbeatResponse" where
  "Heartbeat s now =
     (case probeStreams s of
        (reachable, n) \<Rightarrow>
          \<lparr>hb_Cluster = clusterRef s, hb_ServerTime = format_RFC3339 (now\<lparr>t_off := 0\<rparr>),
           hb_UptimeSeconds = whole_seconds (Sub now (srv_startTime s)), hb_McpVersion = MCPVersion (srv_cfg s),
           hb_EobVersion = eobVersion s, hb_KubeReachable = probeKube s, hb_DirectiveCount = countDirectives s,
           hb_StreamsReachable = reachable, hb_StreamCount = n, hb_ErrorCount_24H = 0\<rparr>)"

section \<open>Lemmas\<close>

lemma isPodReady_iff: "isPodReady p \<longleftrightarrow> (''Ready'', ''True'') \<in> set (pod_Conditions p)"
proof -
  have "isPodReady_conditions cs \<longleftrightarrow> (''Ready'', ''True'') \<in> set cs" for cs
    by (induction cs rule: isPodReady_conditions.induct) auto
  then show ?thesis by (simp add: isPodReady_def)
qed

interpretation node_total: counting pod_node bump_node "\<lambda>_. no_agents" na_Total "\<lambda>_. 1"
  by unfold_locales (simp_all add: no_agents_def bump_node_def Let_def)

interpretation node_ready: counting pod_node bump_node "\<lambda>_. no_agents" na_Ready "\<lambda>p. if isPodReady p then 1 else 0"
  by unfold_locales (simp_all add: no_agents_def bump_node_def Let_def)

text \<open>The entry that a list of pods gives a node.\<close>

definition node_entry :: "pod list \<Rightarrow> string \<Rightarrow> NodeAgentSummary option" where
  "node_entry pods node =
     (let ps = filter (\<lambda>p. pod_node p = node) pods
      in if ps = [] then None
         else Some \<lparr>na_Ready = of_nat (length (filter isPodReady ps)), na_Total = of_nat (length ps)\<rparr>)"

lemma tally_pods: "tally pod_node bump_node (\<lambda>_. no_agents) pods Map.empty = node_entry pods"
proof
  fix node
  let ?t = "tally pod_node bump_node (\<lambda>_. no_agents) pods Map.empty"
  show "?t node = node_entry pods node"
  proof (cases "?t node")
    case None
    then have "node \<notin> dom ?t" by blast
    then have "node \<notin> pod_node ` set pods" by (simp add: dom_tally)
    then show ?thesis using None by (auto simp: node_entry_def Let_def filter_empty_conv)
  next
    case (Some v)
    then have "node \<in> pod_node ` set pods" using dom_tally [of pod_node bump_node "\<lambda>_. no_agents" pods Map.empty] by auto
    moreover have "na_Total v = of_nat (length (filter (\<lambda>p. pod_node p = node) pods))"
      using node_total.val_tally [OF Some] by (simp add: sum_list_triv)
    moreover have "na_Ready v = of_nat (length (filter isPodReady (filter (\<lambda>p. pod_node p = node) pods)))"
      using node_ready.val_tally [OF Some] by (simp add: sum_list_ones del: filter_filter)
    ultimately show ?thesis using Some by (auto simp: node_entry_def Let_def filter_empty_conv)
  qed
qed

lemma merge_keys_eq:
  "distinct nodes \<Longrightarrow> merge_keys nodes m out node =
     (if node \<in> set nodes \<and> m node \<noteq> None
      then Some (merge_one (the (m node)) (case out node of None \<Rightarrow> no_agents | Some o' \<Rightarrow> o')) else out node)"
  by (induction nodes arbitrary: out) (auto simp: upsert_def split: option.split)

lemma node_entry_append:
  "node_entry (ps @ qs) node =
     (case node_entry ps node of
        None \<Rightarrow> node_entry qs node
      | Some a \<Rightarrow> (case node_entry qs node of None \<Rightarrow> Some a | Some b \<Rightarrow> Some (merge_one b a)))"
  by (simp add: node_entry_def merge_one_def Let_def del: filter_filter)

lemma merge_two:
  assumes "distinct o1" "set o1 = dom (node_entry ps)" "distinct o2" "set o2 = dom (node_entry qs)"
  shows "mergeNodeSummaries [(o1, node_entry ps), (o2, node_entry qs)] Map.empty = node_entry (ps @ qs)"
proof
  fix node
  have e: "merge_one a no_agents = a" for a :: NodeAgentSummary
    by (cases a) (simp add: merge_one_def no_agents_def)
  show "mergeNodeSummaries [(o1, node_entry ps), (o2, node_entry qs)] Map.empty node = node_entry (ps @ qs) node"
    using assms(2,4) by (auto simp: merge_keys_eq assms(1,3) node_entry_append e dom_def split: option.split)
qed

lemma sint_sum_list:
  assumes "\<forall>x \<in> set xs. 0 \<le> sint (f x :: i32)" and "(\<Sum>x\<leftarrow>xs. sint (f x)) < 2 ^ 31"
  shows "sint (sum_list (map f xs)) = (\<Sum>x\<leftarrow>xs. sint (f x))"
  using assms
proof (induction xs)
  case (Cons x xs)
  have nn: "0 \<le> (\<Sum>x\<leftarrow>xs. sint (f x))" using Cons.prems(1) by (intro sum_list_nonneg) auto
  with Cons have IH: "sint (sum_list (map f xs)) = (\<Sum>x\<leftarrow>xs. sint (f x))" by simp
  have "sint (f x + sum_list (map f xs)) = signed_take_bit 31 (sint (f x) + (\<Sum>x\<leftarrow>xs. sint (f x)))"
    by (simp add: sint_word_ariths IH)
  also have "\<dots> = sint (f x) + (\<Sum>x\<leftarrow>xs. sint (f x))"
    using Cons.prems nn by (intro signed_take_bit_int_eq_self) auto
  finally show ?case by simp
qed simp

text \<open>The aggregate of well-formed counts: no count is negative and none exceeds what is desired.\<close>

lemma sum_list_eq_iff:
  assumes "\<forall>x \<in> set xs. (f x :: int) \<le> g x"
  shows "(\<Sum>x\<leftarrow>xs. f x) \<ge> (\<Sum>x\<leftarrow>xs. g x) \<longleftrightarrow> (\<forall>x \<in> set xs. f x = g x)"
  using assms
proof (induction xs)
  case (Cons x xs)
  have "(\<Sum>x\<leftarrow>xs. f x) \<le> (\<Sum>x\<leftarrow>xs. g x)" using Cons.prems by (intro sum_list_mono) auto
  with Cons show ?case by fastforce
qed simp

lemma readyStatus_cases:
  "readyStatus r d = ''absent'' \<longleftrightarrow> d = 0"
  "readyStatus r d = ''degraded'' \<longleftrightarrow> d \<noteq> 0 \<and> sint r < sint d"
  "readyStatus r d = ''ok'' \<longleftrightarrow> d \<noteq> 0 \<and> sint d \<le> sint r"
  by (auto simp: readyStatus_def)

lemma aggregate_status:
  assumes "\<forall>d \<in> set items. 0 \<le> sint (ds_NumberReady d) \<and> sint (ds_NumberReady d) \<le> sint (ds_DesiredNumberScheduled d)"
    and "(\<Sum>d\<leftarrow>items. sint (ds_DesiredNumberScheduled d)) < 2 ^ 31"
  shows "readyStatus (sum_list (map ds_NumberReady items)) (sum_list (map ds_DesiredNumberScheduled items)) =
    (if \<forall>d \<in> set items. di_Status (directive_of d) = ''absent'' then ''absent''
     else if \<exists>d \<in> set items. di_Status (directive_of d) = ''degraded'' then ''degraded'' else ''ok'')"
proof -
  let ?r = "\<lambda>d. sint (ds_NumberReady d)" and ?w = "\<lambda>d. sint (ds_DesiredNumberScheduled d)"
  have le: "(\<Sum>d\<leftarrow>items. ?r d) \<le> (\<Sum>d\<leftarrow>items. ?w d)" using assms(1) by (intro sum_list_mono) auto
  have R: "sint (sum_list (map ds_NumberReady items)) = (\<Sum>d\<leftarrow>items. ?r d)"
    using assms le by (intro sint_sum_list) auto
  have D: "sint (sum_list (map ds_DesiredNumberScheduled items)) = (\<Sum>d\<leftarrow>items. ?w d)"
    using assms by (intro sint_sum_list) force+
  have zero: "sum_list (map ds_DesiredNumberScheduled items) = 0 \<longleftrightarrow> (\<forall>d \<in> set items. ds_DesiredNumberScheduled d = 0)"
  proof -
    have "sum_list (map ds_DesiredNumberScheduled items) = 0 \<longleftrightarrow> (\<Sum>d\<leftarrow>items. ?w d) = 0"
      unfolding D [symmetric] by (simp only: signed_eq_0_iff)
    also have "\<dots> \<longleftrightarrow> (\<forall>x \<in> set (map ?w items). x = 0)"
      using assms(1) by (intro sum_list_nonneg_eq_0_iff) force
    finally show ?thesis by (simp add: signed_eq_0_iff)
  qed
  have ge: "(\<Sum>d\<leftarrow>items. ?r d) \<ge> (\<Sum>d\<leftarrow>items. ?w d) \<longleftrightarrow> (\<forall>d \<in> set items. ?r d = ?w d)"
    using assms(1) by (intro sum_list_eq_iff) auto
  have deg: "(\<exists>d \<in> set items. di_Status (directive_of d) = ''degraded'') \<longleftrightarrow> \<not> (\<forall>d \<in> set items. ?r d = ?w d)"
  proof
    assume "\<exists>d \<in> set items. di_Status (directive_of d) = ''degraded''"
    then show "\<not> (\<forall>d \<in> set items. ?r d = ?w d)" by (force simp: directive_of_def readyStatus_cases)
  next
    assume "\<not> (\<forall>d \<in> set items. ?r d = ?w d)"
    then obtain d where d: "d \<in> set items" "?r d \<noteq> ?w d" by blast
    then have "?r d < ?w d" "0 \<le> ?r d" using assms(1) by force+
    then have "ds_DesiredNumberScheduled d \<noteq> 0" by auto
    with d \<open>?r d < ?w d\<close> show "\<exists>d \<in> set items. di_Status (directive_of d) = ''degraded''"
      by (auto simp: directive_of_def readyStatus_cases)
  qed
  have ab: "(\<forall>d \<in> set items. di_Status (directive_of d) = ''absent'') \<longleftrightarrow> (\<forall>d \<in> set items. ds_DesiredNumberScheduled d = 0)"
    by (simp add: directive_of_def readyStatus_cases)
  show ?thesis
    unfolding deg ab readyStatus_def R D zero ge by auto
qed

lemma after_last_Cons:
  "(case last_index_of c (x # xs) of Some i \<Rightarrow> drop (Suc i) (x # xs) | None \<Rightarrow> x # xs) =
     (if c \<in> set xs then (case last_index_of c xs of Some i \<Rightarrow> drop (Suc i) xs | None \<Rightarrow> xs)
      else if x = c then xs else x # xs)"
  by (cases "last_index_of c xs") (auto simp flip: last_index_of_None)

lemma after_last_append:
  assumes "c \<notin> set t"
  shows "(case last_index_of c (s @ t) of Some i \<Rightarrow> drop (Suc i) (s @ t) | None \<Rightarrow> s @ t) =
    (case last_index_of c s of Some i \<Rightarrow> drop (Suc i) s | None \<Rightarrow> s) @ t"
proof (induction s)
  case Nil
  have "last_index_of c t = None" using assms by simp
  then show ?case by (simp del: last_index_of_None)
next
  case (Cons x s)
  then show ?case
    using assms by (simp only: append_Cons after_last_Cons set_append Un_iff) simp
qed

lemma imageTag_cut:
  assumes "CHR ''@'' \<notin> set ref" and "digest = [] \<or> hd digest = CHR ''@''"
  shows "imageTag (ref @ digest) = imageTag ref"
proof (cases digest)
  case (Cons c t)
  then have "index_of (CHR ''@'') (ref @ digest) = Some (length ref)" using assms by simp
  moreover have "index_of (CHR ''@'') ref = None" using assms(1) by simp
  ultimately show ?thesis
    by (cases "ref = []") (simp add: imageTag_def Let_def Cons, simp (no_asm_simp) add: imageTag_def Let_def)
qed simp

section \<open>Properties\<close>

text \<open>
  C37. The agent status of the health report is that of its directives: absent when all of them are,
  degraded exactly when one of them is, ok otherwise, provided the counts are those of DaemonSets (no
  more ready than desired, fewer than \<open>2^31\<close> in all); and the report lists every directive once, sorted
  by name.
\<close>

theorem EoBHealth_agent_status:
  assumes "slice_sort srt" and "srv_kube s = Some kc"
    and "kc_ListDaemonSets kc (TawonNamespace (srv_cfg s)) (DirectiveLabelSelector (srv_cfg s)) = Inr items"
    and "items \<noteq> []"
    and "\<forall>d \<in> set items. 0 \<le> sint (ds_NumberReady d) \<and> sint (ds_NumberReady d) \<le> sint (ds_DesiredNumberScheduled d)"
    and "(\<Sum>d\<leftarrow>items. sint (ds_DesiredNumberScheduled d)) < 2 ^ 31"
  shows "\<exists>cs. hr_Components (EoBHealth srt s) ''agent'' = Some cs \<and>
    (let ds = hr_Directives (EoBHealth srt s) in
     cs_Status cs = (if \<forall>d \<in> set ds. di_Status d = ''absent'' then ''absent''
       else if \<exists>d \<in> set ds. di_Status d = ''degraded'' then ''degraded'' else ''ok'') \<and>
     mset ds = mset (map directive_of items) \<and> sorted (map di_Name ds))"
proof -
  let ?ds = "srt (\<lambda>x y. di_Name x < di_Name y) (map directive_of items)"
  have set: "set ?ds = directive_of ` set items" by (simp add: slice_sort.set_srt [OF assms(1)])
  have "hr_Directives (EoBHealth srt s) = ?ds"
    using assms(2-4) by (simp add: EoBHealth_def directiveStatus_def Let_def)
  moreover obtain cs where "hr_Components (EoBHealth srt s) ''agent'' = Some cs"
    "cs_Status cs = readyStatus (sum_list (map ds_NumberReady items)) (sum_list (map ds_DesiredNumberScheduled items))"
    using assms(2-4) by (simp add: EoBHealth_def directiveStatus_def Let_def)
  ultimately show ?thesis
    using slice_sort.srt_perm [OF assms(1)] slice_sort.sorted_srt_key [OF assms(1), of di_Name]
    by (simp add: aggregate_status [OF assms(5,6)] set)
qed

text \<open>
  C38. The per-node summary of the defense stack counts every pod of the two DaemonSets once, under its
  node or under \<open><pending>\<close>, and as ready exactly when it has a true Ready condition; the order in which
  the maps are visited plays no part.
\<close>

theorem TraceHealth_agents:
  assumes "srv_kube s = Some kc"
    and "kc_GetDaemonSet kc ''trace-system'' ''trace-agent'' = Inr d1" and "ds_Selector d1 = Inr sel1"
    and "kc_ListPods kc ''trace-system'' sel1 = Inr ps"
    and "kc_GetDaemonSet kc ''defense-system'' ''defense-agent'' = Inr d2" and "ds_Selector d2 = Inr sel2"
    and "kc_ListPods kc ''defense-system'' sel2 = Inr qs"
    and "distinct o1" "set o1 = pod_node ` set ps" "distinct o2" "set o2 = pod_node ` set qs"
  shows "th_AgentsPerNode (TraceHealth o1 o2 s) node =
    (let here = filter (\<lambda>p. (if pod_NodeName p = [] then ''<pending>'' else pod_NodeName p) = node) (ps @ qs) in
     if here = [] then None
     else Some \<lparr>na_Ready = of_nat (length (filter (\<lambda>p. (''Ready'', ''True'') \<in> set (pod_Conditions p)) here)),
                na_Total = of_nat (length here)\<rparr>)"
proof -
  have dom: "pod_node ` set xs = dom (node_entry xs)" for xs
    by (auto simp: node_entry_def Let_def filter_empty_conv split: if_splits)
  have "th_AgentsPerNode (TraceHealth o1 o2 s) =
      mergeNodeSummaries [(o1, node_entry ps), (o2, node_entry qs)] Map.empty"
    using assms(1-7)
    by (simp add: TraceHealth_def daemonSetStatusAndNodes_def traceNamespace_def traceAgentDS_def raceNamespace_def
        raceAgentDS_def Let_def tally_pods del: mergeNodeSummaries.simps)
  also have "\<dots> = node_entry (ps @ qs)"
    by (rule merge_two) (use assms(8-11) in \<open>simp_all add: dom\<close>)
  finally show ?thesis
    by (simp add: node_entry_def pod_node_def isPodReady_iff [abs_def] Let_def del: filter_append)
qed

text \<open>
  The tag of an image reference is what follows the last colon after the last slash, before any
  digest: it is recovered from every reference with a tag, and the port of a registry is not taken for
  one.
\<close>

theorem imageTag_roundtrip:
  assumes "CHR ''@'' \<notin> set repo" and "digest = [] \<or> hd digest = CHR ''@''"
    and "set tag \<inter> set '':/@'' = {}" and "set name \<inter> set '':/@'' = {}"
  shows "imageTag (repo @ '':'' @ tag @ digest) = tag \<and> imageTag (repo @ ''/'' @ name @ digest) = []"
proof
  let ?t = "(case last_index_of (CHR ''/'') repo of Some i \<Rightarrow> drop (Suc i) repo | None \<Rightarrow> repo)"
  have at: "index_of (CHR ''@'') (repo @ '':'' @ tag) = None" "index_of (CHR ''@'') (repo @ ''/'' @ name) = None"
    using assms(1,3,4) by auto
  have tail: "(case last_index_of (CHR ''/'') (repo @ '':'' @ tag) of Some i \<Rightarrow> drop (Suc i) (repo @ '':'' @ tag)
      | None \<Rightarrow> repo @ '':'' @ tag) = ?t @ '':'' @ tag"
    using after_last_append [of "CHR ''/''" "'':'' @ tag" repo] assms(3) by auto
  have "CHR ''@'' \<notin> set (repo @ '':'' @ tag)" using assms(1,3) by auto
  then have "imageTag (repo @ '':'' @ tag @ digest) = imageTag (repo @ '':'' @ tag)"
    using imageTag_cut [of "repo @ '':'' @ tag" digest] assms(2) by simp
  also have "\<dots> = tag"
    unfolding imageTag_def Let_def at(1) option.case tail
    using last_index_of_append [of "CHR '':''" tag ?t] assms(3) by simp
  finally show "imageTag (repo @ '':'' @ tag @ digest) = tag" .
  have "CHR ''@'' \<notin> set (repo @ ''/'' @ name)" using assms(1,4) by auto
  then have "imageTag (repo @ ''/'' @ name @ digest) = imageTag (repo @ ''/'' @ name)"
    using imageTag_cut [of "repo @ ''/'' @ name" digest] assms(2) by simp
  also have "\<dots> = []"
  proof -
    have none: "last_index_of (CHR '':'') name = None" using assms(4) by simp
    have last: "last_index_of (CHR ''/'') (repo @ CHR ''/'' # name) = Some (length repo)"
      using assms(4) by (intro last_index_of_append) simp
    show ?thesis
      unfolding imageTag_def Let_def at(2) option.case
      using none last by (simp del: last_index_of_None last_index_of_append)
  qed
  finally show "imageTag (repo @ ''/'' @ name @ digest) = []" .
qed

section \<open>Witnesses\<close>

definition ex_ds :: "string \<Rightarrow> i32 \<Rightarrow> i32 \<Rightarrow> daemonset" where
  "ex_ds n r d = \<lparr>ds_Name = n, ds_NumberReady = r, ds_DesiredNumberScheduled = d, ds_Selector = Inr n\<rparr>"

definition ex_pod :: "string \<Rightarrow> string \<Rightarrow> bool \<Rightarrow> pod" where
  "ex_pod n nd ready = \<lparr>pod_Name = n, pod_Namespace = ''t'', pod_NodeName = nd, pod_HostNetwork = False,
     pod_ServiceAccountName = [], pod_Ports = [], pod_HostIP = [], pod_PodIP = [], pod_PodIPs = [],
     pod_Conditions = (if ready then [(''Ready'', ''True'')] else []), pod_OwnerReferences = []\<rparr>"

definition ex_health_kube :: kube_client where
  "ex_health_kube = (ex_kube [] [])\<lparr>
     kc_ListDaemonSets := (\<lambda>_ _. Inr [ex_ds ''b'' 1 2, ex_ds ''a'' 3 3]),
     kc_GetDaemonSet := (\<lambda>_ n. Inr (ex_ds n 1 1)),
     kc_ListPods := (\<lambda>ns _. Inr (if ns = ''trace-system'' then [ex_pod ''p'' ''n1'' True, ex_pod ''q'' [] False]
        else [ex_pod ''r'' ''n1'' False]))\<rparr>"

definition ex_health_svc :: "ex_cluster Service" where
  "ex_health_svc = (ex_svc None)\<lparr>srv_kube := Some ex_health_kube\<rparr>"

lemma EoBHealth_agent_status_witness:
  "\<exists>cs. hr_Components (EoBHealth sort_by ex_health_svc) ''agent'' = Some cs \<and> cs_Status cs = ''degraded''"
proof -
  let ?items = "[ex_ds ''b'' 1 2, ex_ds ''a'' 3 3]"
  have k: "srv_kube ex_health_svc = Some ex_health_kube"
    "kc_ListDaemonSets ex_health_kube ns sel = Inr ?items" for ns sel
    by (simp_all add: ex_health_svc_def ex_health_kube_def)
  have wf: "\<forall>d \<in> set ?items. 0 \<le> sint (ds_NumberReady d) \<and> sint (ds_NumberReady d) \<le> sint (ds_DesiredNumberScheduled d)"
    "(\<Sum>d\<leftarrow>?items. sint (ds_DesiredNumberScheduled d)) < 2 ^ 31"
    by (simp_all add: ex_ds_def)
  have "\<exists>d \<in> set (hr_Directives (EoBHealth sort_by ex_health_svc)). di_Status d = ''degraded''"
    "\<not> (\<forall>d \<in> set (hr_Directives (EoBHealth sort_by ex_health_svc)). di_Status d = ''absent'')"
    by (simp_all add: EoBHealth_def directiveStatus_def k Let_def directive_of_def ex_ds_def readyStatus_def)
  with EoBHealth_agent_status [OF isort.slice_sort_axioms k _ wf] show ?thesis by (auto simp: Let_def)
qed

lemma TraceHealth_agents_witness:
  "th_AgentsPerNode (TraceHealth [''<pending>'', ''n1''] [''n1''] ex_health_svc) ''n1'' =
     Some \<lparr>na_Ready = 1, na_Total = 2\<rparr>"
proof -
  let ?ps = "[ex_pod ''p'' ''n1'' True, ex_pod ''q'' [] False]" and ?qs = "[ex_pod ''r'' ''n1'' False]"
  have "srv_kube ex_health_svc = Some ex_health_kube"
    "kc_GetDaemonSet ex_health_kube ''trace-system'' ''trace-agent'' = Inr (ex_ds ''trace-agent'' 1 1)"
    "ds_Selector (ex_ds n 1 1) = Inr n"
    "kc_ListPods ex_health_kube ''trace-system'' ''trace-agent'' = Inr ?ps"
    "kc_GetDaemonSet ex_health_kube ''defense-system'' ''defense-agent'' = Inr (ex_ds ''defense-agent'' 1 1)"
    "kc_ListPods ex_health_kube ''defense-system'' ''defense-agent'' = Inr ?qs"
    "set [''<pending>'', ''n1''] = pod_node ` set ?ps" "set [''n1''] = pod_node ` set ?qs" for n
    by (simp_all add: ex_health_svc_def ex_health_kube_def ex_ds_def pod_node_def ex_pod_def insert_commute)
  from TraceHealth_agents [OF this(1,2,3,4,5,3,6) _ this(7) _ this(8), of "''n1''"] show ?thesis
    by (simp add: ex_pod_def)
qed

lemma imageTag_examples:
  "imageTag ''host:5000/op:v1@sha256:0'' = ''v1'' \<and> imageTag ''host:5000/op@sha256:0'' = []"
proof
  show "imageTag ''host:5000/op:v1@sha256:0'' = ''v1''"
    using imageTag_roundtrip [of "''host:5000/op''" "''@sha256:0''" "''v1''" "''op''"] by simp
  show "imageTag ''host:5000/op@sha256:0'' = []"
    using imageTag_roundtrip [of "''host:5000''" "''@sha256:0''" "''v1''" "''op''"] by simp
qed

end
