(* ===== verification/Endpoints.thy ===== *)
theory Endpoints
  imports Service Tally
begin

text \<open>
  \<open>resolve_endpoints.go\<close> and \<open>east_west_graph.go\<close>: the snapshot of pods, services and nodes that turns
  an address into a workload, the call that resolves a list of addresses, and the call that samples
  connect events from the defense bus into a graph of named edges. Go maps are partial maps; where the
  code ranges over one, the order of its keys is an argument. The JSON decoder of the envelopes is an
  argument too.
\<close>

section \<open>Workloads\<close>

record ResolvedEndpoint =
  re_Ip :: string
  re_Port :: i32
  re_Kind :: string
  re_Name :: string
  re_Namespace :: string
  re_Workload :: string
  re_WorkloadKind :: string
  re_ServiceAccount :: string

definition no_endpoint :: ResolvedEndpoint where
  "no_endpoint = \<lparr>re_Ip = [], re_Port = 0, re_Kind = [], re_Name = [], re_Namespace = [], re_Workload = [],
     re_WorkloadKind = [], re_ServiceAccount = []\<rparr>"

text \<open>
  \<open>rsHashSuffix.ReplaceAllString(name, "")\<close> for the pattern \<open>-[0-9a-f]{6,10}$\<close>: a hyphen is no hex digit, so a
  match starts at the last hyphen.
\<close>

definition rsHashSuffix_strip :: "string \<Rightarrow> string" where
  "rsHashSuffix_strip name =
     (case last_index_of (CHR ''-'') name of
        None \<Rightarrow> name
      | Some i \<Rightarrow>
          let h = drop (Suc i) name
          in if 6 \<le> length h \<and> length h \<le> 10 \<and> list_all is_hex h then take i name else name)"

fun owner_workload :: "owner_ref list \<Rightarrow> string \<times> string" where
  "owner_workload [] = ([], [])"
| "owner_workload (r # rs) =
     (if or_Controller r \<noteq> Some True then owner_workload rs
      else if or_Kind r = ''ReplicaSet'' then (rsHashSuffix_strip (or_Name r), ''Deployment'')
      else (or_Name r, or_Kind r))"

definition workloadOf :: "pod \<Rightarrow> string \<times> string" where
  "workloadOf p = owner_workload (pod_OwnerReferences p)"

section \<open>The index\<close>

record endpointIndex =
  ix_byPodIP :: "string \<rightharpoonup> ResolvedEndpoint"
  ix_byHostPort :: "string \<rightharpoonup> ResolvedEndpoint"
  ix_bySvcIP :: "string \<rightharpoonup> ResolvedEndpoint"
  ix_byNodeIP :: "string \<rightharpoonup> ResolvedEndpoint"

definition pod_endpoint :: "pod \<Rightarrow> ResolvedEndpoint" where
  "pod_endpoint p =
     (case workloadOf p of (wl, wlKind) \<Rightarrow>
        no_endpoint\<lparr>re_Kind := ''pod'', re_Name := pod_Name p, re_Namespace := pod_Namespace p,
          re_Workload := wl, re_WorkloadKind := wlKind, re_ServiceAccount := pod_ServiceAccountName p\<rparr>)"

text \<open>\<open>fmt.Sprintf("%s:%d", ip, port)\<close>\<close>

definition host_port :: "string \<Rightarrow> i32 \<Rightarrow> string" where
  "host_port ip port = ip @ '':'' @ show_int (sint port)"

fun put_all :: "string list \<Rightarrow> 'v \<Rightarrow> (string \<rightharpoonup> 'v) \<Rightarrow> (string \<rightharpoonup> 'v)" where
  "put_all [] v m = m"
| "put_all (k # ks) v m = put_all ks v (m(k \<mapsto> v))"

definition pod_port_keys :: "pod \<Rightarrow> string list" where
  "pod_port_keys p =
     concat (map (\<lambda>(containerPort, hostPort).
         (if containerPort \<noteq> 0 then [host_port (pod_HostIP p) containerPort] else []) @
         (if hostPort \<noteq> 0 then [host_port (pod_HostIP p) hostPort] else [])) (concat (pod_Ports p)))"

definition pod_ip_keys :: "pod \<Rightarrow> string list" where
  "pod_ip_keys p = filter (\<lambda>ip. ip \<noteq> []) (pod_PodIPs p) @ (if pod_PodIP p \<noteq> [] then [pod_PodIP p] else [])"

fun index_pods :: "pod list \<Rightarrow> endpointIndex \<Rightarrow> endpointIndex" where
  "index_pods [] idx = idx"
| "index_pods (p # ps) idx =
     index_pods ps
       (if pod_HostNetwork p
        then idx\<lparr>ix_byHostPort := put_all (pod_port_keys p) (pod_endpoint p) (ix_byHostPort idx)\<rparr>
        else idx\<lparr>ix_byPodIP := put_all (pod_ip_keys p) (pod_endpoint p) (ix_byPodIP idx)\<rparr>)"

definition service_endpoint :: "k8s_service \<Rightarrow> ResolvedEndpoint" where
  "service_endpoint sv = no_endpoint\<lparr>re_Kind := ''service'', re_Name := svc_Name sv, re_Namespace := svc_Namespace sv\<rparr>"

fun index_services :: "k8s_service list \<Rightarrow> endpointIndex \<Rightarrow> endpointIndex" where
  "index_services [] idx = idx"
| "index_services (sv # svs) idx =
     index_services svs
       (if svc_ClusterIP sv \<noteq> [] \<and> svc_ClusterIP sv \<noteq> ''None''
        then idx\<lparr>ix_bySvcIP := (ix_bySvcIP idx)(svc_ClusterIP sv \<mapsto> service_endpoint sv)\<rparr> else idx)"

definition node_endpoint :: "node \<Rightarrow> ResolvedEndpoint" where
  "node_endpoint n = no_endpoint\<lparr>re_Kind := ''node'', re_Name := nd_Name n\<rparr>"

definition node_ip_keys :: "node \<Rightarrow> string list" where
  "node_ip_keys n = map snd (filter (\<lambda>(t, _). t = ''InternalIP'') (nd_Addresses n))"

fun index_nodes :: "node list \<Rightarrow> endpointIndex \<Rightarrow> endpointIndex" where
  "index_nodes [] idx = idx"
| "index_nodes (n # ns) idx =
     index_nodes ns (idx\<lparr>ix_byNodeIP := put_all (node_ip_keys n) (node_endpoint n) (ix_byNodeIP idx)\<rparr>)"

definition buildEndpointIndex :: "kube_client \<Rightarrow> endpointIndex" where
  "buildEndpointIndex kc =
     (let idx = \<lparr>ix_byPodIP = Map.empty, ix_byHostPort = Map.empty, ix_bySvcIP = Map.empty, ix_byNodeIP = Map.empty\<rparr>;
          idx = (case kc_ListPods kc [] [] of Inr pods \<Rightarrow> index_pods pods idx | Inl e \<Rightarrow> idx);
          idx = (case kc_ListServices kc [] [] of Inr svcs \<Rightarrow> index_services svcs idx | Inl e \<Rightarrow> idx)
      in (case kc_ListNodes kc of Inr nodes \<Rightarrow> index_nodes nodes idx | Inl e \<Rightarrow> idx))"

definition resolve :: "endpointIndex \<Rightarrow> string \<Rightarrow> i32 \<Rightarrow> ResolvedEndpoint" where
  "resolve idx ip port =
     (let out = no_endpoint\<lparr>re_Ip := ip, re_Port := port, re_Kind := ''external''\<rparr>;
          as_pod = (\<lambda>r. out\<lparr>re_Kind := ''pod'', re_Name := re_Name r, re_Namespace := re_Namespace r,
            re_Workload := re_Workload r, re_WorkloadKind := re_WorkloadKind r,
            re_ServiceAccount := re_ServiceAccount r\<rparr>)
      in case ix_byPodIP idx ip of
           Some r \<Rightarrow> as_pod r
         | None \<Rightarrow>
             (case ix_bySvcIP idx ip of
                Some r \<Rightarrow> out\<lparr>re_Kind := ''service'', re_Name := re_Name r, re_Namespace := re_Namespace r\<rparr>
              | None \<Rightarrow>
                  (case ix_byHostPort idx (host_port ip port) of
                     Some r \<Rightarrow> as_pod r
                   | None \<Rightarrow>
                       (case ix_byNodeIP idx ip of
                          Some r \<Rightarrow> out\<lparr>re_Kind := ''node'', re_Name := re_Name r\<rparr>
                        | None \<Rightarrow> out))))"

section \<open>ResolveEndpoints\<close>

record ResolveEndpointsResponse =
  ep_Cluster :: ClusterRef
  ep_ClusterState :: string
  ep_Results :: "ResolvedEndpoint list"

definition ResolveEndpoints :: "'c Service \<Rightarrow> (string \<times> i32) list \<Rightarrow> ResolveEndpointsResponse" where
  "ResolveEndpoints s endpoints =
     (case srv_kube s of
        None \<Rightarrow> \<lparr>ep_Cluster = clusterRef s, ep_ClusterState = ''no-cluster'', ep_Results = []\<rparr>
      | Some kc \<Rightarrow>
          let idx = buildEndpointIndex kc
          in \<lparr>ep_Cluster = clusterRef s, ep_ClusterState = ''connected'',
              ep_Results = map (\<lambda>(ip, port). resolve idx ip port) endpoints\<rparr>)"

section \<open>EastWestGraph\<close>

record traceEnvelope =
  te_K8sNamespace :: string
  te_PodName :: string
  te_Kind :: string
  te_Comm :: string
  te_DstAddr :: "int list"
  te_DstPort :: i32

record ewEdge =
  ew_srcNS :: string
  ew_srcName :: string
  ew_dstIP :: string
  ew_dstPort :: i32
  ew_count :: i64

record EastWestGraphRequest =
  gq_WindowSeconds :: i32
  gq_MaxEdges :: i32

record EastWestEdge =
  ee_SrcNamespace :: string
  ee_SrcName :: string
  ee_DstIp :: string
  ee_DstPort :: i32
  ee_Count :: i64
  ee_DstKind :: string
  ee_DstName :: string
  ee_DstNamespace :: string
  ee_DstWorkload :: string
  ee_DstServiceAccount :: string

record EastWestGraphResponse =
  eg_Cluster :: ClusterRef
  eg_ClusterState :: string
  eg_WindowSeconds :: i32
  eg_EventsSeen :: i64
  eg_Edges :: "EastWestEdge list"

definition dottedV4 :: "int list \<Rightarrow> string" where
  "dottedV4 a =
     (if length a < 4 then []
      else let q = drop (length a - 4) a
        in show_int (q ! 0) @ ''.'' @ show_int (q ! 1) @ ''.'' @ show_int (q ! 2) @ ''.'' @ show_int (q ! 3))"

text \<open>The window, in seconds, and the number of edges asked for.\<close>

definition ewg_window :: "i32 \<Rightarrow> int" where
  "ewg_window n =
     (let w = (if sint n \<le> 0 then 10 else sint n) in if w > 30 then 30 else w)"

definition ewg_max_edges :: "i32 \<Rightarrow> int" where
  "ewg_max_edges n = (if sint n \<le> 0 then 50 else sint n)"

definition edge_source :: "traceEnvelope \<Rightarrow> string" where
  "edge_source env = (if te_PodName env = [] then te_Comm env else te_PodName env)"

text \<open>\<open>fmt.Sprintf("%s|%s|%s|%d", ns, src, dip, port)\<close>\<close>

definition edge_key :: "traceEnvelope \<Rightarrow> string" where
  "edge_key env =
     te_K8sNamespace env @ ''|'' @ edge_source env @ ''|'' @ dottedV4 (te_DstAddr env) @ ''|'' @
     show_int (sint (te_DstPort env))"

definition new_edge :: "traceEnvelope \<Rightarrow> ewEdge" where
  "new_edge env =
     \<lparr>ew_srcNS = te_K8sNamespace env, ew_srcName = edge_source env, ew_dstIP = dottedV4 (te_DstAddr env),
      ew_dstPort = te_DstPort env, ew_count = 0\<rparr>"

definition bump_edge :: "traceEnvelope \<Rightarrow> ewEdge \<Rightarrow> ewEdge" where
  "bump_edge env e = e\<lparr>ew_count := ew_count e + 1\<rparr>"

text \<open>The loop over the messages that arrive before the deadline or a closed subscription.\<close>

fun sample_edges ::
  "(string \<Rightarrow> ext_err + traceEnvelope) \<Rightarrow> string list \<Rightarrow> (string \<rightharpoonup> ewEdge) \<Rightarrow> i64 \<Rightarrow> (string \<rightharpoonup> ewEdge) \<times> i64" where
  "sample_edges dec [] edges seen = (edges, seen)"
| "sample_edges dec (m # ms) edges seen =
     (case dec m of
        Inl e \<Rightarrow> sample_edges dec ms edges seen
      | Inr env \<Rightarrow>
          if te_Kind env = [] then sample_edges dec ms edges seen
          else
            let dip = dottedV4 (te_DstAddr env)
            in if dip = [] \<or> dip = ''0.0.0.0'' then sample_edges dec ms edges (seen + 1)
               else sample_edges dec ms (upsert (edge_key env) (bump_edge env) (new_edge env) edges) (seen + 1))"

definition resolve_edge :: "endpointIndex option \<Rightarrow> ewEdge \<Rightarrow> EastWestEdge" where
  "resolve_edge idx e =
     (let out = \<lparr>ee_SrcNamespace = ew_srcNS e, ee_SrcName = ew_srcName e, ee_DstIp = ew_dstIP e,
            ee_DstPort = ew_dstPort e, ee_Count = ew_count e, ee_DstKind = ''external'', ee_DstName = [],
            ee_DstNamespace = [], ee_DstWorkload = [], ee_DstServiceAccount = []\<rparr>
      in case idx of
           None \<Rightarrow> out
         | Some ix \<Rightarrow>
             let r = resolve ix (ew_dstIP e) (ew_dstPort e)
             in out\<lparr>ee_DstKind := re_Kind r, ee_DstName := re_Name r, ee_DstNamespace := re_Namespace r,
                   ee_DstWorkload := re_Workload r, ee_DstServiceAccount := re_ServiceAccount r\<rparr>)"

text \<open>
  The call returns a response and an error side by side. Connecting and subscribing are arguments,
  and so are the messages of the window and the order \<open>ord\<close> in which the edge map is visited.
\<close>

definition EastWestGraph ::
  "(string \<Rightarrow> ext_err + traceEnvelope) \<Rightarrow> ewEdge sorter \<Rightarrow> ext_err option \<Rightarrow> ext_err option \<Rightarrow> string list \<Rightarrow>
     string list \<Rightarrow> 'c Service \<Rightarrow> EastWestGraphRequest \<Rightarrow> EastWestGraphResponse \<times> svc_error option" where
  "EastWestGraph dec srt connect subscribe msgs ord s req =
     (let resp = \<lparr>eg_Cluster = clusterRef s, eg_ClusterState = [], eg_WindowSeconds = 0, eg_EventsSeen = 0, eg_Edges = []\<rparr>
      in if DefenseNATSURL (srv_cfg s) = [] then (resp\<lparr>eg_ClusterState := ''no-defense-bus''\<rparr>, None)
         else case connect of
           Some e \<Rightarrow> (resp\<lparr>eg_ClusterState := ''no-defense-bus''\<rparr>, Some (ConnectDefenseNATS e))
         | None \<Rightarrow>
             (case subscribe of
                Some e \<Rightarrow> (resp, Some (SubscribeDefense e))
              | None \<Rightarrow>
                  (case sample_edges dec msgs Map.empty 0 of
                     (edges, seen) \<Rightarrow>
                       let idx = map_option buildEndpointIndex (srv_kube s);
                           all = srt (\<lambda>x y. sint (ew_count x) > sint (ew_count y)) (List.map_filter edges ord);
                           maxEdges = ewg_max_edges (gq_MaxEdges req);
                           top = (if int (length all) > maxEdges then take (nat maxEdges) all else all)
                       in (resp\<lparr>eg_EventsSeen := seen,
                             eg_WindowSeconds := word_of_int (ewg_window (gq_WindowSeconds req)),
                             eg_ClusterState := ''connected'', eg_Edges := map (resolve_edge idx) top\<rparr>, None))))"

section \<open>Lemmas: strings\<close>

lemma split_first_eq:
  fixes c :: 'a
  assumes "c \<notin> set xs" "c \<notin> set ys"
  shows "xs @ c # s = ys @ c # t \<longleftrightarrow> xs = ys \<and> s = t"
proof
  assume eq: "xs @ c # s = ys @ c # t"
  have tw: "takeWhile (\<lambda>x. x \<noteq> c) (zs @ c # u) = zs" if "c \<notin> set zs" for zs u :: "'a list"
    using that by (induction zs) auto
  have "xs = ys" using arg_cong [OF eq, of "takeWhile (\<lambda>x. x \<noteq> c)"] by (simp only: tw [OF assms(1)] tw [OF assms(2)])
  with eq show "xs = ys \<and> s = t" by simp
qed simp

lemma split_last_eq:
  assumes "c \<notin> set s" "c \<notin> set t"
  shows "xs @ c # s = ys @ c # t \<longleftrightarrow> xs = ys \<and> s = t"
proof
  assume "xs @ c # s = ys @ c # t"
  then have "rev (xs @ c # s) = rev (ys @ c # t)" by simp
  then have "rev s @ c # rev xs = rev t @ c # rev ys" by simp
  then show "xs = ys \<and> s = t"
    using split_first_eq [of c "rev s" "rev t"] assms by simp
qed simp

lemma host_port_inj: "host_port a p = host_port b q \<longleftrightarrow> a = b \<and> p = q"
  using split_last_eq [of "CHR '':''" "show_int (sint p)" "show_int (sint q)" a b]
  by (auto simp: host_port_def show_int_inj intro: signed_word_eqI)

lemma dottedV4_no_bar: "CHR ''|'' \<notin> set (dottedV4 a)"
  by (simp add: dottedV4_def Let_def)

lemma edge_key_eq:
  assumes "CHR ''|'' \<notin> set (te_K8sNamespace a)" "CHR ''|'' \<notin> set (te_K8sNamespace b)"
  shows "edge_key a = edge_key b \<longleftrightarrow>
    te_K8sNamespace a = te_K8sNamespace b \<and> edge_source a = edge_source b \<and>
    dottedV4 (te_DstAddr a) = dottedV4 (te_DstAddr b) \<and> te_DstPort a = te_DstPort b"
proof -
  let ?rest = "\<lambda>e. edge_source e @ CHR ''|'' # dottedV4 (te_DstAddr e)"
  have "edge_key a = edge_key b \<longleftrightarrow> te_K8sNamespace a = te_K8sNamespace b \<and>
      ?rest a @ CHR ''|'' # show_int (sint (te_DstPort a)) = ?rest b @ CHR ''|'' # show_int (sint (te_DstPort b))"
    using split_first_eq [OF assms] by (simp add: edge_key_def)
  also have "\<dots> \<longleftrightarrow> te_K8sNamespace a = te_K8sNamespace b \<and> ?rest a = ?rest b \<and> te_DstPort a = te_DstPort b"
    by (subst split_last_eq) (auto simp: show_int_inj intro: signed_word_eqI)
  also have "\<dots> \<longleftrightarrow> te_K8sNamespace a = te_K8sNamespace b \<and> edge_source a = edge_source b \<and>
      dottedV4 (te_DstAddr a) = dottedV4 (te_DstAddr b) \<and> te_DstPort a = te_DstPort b"
    by (subst split_last_eq [OF dottedV4_no_bar dottedV4_no_bar]) auto
  finally show ?thesis .
qed

lemma rsHashSuffix_strip_hash:
  assumes "list_all is_hex h" "6 \<le> length h" "length h \<le> 10"
  shows "rsHashSuffix_strip (dep @ ''-'' @ h) = dep"
proof -
  have "CHR ''-'' \<notin> set h" using assms(1) by (auto simp: list_all_iff)
  then have "last_index_of (CHR ''-'') (dep @ CHR ''-'' # h) = Some (length dep)" by (rule last_index_of_append)
  then show ?thesis using assms by (simp add: rsHashSuffix_strip_def Let_def)
qed

section \<open>Lemmas: the index\<close>

definition last_such :: "('a \<Rightarrow> bool) \<Rightarrow> 'a list \<Rightarrow> 'a option" where
  "last_such P xs = (case filter P xs of [] \<Rightarrow> None | ys \<Rightarrow> Some (last ys))"

lemma last_such_Cons:
  "last_such P (x # xs) = (case last_such P xs of Some y \<Rightarrow> Some y | None \<Rightarrow> if P x then Some x else None)"
  by (simp add: last_such_def split: list.split)

lemma last_such_Nil [simp]: "last_such P [] = None"
  by (simp add: last_such_def)

lemma put_all_apply: "put_all ks v m k = (if k \<in> set ks then Some v else m k)"
  by (induction ks arbitrary: m) auto

definition on_pod_network :: "string \<Rightarrow> pod \<Rightarrow> bool" where
  "on_pod_network ip p \<longleftrightarrow> \<not> pod_HostNetwork p \<and> ip \<noteq> [] \<and> (ip \<in> set (pod_PodIPs p) \<or> ip = pod_PodIP p)"

definition on_host_port :: "string \<Rightarrow> i32 \<Rightarrow> pod \<Rightarrow> bool" where
  "on_host_port ip port p \<longleftrightarrow> pod_HostNetwork p \<and> ip = pod_HostIP p \<and> port \<noteq> 0 \<and>
     (\<exists>(containerPort, hostPort) \<in> set (concat (pod_Ports p)). port = containerPort \<or> port = hostPort)"

lemma pod_ip_keys_iff: "ip \<in> set (pod_ip_keys p) \<longleftrightarrow> ip \<noteq> [] \<and> (ip \<in> set (pod_PodIPs p) \<or> ip = pod_PodIP p)"
  by (auto simp: pod_ip_keys_def)

lemma pod_port_keys_iff:
  "host_port ip port \<in> set (pod_port_keys p) \<longleftrightarrow> ip = pod_HostIP p \<and> port \<noteq> 0 \<and>
     (\<exists>(containerPort, hostPort) \<in> set (concat (pod_Ports p)). port = containerPort \<or> port = hostPort)"
proof -
  have "host_port ip port \<in> set (concat (map (\<lambda>(containerPort, hostPort).
         (if containerPort \<noteq> 0 then [host_port (pod_HostIP p) containerPort] else []) @
         (if hostPort \<noteq> 0 then [host_port (pod_HostIP p) hostPort] else [])) qs)) \<longleftrightarrow>
      ip = pod_HostIP p \<and> port \<noteq> 0 \<and> (\<exists>(containerPort, hostPort) \<in> set qs. port = containerPort \<or> port = hostPort)"
    for qs
    by (induction qs) (auto simp: host_port_inj)
  then show ?thesis by (simp only: pod_port_keys_def)
qed

lemma index_pods_lookup:
  "ix_byPodIP (index_pods ps idx) ip =
     (case last_such (on_pod_network ip) ps of None \<Rightarrow> ix_byPodIP idx ip | Some p \<Rightarrow> Some (pod_endpoint p))"
  "ix_byHostPort (index_pods ps idx) (host_port ip port) =
     (case last_such (on_host_port ip port) ps of
        None \<Rightarrow> ix_byHostPort idx (host_port ip port) | Some p \<Rightarrow> Some (pod_endpoint p))"
  "ix_bySvcIP (index_pods ps idx) = ix_bySvcIP idx" "ix_byNodeIP (index_pods ps idx) = ix_byNodeIP idx"
  by (induction ps arbitrary: idx)
     (auto simp: last_such_Cons put_all_apply pod_ip_keys_iff pod_port_keys_iff on_pod_network_def on_host_port_def
       split: option.split)

definition has_cluster_ip :: "string \<Rightarrow> k8s_service \<Rightarrow> bool" where
  "has_cluster_ip ip sv \<longleftrightarrow> svc_ClusterIP sv = ip \<and> ip \<noteq> [] \<and> ip \<noteq> ''None''"

lemma index_services_lookup:
  "ix_bySvcIP (index_services svs idx) ip =
     (case last_such (has_cluster_ip ip) svs of None \<Rightarrow> ix_bySvcIP idx ip | Some sv \<Rightarrow> Some (service_endpoint sv))"
  "ix_byPodIP (index_services svs idx) = ix_byPodIP idx"
  "ix_byHostPort (index_services svs idx) = ix_byHostPort idx"
  "ix_byNodeIP (index_services svs idx) = ix_byNodeIP idx"
  by (induction svs arbitrary: idx)
     (auto simp: last_such_Cons has_cluster_ip_def split: option.split)

lemma node_ip_keys_iff: "ip \<in> set (node_ip_keys n) \<longleftrightarrow> (''InternalIP'', ip) \<in> set (nd_Addresses n)"
  by (force simp: node_ip_keys_def)

lemma index_nodes_lookup:
  "ix_byNodeIP (index_nodes ns idx) ip =
     (case last_such (\<lambda>n. (''InternalIP'', ip) \<in> set (nd_Addresses n)) ns of
        None \<Rightarrow> ix_byNodeIP idx ip | Some n \<Rightarrow> Some (node_endpoint n))"
  "ix_byPodIP (index_nodes ns idx) = ix_byPodIP idx"
  "ix_byHostPort (index_nodes ns idx) = ix_byHostPort idx"
  "ix_bySvcIP (index_nodes ns idx) = ix_bySvcIP idx"
  by (induction ns arbitrary: idx)
     (simp_all add: last_such_Cons put_all_apply node_ip_keys_iff split: option.split)

lemma buildEndpointIndex_lookup:
  assumes "kc_ListPods kc [] [] = Inr pods" "kc_ListServices kc [] [] = Inr svcs" "kc_ListNodes kc = Inr nodes"
  shows "ix_byPodIP (buildEndpointIndex kc) ip = map_option pod_endpoint (last_such (on_pod_network ip) pods)"
    "ix_byHostPort (buildEndpointIndex kc) (host_port ip port) =
       map_option pod_endpoint (last_such (on_host_port ip port) pods)"
    "ix_bySvcIP (buildEndpointIndex kc) ip = map_option service_endpoint (last_such (has_cluster_ip ip) svcs)"
    "ix_byNodeIP (buildEndpointIndex kc) ip =
       map_option node_endpoint (last_such (\<lambda>n. (''InternalIP'', ip) \<in> set (nd_Addresses n)) nodes)"
  by (simp_all add: buildEndpointIndex_def Let_def assms index_pods_lookup index_services_lookup index_nodes_lookup
      split: option.split)

section \<open>Lemmas: edges\<close>

text \<open>The events of a window that are seen, and those of them that count.\<close>

definition seen_event :: "(string \<Rightarrow> ext_err + traceEnvelope) \<Rightarrow> string \<Rightarrow> traceEnvelope option" where
  "seen_event dec m = (case dec m of Inl e \<Rightarrow> None | Inr env \<Rightarrow> if te_Kind env = [] then None else Some env)"

definition counted_event :: "(string \<Rightarrow> ext_err + traceEnvelope) \<Rightarrow> string \<Rightarrow> traceEnvelope option" where
  "counted_event dec m =
     (case seen_event dec m of
        None \<Rightarrow> None
      | Some env \<Rightarrow> if dottedV4 (te_DstAddr env) \<in> {[], ''0.0.0.0''} then None else Some env)"

lemma sample_edges_eq:
  "sample_edges dec ms edges seen =
     (tally edge_key bump_edge new_edge (List.map_filter (counted_event dec) ms) edges,
      seen + of_nat (length (List.map_filter (seen_event dec) ms)))"
  by (induction ms arbitrary: edges seen)
     (simp_all add: map_filter_simps counted_event_def seen_event_def Let_def add.assoc split: sum.split)

interpretation edges: counting edge_key bump_edge new_edge ew_count "\<lambda>_. 1"
  by unfold_locales (simp_all add: new_edge_def bump_edge_def)

text \<open>An entry keeps the fields of an event with its key.\<close>

lemma tally_fields:
  assumes "tally edge_key bump_edge new_edge es m k = Some e"
    and "\<forall>k e. m k = Some e \<longrightarrow> (\<exists>env \<in> S. edge_key env = k \<and> e\<lparr>ew_count := 0\<rparr> = new_edge env)" and "set es \<subseteq> S"
  shows "\<exists>env \<in> S. edge_key env = k \<and> e\<lparr>ew_count := 0\<rparr> = new_edge env"
  using assms
proof (induction es arbitrary: m)
  case (Cons x es)
  have "\<exists>env \<in> S. edge_key env = k' \<and> e'\<lparr>ew_count := 0\<rparr> = new_edge env"
    if "upsert (edge_key x) (bump_edge x) (new_edge x) m k' = Some e'" for k' e'
  proof (cases "edge_key x = k'")
    case True
    show ?thesis
    proof (cases "m k'")
      case None
      then have "e' = bump_edge x (new_edge x)" using that True by (simp add: upsert_def)
      then show ?thesis using True Cons.prems(3) by (intro bexI [of _ x]) (auto simp: bump_edge_def new_edge_def)
    next
      case (Some e0)
      then have "e' = bump_edge x e0" using that True by (simp add: upsert_def)
      moreover obtain env where "env \<in> S" "edge_key env = k'" "e0\<lparr>ew_count := 0\<rparr> = new_edge env"
        using Cons.prems(2) Some by blast
      ultimately show ?thesis by (intro bexI [of _ env]) (simp_all add: bump_edge_def)
    qed
  qed (use that Cons.prems(2) in auto)
  with Cons.IH [of "upsert (edge_key x) (bump_edge x) (new_edge x) m"] Cons.prems(1,3) show ?case by auto
qed simp

text \<open>How often a window has an event with given end points.\<close>

definition event_count ::
  "traceEnvelope list \<Rightarrow> string \<Rightarrow> string \<Rightarrow> string \<Rightarrow> i32 \<Rightarrow> nat" where
  "event_count es ns src dip port =
     length (filter (\<lambda>e. te_K8sNamespace e = ns \<and> edge_source e = src \<and> dottedV4 (te_DstAddr e) = dip \<and>
       te_DstPort e = port) es)"

lemma edge_counts:
  assumes "tally edge_key bump_edge new_edge es Map.empty k = Some e"
    and "\<forall>env \<in> set es. CHR ''|'' \<notin> set (te_K8sNamespace env)"
  shows "ew_count e = of_nat (event_count es (ew_srcNS e) (ew_srcName e) (ew_dstIP e) (ew_dstPort e)) \<and>
    (\<exists>env \<in> set es. edge_key env = k \<and> e\<lparr>ew_count := 0\<rparr> = new_edge env)"
proof -
  obtain env where env: "env \<in> set es" "edge_key env = k" "e\<lparr>ew_count := 0\<rparr> = new_edge env"
    using tally_fields [OF assms(1), of "set es"] by auto
  then have fields: "ew_srcNS e = te_K8sNamespace env" "ew_srcName e = edge_source env"
    "ew_dstIP e = dottedV4 (te_DstAddr env)" "ew_dstPort e = te_DstPort env"
    by (cases e; simp add: new_edge_def)+
  have "filter (\<lambda>x. edge_key x = k) es = filter (\<lambda>x. te_K8sNamespace x = ew_srcNS e \<and> edge_source x = ew_srcName e \<and>
      dottedV4 (te_DstAddr x) = ew_dstIP e \<and> te_DstPort x = ew_dstPort e) es"
    using assms(2) env(1) by (intro filter_cong refl) (auto simp: env(2) [symmetric] edge_key_eq fields)
  moreover have "ew_count e = of_nat (length (filter (\<lambda>x. edge_key x = k) es))"
    using edges.val_tally [OF assms(1)] by (simp add: sum_list_triv)
  ultimately show ?thesis using env by (auto simp: event_count_def)
qed

lemma sint_of_nat_small: "n < 2 ^ 63 \<Longrightarrow> sint (of_nat n :: i64) = int n"
  by (simp add: signed_of_nat signed_take_bit_int_eq_self)

lemma edge_counts_sint:
  assumes "tally edge_key bump_edge new_edge es Map.empty k = Some e"
    and "\<forall>env \<in> set es. CHR ''|'' \<notin> set (te_K8sNamespace env)" and "length es < 2 ^ 63"
  shows "sint (ew_count e) = int (event_count es (ew_srcNS e) (ew_srcName e) (ew_dstIP e) (ew_dstPort e)) \<and>
    0 < sint (ew_count e)"
proof -
  note c = edge_counts [OF assms(1,2)]
  then obtain env where "env \<in> set es" "e\<lparr>ew_count := 0\<rparr> = new_edge env" by blast
  then have "event_count es (ew_srcNS e) (ew_srcName e) (ew_dstIP e) (ew_dstPort e) \<noteq> 0"
    by (cases e) (auto simp: event_count_def new_edge_def filter_empty_conv)
  moreover have "event_count es a b d p < 2 ^ 63" for a b d p
    using assms(3) length_filter_le le_less_trans unfolding event_count_def by blast
  ultimately show ?thesis using c by (simp add: sint_of_nat_small)
qed

text \<open>Whether an edge, or a row of the response, has the end points of an event.\<close>

definition edge_of :: "traceEnvelope \<Rightarrow> ewEdge \<Rightarrow> bool" where
  "edge_of env e \<longleftrightarrow> ew_srcNS e = te_K8sNamespace env \<and> ew_srcName e = edge_source env \<and>
     ew_dstIP e = dottedV4 (te_DstAddr env) \<and> ew_dstPort e = te_DstPort env"

lemma edge_covers:
  assumes "env \<in> set es" and "\<forall>env \<in> set es. CHR ''|'' \<notin> set (te_K8sNamespace env)"
  shows "\<exists>e. tally edge_key bump_edge new_edge es Map.empty (edge_key env) = Some e \<and> edge_of env e"
proof -
  have "edge_key env \<in> dom (tally edge_key bump_edge new_edge es Map.empty)"
    using assms(1) by (simp add: dom_tally)
  then obtain e where e: "tally edge_key bump_edge new_edge es Map.empty (edge_key env) = Some e" by blast
  then obtain env' where env': "env' \<in> set es" "edge_key env' = edge_key env" "e\<lparr>ew_count := 0\<rparr> = new_edge env'"
    using edge_counts [OF e assms(2)] by blast
  then have "te_K8sNamespace env' = te_K8sNamespace env \<and> edge_source env' = edge_source env \<and>
      dottedV4 (te_DstAddr env') = dottedV4 (te_DstAddr env) \<and> te_DstPort env' = te_DstPort env"
    using edge_key_eq assms by blast
  with env'(3) have "edge_of env e" by (cases e) (auto simp: new_edge_def edge_of_def)
  with e show ?thesis by blast
qed

lemma resolve_edge_fields:
  "ee_SrcNamespace (resolve_edge idx e) = ew_srcNS e" "ee_SrcName (resolve_edge idx e) = ew_srcName e"
  "ee_DstIp (resolve_edge idx e) = ew_dstIP e" "ee_DstPort (resolve_edge idx e) = ew_dstPort e"
  "ee_Count (resolve_edge idx e) = ew_count e"
  by (simp_all add: resolve_edge_def Let_def split: option.split)

text \<open>The end points of an event, of an edge and of a row, and what a row says of its destination.\<close>

definition event_ends :: "traceEnvelope \<Rightarrow> string \<times> string \<times> string \<times> i32" where
  "event_ends env = (te_K8sNamespace env, edge_source env, dottedV4 (te_DstAddr env), te_DstPort env)"

definition ew_ends :: "ewEdge \<Rightarrow> string \<times> string \<times> string \<times> i32" where
  "ew_ends e = (ew_srcNS e, ew_srcName e, ew_dstIP e, ew_dstPort e)"

definition row_ends :: "EastWestEdge \<Rightarrow> string \<times> string \<times> string \<times> i32" where
  "row_ends e = (ee_SrcNamespace e, ee_SrcName e, ee_DstIp e, ee_DstPort e)"

definition row_resolved :: "'c Service \<Rightarrow> EastWestEdge \<Rightarrow> bool" where
  "row_resolved s e \<longleftrightarrow>
     (let (kind, name, ns, workload, account) =
        (case srv_kube s of
           None \<Rightarrow> (''external'', [], [], [], [])
         | Some kc \<Rightarrow> let r = resolve (buildEndpointIndex kc) (ee_DstIp e) (ee_DstPort e)
             in (re_Kind r, re_Name r, re_Namespace r, re_Workload r, re_ServiceAccount r))
      in ee_DstKind e = kind \<and> ee_DstName e = name \<and> ee_DstNamespace e = ns \<and> ee_DstWorkload e = workload \<and>
         ee_DstServiceAccount e = account)"

lemma row_resolved_edge: "row_resolved s (resolve_edge (map_option buildEndpointIndex (srv_kube s)) e)"
  by (simp add: row_resolved_def resolve_edge_def Let_def split: option.split)

lemma edge_key_ends:
  "CHR ''|'' \<notin> set (te_K8sNamespace a) \<Longrightarrow> CHR ''|'' \<notin> set (te_K8sNamespace b) \<Longrightarrow>
     edge_key a = edge_key b \<longleftrightarrow> event_ends a = event_ends b"
  by (simp add: edge_key_eq event_ends_def)

lemma edge_counts_ends:
  assumes "tally edge_key bump_edge new_edge es Map.empty k = Some e"
    and "\<forall>env \<in> set es. CHR ''|'' \<notin> set (te_K8sNamespace env)" and "length es < 2 ^ 63"
  shows "sint (ew_count e) = int (length (filter (\<lambda>env. event_ends env = ew_ends e) es))"
  using edge_counts_sint [OF assms] by (simp add: event_count_def event_ends_def ew_ends_def)

text \<open>The edges of the map, visited in any order of its keys: one for each pair of end points.\<close>

lemma map_filter_edges:
  assumes "\<forall>env \<in> set es. CHR ''|'' \<notin> set (te_K8sNamespace env)" and "distinct ord" and "set ord = edge_key ` set es"
  shows "distinct (map ew_ends (List.map_filter (tally edge_key bump_edge new_edge es Map.empty) ord))"
    and "ew_ends ` set (List.map_filter (tally edge_key bump_edge new_edge es Map.empty) ord) = event_ends ` set es"
proof -
  let ?E = "tally edge_key bump_edge new_edge es Map.empty"
  have entry: "\<exists>e. ?E (edge_key env) = Some e \<and> ew_ends e = event_ends env" if "env \<in> set es" for env
    using edge_covers [OF that assms(1)] by (auto simp: edge_of_def ew_ends_def event_ends_def)
  define f where "f = ew_ends \<circ> the \<circ> ?E"
  have f: "f (edge_key env) = event_ends env" if "env \<in> set es" for env
    using entry [OF that] by (auto simp: f_def)
  have "map ew_ends (List.map_filter ?E ks) = map f ks" if "set ks \<subseteq> edge_key ` set es" for ks
    using that
  proof (induction ks)
    case (Cons k ks)
    then obtain env where "env \<in> set es" "k = edge_key env" by auto
    then obtain e where "?E k = Some e" using entry by blast
    then show ?case using Cons by (simp add: map_filter_simps f_def)
  qed (simp add: map_filter_simps)
  then have map: "map ew_ends (List.map_filter ?E ord) = map f ord" using assms(3) by simp
  have "inj_on f (edge_key ` set es)"
    using edge_key_ends assms(1) by (auto simp: inj_on_def f)
  then show "distinct (map ew_ends (List.map_filter ?E ord))"
    unfolding map using assms(2,3) by (simp add: distinct_map)
  show "ew_ends ` set (List.map_filter ?E ord) = event_ends ` set es"
    using arg_cong [OF map, of set] f by (auto simp: assms(3) image_image)
qed

lemma sint_ewg_window: "sint (word_of_int (ewg_window n) :: i32) = ewg_window n"
  by (auto simp: ewg_window_def Let_def sint_sbintrunc' intro!: signed_take_bit_int_eq_self)

lemma ewg_max_edges_pos: "0 < ewg_max_edges n"
  by (simp add: ewg_max_edges_def)

lemma owner_workload_skip:
  "\<forall>r \<in> set pre. or_Controller r \<noteq> Some True \<Longrightarrow> owner_workload (pre @ rs) = owner_workload rs"
  by (induction pre) auto

section \<open>Properties\<close>

text \<open>
  C39. Every requested address is answered, in order, from the one snapshot: by the last listed pod that
  has it on the pod network, else by the service with that cluster IP, else by the last host-network
  pod that declares that port on that host, else by the node with it, else as external.
\<close>

theorem ResolveEndpoints_spec:
  assumes "srv_kube s = Some kc" and "kc_ListPods kc [] [] = Inr pods" and "kc_ListServices kc [] [] = Inr svcs"
    and "kc_ListNodes kc = Inr nodes"
  shows "map (\<lambda>r. (re_Ip r, re_Port r, re_Kind r, re_Namespace r, re_Name r)) (ep_Results (ResolveEndpoints s eps)) =
    map (\<lambda>(ip, port).
      case last_such (on_pod_network ip) pods of
        Some p \<Rightarrow> (ip, port, ''pod'', pod_Namespace p, pod_Name p)
      | None \<Rightarrow> (case last_such (has_cluster_ip ip) svcs of
          Some sv \<Rightarrow> (ip, port, ''service'', svc_Namespace sv, svc_Name sv)
        | None \<Rightarrow> (case last_such (on_host_port ip port) pods of
            Some p \<Rightarrow> (ip, port, ''pod'', pod_Namespace p, pod_Name p)
          | None \<Rightarrow> (case last_such (\<lambda>n. (''InternalIP'', ip) \<in> set (nd_Addresses n)) nodes of
              Some n \<Rightarrow> (ip, port, ''node'', [], nd_Name n)
            | None \<Rightarrow> (ip, port, ''external'', [], []))))) eps"
  unfolding ResolveEndpoints_def assms(1) option.case Let_def
  by (auto simp: resolve_def Let_def buildEndpointIndex_lookup [OF assms(2-4)] no_endpoint_def pod_endpoint_def
      service_endpoint_def node_endpoint_def split: option.split prod.split)

text \<open>
  A pod controlled by a Deployment's ReplicaSet is reported under the Deployment's name, whatever
  owners that do not control it come first: the hash of 6 to 10 hex digits is cut off, and nothing
  else.
\<close>

theorem workloadOf_deployment:
  assumes "pod_OwnerReferences p = pre @ r # post" and "\<forall>q \<in> set pre. or_Controller q \<noteq> Some True"
    and "or_Controller r = Some True" and "or_Kind r = ''ReplicaSet''"
    and "or_Name r = dep @ ''-'' @ hash" and "\<forall>c \<in> set hash. is_hex c"
  shows "workloadOf p = (if 6 \<le> length hash \<and> length hash \<le> 10 then dep else or_Name r, ''Deployment'')"
proof -
  have "workloadOf p = (rsHashSuffix_strip (or_Name r), ''Deployment'')"
    using assms(1-4) by (simp add: workloadOf_def owner_workload_skip)
  moreover have "rsHashSuffix_strip (dep @ ''-'' @ hash) = dep @ ''-'' @ hash"
    if "\<not> (6 \<le> length hash \<and> length hash \<le> 10)"
  proof -
    have "CHR ''-'' \<notin> set hash" using assms(6) by auto
    then have "last_index_of (CHR ''-'') (dep @ CHR ''-'' # hash) = Some (length dep)" by (rule last_index_of_append)
    then show ?thesis using that by (auto simp: rsHashSuffix_strip_def Let_def)
  qed
  ultimately show ?thesis
    using rsHashSuffix_strip_hash [of hash dep] assms(5,6) by (auto simp: list_all_iff)
qed

text \<open>
  C40. The graph counts: its rows are distinct source and destination pairs of sampled events, each with the
  number of sampled events that have them, in descending order of count; there are as many rows as
  pairs, or as many as were asked for (50 without a number) when there are more pairs, and then a
  pair cut off has no more events than any row. A destination is named as the index of the cluster resolves
  it. The window is the one asked for, 10 seconds without one and 30 at most. The order in which the map of edges is visited plays no part in this.
\<close>

theorem EastWestGraph_counts:
  assumes "slice_sort srt" and "DefenseNATSURL (srv_cfg s) \<noteq> []" and "length msgs < 2 ^ 63"
    and "es = List.map_filter (counted_event dec) msgs"
    and "\<forall>env \<in> set es. CHR ''|'' \<notin> set (te_K8sNamespace env)"
    and "distinct ord" and "set ord = edge_key ` set es"
    and "EastWestGraph dec srt None None msgs ord s req = (resp, err)"
  shows "err = None \<and> eg_EventsSeen resp = of_nat (length (List.map_filter (seen_event dec) msgs)) \<and>
    length (eg_Edges resp) = min (if sint (gq_MaxEdges req) \<le> 0 then 50 else nat (sint (gq_MaxEdges req)))
      (card (event_ends ` set es)) \<and>
    distinct (map row_ends (eg_Edges resp)) \<and> row_ends ` set (eg_Edges resp) \<subseteq> event_ends ` set es \<and>
    sorted_wrt (\<lambda>a b. sint (ee_Count a) \<ge> sint (ee_Count b)) (eg_Edges resp) \<and>
    (\<forall>e \<in> set (eg_Edges resp). sint (ee_Count e) = int (length (filter (\<lambda>env. event_ends env = row_ends e) es)) \<and>
       row_resolved s e) \<and>
    (\<forall>env \<in> set es. event_ends env \<in> row_ends ` set (eg_Edges resp) \<or>
       (\<forall>e \<in> set (eg_Edges resp). int (length (filter (\<lambda>env'. event_ends env' = event_ends env) es)) \<le> sint (ee_Count e))) \<and>
    eg_ClusterState resp = ''connected'' \<and>
    sint (eg_WindowSeconds resp) = (if sint (gq_WindowSeconds req) \<le> 0 then 10 else min 30 (sint (gq_WindowSeconds req)))"
proof -
  let ?E = "tally edge_key bump_edge new_edge es Map.empty"
  let ?all = "srt (\<lambda>x y. sint (ew_count x) > sint (ew_count y)) (List.map_filter ?E ord)"
  let ?n = "nat (ewg_max_edges (gq_MaxEdges req))"
  let ?top = "take ?n ?all"
  let ?idx = "map_option buildEndpointIndex (srv_kube s)"
  have top: "(if int (length ?all) > ewg_max_edges (gq_MaxEdges req) then ?top else ?all) = ?top"
    using ewg_max_edges_pos [of "gq_MaxEdges req"] by auto
  have resp: "eg_Edges resp = map (resolve_edge ?idx) ?top" "err = None"
    "eg_EventsSeen resp = of_nat (length (List.map_filter (seen_event dec) msgs))"
    "eg_ClusterState resp = ''connected''" "eg_WindowSeconds resp = word_of_int (ewg_window (gq_WindowSeconds req))"
    using assms(8) assms(2) unfolding EastWestGraph_def Let_def sample_edges_eq assms(4) [symmetric] prod.case top
    by auto
  have small: "length es < 2 ^ 63" using length_map_filter_le assms(3) le_less_trans unfolding assms(4) by blast
  have rows: "map row_ends (eg_Edges resp) = map ew_ends ?top"
    by (simp add: resp(1) row_ends_def ew_ends_def resolve_edge_fields)
  note edges = map_filter_edges [OF assms(5-7)]
  have ends: "distinct (map ew_ends ?all)" "ew_ends ` set ?all = event_ends ` set es"
    using edges by (simp_all add: distinct_map slice_sort.set_srt [OF assms(1)] slice_sort.distinct_srt [OF assms(1)])
  have "length ?all = card (event_ends ` set es)"
    using distinct_card [OF ends(1)] ends(2) by simp
  then have len: "length (eg_Edges resp) = min (if sint (gq_MaxEdges req) \<le> 0 then 50 else nat (sint (gq_MaxEdges req)))
      (card (event_ends ` set es))"
    by (simp add: resp ewg_max_edges_def min.commute)
  have distinct: "distinct (map row_ends (eg_Edges resp))"
    unfolding rows using ends(1) by (simp add: take_map [symmetric])
  have subset: "row_ends ` set (eg_Edges resp) \<subseteq> event_ends ` set es"
    using arg_cong [OF rows, of set] ends(2) image_mono [OF set_take_subset [of ?n ?all], of ew_ends]
    by (simp only: set_map)
  have ord: "sorted_wrt (\<lambda>a b. sint (ee_Count a) \<ge> sint (ee_Count b)) (eg_Edges resp)"
    using slice_sort.sorted_srt_key_desc [OF assms(1), of "\<lambda>e. sint (ew_count e)"]
    by (simp add: resp sorted_wrt_map resolve_edge_fields sorted_wrt_take)
  have set_all: "e \<in> set ?all \<longleftrightarrow> (\<exists>k \<in> set ord. ?E k = Some e)" for e
    by (simp add: slice_sort.set_srt [OF assms(1)] set_map_filter_eq)
  have all: "sint (ee_Count x) = int (length (filter (\<lambda>env. event_ends env = row_ends x) es)) \<and> row_resolved s x"
    if x: "x \<in> set (eg_Edges resp)" for x
  proof -
    obtain e where e: "x = resolve_edge ?idx e" "e \<in> set ?top" using x unfolding resp by auto
    have "e \<in> set ?all" using e(2) by (rule in_set_takeD)
    then obtain k where "?E k = Some e" using set_all by blast
    from edge_counts_ends [OF this assms(5) small] show ?thesis
      by (simp add: e(1) row_ends_def ew_ends_def resolve_edge_fields row_resolved_edge)
  qed
  have cut: "event_ends env \<in> row_ends ` set (eg_Edges resp) \<or>
      (\<forall>e \<in> set (eg_Edges resp). int (length (filter (\<lambda>env'. event_ends env' = event_ends env) es)) \<le> sint (ee_Count e))"
    if env: "env \<in> set es" for env
  proof -
    obtain e where e: "?E (edge_key env) = Some e" "edge_of env e" using edge_covers [OF env assms(5)] by blast
    then have "e \<in> set (List.map_filter ?E ord)" using env assms(7) by (auto simp: set_map_filter_eq)
    from slice_sort.in_top_or_below [OF assms(1) this, of ?n "\<lambda>e. sint (ew_count e)"]
    have cases: "e \<in> set ?top \<or> (\<forall>y \<in> set ?top. sint (ew_count e) \<le> sint (ew_count y))" .
    have ends: "ew_ends e = event_ends env" using e(2) by (simp add: edge_of_def ew_ends_def event_ends_def)
    from cases show ?thesis
    proof
      assume "e \<in> set ?top"
      then have "ew_ends e \<in> row_ends ` set (eg_Edges resp)" using arg_cong [OF rows, of set] by simp
      then show ?thesis unfolding ends ..
    next
      assume "\<forall>y \<in> set ?top. sint (ew_count e) \<le> sint (ew_count y)"
      then show ?thesis
        using edge_counts_ends [OF e(1) assms(5) small] by (simp add: resp(1) ends resolve_edge_fields)
    qed
  qed
  have "sint (eg_WindowSeconds resp) = (if sint (gq_WindowSeconds req) \<le> 0 then 10 else min 30 (sint (gq_WindowSeconds req)))"
    unfolding resp(5) sint_ewg_window by (auto simp: ewg_window_def Let_def)
  then show ?thesis using resp(2-4) len distinct subset ord all cut by blast
qed

section \<open>Witnesses\<close>

definition ex_workload_pod :: "string \<Rightarrow> bool \<Rightarrow> string \<Rightarrow> pod" where
  "ex_workload_pod n hostNetwork ip =
     \<lparr>pod_Name = n, pod_Namespace = ''t'', pod_NodeName = ''n1'', pod_HostNetwork = hostNetwork,
      pod_ServiceAccountName = ''sa'', pod_Ports = [[(80, 0), (443, 8443)]], pod_HostIP = ''10.0.0.1'',
      pod_PodIP = ip, pod_PodIPs = [ip], pod_Conditions = [],
      pod_OwnerReferences =
        [\<lparr>or_Controller = None, or_Kind = ''Node'', or_Name = ''n1''\<rparr>,
         \<lparr>or_Controller = Some True, or_Kind = ''ReplicaSet'', or_Name = ''web-ab12cd''\<rparr>]\<rparr>"

definition ex_endpoint_kube :: kube_client where
  "ex_endpoint_kube = (ex_kube [] [ex_service ''web''])\<lparr>
     kc_ListPods := (\<lambda>_ _. Inr [ex_workload_pod ''agent'' True ''10.0.0.1'', ex_workload_pod ''web-0'' False ''10.1.0.5'']),
     kc_ListNodes := Inr [\<lparr>nd_Name = ''n1'', nd_Addresses = [(''InternalIP'', ''10.0.0.1'')]\<rparr>]\<rparr>"

lemma ResolveEndpoints_spec_witness:
  "map (\<lambda>r. (re_Kind r, re_Name r))
     (ep_Results (ResolveEndpoints ((ex_svc None)\<lparr>srv_kube := Some ex_endpoint_kube\<rparr>)
        [(''10.1.0.5'', 7), (''10.0.0.9'', 53), (''10.0.0.1'', 443), (''10.0.0.1'', 22), (''8.8.8.8'', 53)])) =
   [(''pod'', ''web-0''), (''service'', ''web''), (''pod'', ''agent''), (''node'', ''n1''), (''external'', [])]"
proof -
  let ?s = "(ex_svc None)\<lparr>srv_kube := Some ex_endpoint_kube\<rparr>"
  let ?eps = "[(''10.1.0.5'', 7), (''10.0.0.9'', 53), (''10.0.0.1'', 443), (''10.0.0.1'', 22), (''8.8.8.8'', 53)]"
  let ?quint = "\<lambda>r. (re_Ip r, re_Port r, re_Kind r, re_Namespace r, re_Name r)"
  have "map ?quint (ep_Results (ResolveEndpoints ?s ?eps)) =
     [(''10.1.0.5'', 7, ''pod'', ''t'', ''web-0''), (''10.0.0.9'', 53, ''service'', ''t'', ''web''),
      (''10.0.0.1'', 443, ''pod'', ''t'', ''agent''), (''10.0.0.1'', 22, ''node'', [], ''n1''),
      (''8.8.8.8'', 53, ''external'', [], [])]"
    by (subst ResolveEndpoints_spec [where kc = ex_endpoint_kube
          and pods = "[ex_workload_pod ''agent'' True ''10.0.0.1'', ex_workload_pod ''web-0'' False ''10.1.0.5'']"
          and svcs = "[ex_service ''web'']" and nodes = "[\<lparr>nd_Name = ''n1'', nd_Addresses = [(''InternalIP'', ''10.0.0.1'')]\<rparr>]"])
       (simp_all add: ex_endpoint_kube_def ex_kube_def ex_service_def ex_workload_pod_def last_such_def on_pod_network_def
         on_host_port_def has_cluster_ip_def)
  from arg_cong [OF this, of "map (\<lambda>(_, _, k, _, n). (k, n))"] show ?thesis by (simp add: o_def)
qed

lemma workloadOf_deployment_witness: "workloadOf (ex_workload_pod ''web-0'' False ''10.1.0.5'') = (''web'', ''Deployment'')"
  by (subst workloadOf_deployment [where pre = "[\<lparr>or_Controller = None, or_Kind = ''Node'', or_Name = ''n1''\<rparr>]"
        and r = "\<lparr>or_Controller = Some True, or_Kind = ''ReplicaSet'', or_Name = ''web-ab12cd''\<rparr>" and post = "[]"
        and dep = "''web''" and hash = "''ab12cd''"])
     (simp_all add: ex_workload_pod_def is_hex_def)

definition ex_envelope :: "string \<Rightarrow> traceEnvelope" where
  "ex_envelope m = \<lparr>te_K8sNamespace = ''t'', te_PodName = m, te_Kind = ''connect'', te_Comm = ''c'',
     te_DstAddr = [10, 0, 0, 9], te_DstPort = 80\<rparr>"

lemma EastWestGraph_counts_witness:
  "let (resp, err) = EastWestGraph (\<lambda>m. Inr (ex_envelope m)) sort_by None None [''a'', ''b'', ''a'']
         [''t|a|10.0.0.9|80'', ''t|b|10.0.0.9|80'']
         ((ex_svc None)\<lparr>srv_cfg := ex_config\<lparr>DefenseNATSURL := ''nats://d''\<rparr>\<rparr>)
         \<lparr>gq_WindowSeconds = 5, gq_MaxEdges = 1\<rparr>
   in err = None \<and> eg_EventsSeen resp = 3 \<and> map (\<lambda>e. (ee_SrcName e, sint (ee_Count e))) (eg_Edges resp) = [(''a'', 2)]"
proof -
  let ?dec = "\<lambda>m. Inr (ex_envelope m) :: ext_err + traceEnvelope" and ?ms = "[''a'', ''b'', ''a'']"
  let ?es = "[ex_envelope ''a'', ex_envelope ''b'', ex_envelope ''a'']"
  let ?ord = "[''t|a|10.0.0.9|80'', ''t|b|10.0.0.9|80'']"
  let ?s = "(ex_svc None)\<lparr>srv_cfg := ex_config\<lparr>DefenseNATSURL := ''nats://d''\<rparr>\<rparr>"
  let ?req = "\<lparr>gq_WindowSeconds = 5, gq_MaxEdges = 1\<rparr>"
  obtain resp err where out: "EastWestGraph ?dec sort_by None None ?ms ?ord ?s ?req = (resp, err)" by fastforce
  have d: "dottedV4 [10, 0, 0, 9] = ''10.0.0.9''" "show_int 80 = ''80''"
    by (simp_all add: dottedV4_def Let_def show_int_def show_nat.simps digit_def char_of_def bit_0)
  have seen: "List.map_filter (seen_event ?dec) ?ms = ?es"
    by (simp add: map_filter_simps seen_event_def ex_envelope_def)
  have counted: "?es = List.map_filter (counted_event ?dec) ?ms"
    by (simp add: map_filter_simps counted_event_def seen_event_def ex_envelope_def d)
  have keys: "edge_key (ex_envelope m) = ''t|'' @ m @ ''|10.0.0.9|80''" if "m \<noteq> []" for m
    using that by (simp add: edge_key_def edge_source_def ex_envelope_def d)
  have ord: "set ?ord = edge_key ` set ?es" "distinct ?ord" by (simp_all add: keys insert_commute)
  have bar: "\<forall>env \<in> set ?es. CHR ''|'' \<notin> set (te_K8sNamespace env)" by (simp add: ex_envelope_def)
  have "DefenseNATSURL (srv_cfg ?s) \<noteq> []" "length ?ms < 2 ^ 63" by simp_all
  note c = EastWestGraph_counts [OF isort.slice_sort_axioms this counted bar ord(2,1) out]
  have *: "err = None" "eg_EventsSeen resp = of_nat (length (List.map_filter (seen_event ?dec) ?ms))"
      "length (eg_Edges resp) = min 1 (card (event_ends ` set ?es))"
    using c [THEN conjunct1] c [THEN conjunct2, THEN conjunct1] c [THEN conjunct2, THEN conjunct2, THEN conjunct1] by simp_all
  note rows = c [THEN conjunct2, THEN conjunct2, THEN conjunct2, THEN conjunct2]
  note counts = rows [THEN conjunct2, THEN conjunct2]
  have ends: "event_ends (ex_envelope m) = (''t'', m, ''10.0.0.9'', 80)" if "m \<noteq> []" for m
    using that by (simp add: event_ends_def edge_source_def ex_envelope_def d)
  have "event_ends ` set ?es = {(''t'', ''a'', ''10.0.0.9'', 80), (''t'', ''b'', ''10.0.0.9'', 80)}" by (auto simp: ends)
  then have "card (event_ends ` set ?es) = 2" by simp
  then obtain e where e: "eg_Edges resp = [e]" using *(3) by (auto simp: length_Suc_conv)
  have count: "sint (ee_Count e) = int (length (filter (\<lambda>env. event_ends env = row_ends e) ?es))"
    using counts [THEN conjunct1] by (simp add: e)
  have "row_ends e \<in> event_ends ` set ?es" using rows [THEN conjunct1] by (simp add: e)
  moreover have "row_ends e \<noteq> event_ends (ex_envelope ''b'')"
  proof
    assume b: "row_ends e = event_ends (ex_envelope ''b'')"
    then have "sint (ee_Count e) = 1" unfolding count by (simp add: ends)
    moreover have "int (length (filter (\<lambda>env. event_ends env = event_ends (ex_envelope ''a'')) ?es)) = 2" by (simp add: ends)
    moreover have "ex_envelope ''a'' \<in> set ?es" by simp
    ultimately show False using bspec [OF counts [THEN conjunct2, THEN conjunct1], of "ex_envelope ''a''"] b by (simp add: e ends)
  qed
  ultimately have a: "row_ends e = event_ends (ex_envelope ''a'')" by auto
  then have "ee_SrcName e = ''a'' \<and> sint (ee_Count e) = 2"
    unfolding count by (simp add: ends) (simp add: row_ends_def)
  then show ?thesis using *(1,2) unfolding out seen by (simp add: e)
qed

end
