(* ===== verification/Tools.thy ===== *)
theory Tools
  imports McpServer Resources StreamRpc Health Endpoints
begin

text \<open>
  \<open>internal/tools\<close>: the thirteen MCP tools. A tool decodes its arguments, calls the service and encodes
  the response. The text coding (\<open>encoding/json\<close> of the argument structs, which \<open>ToolsJson\<close> gives, and
  \<open>protojson\<close> of the responses) and what the service's calls take from outside (codecs, sorts, map orders, the jq engine, the
  messages of the defense bus) come in as a record. A tool's world is the service's.
\<close>

section \<open>Arguments\<close>

record resourceListArgs =
  la_Kind :: string
  la_APIGroup :: string
  la_Namespace :: string
  la_LabelSelector :: string

record resourceGetArgs =
  ga_Kind :: string
  ga_APIGroup :: string
  ga_Namespace :: string
  ga_Name :: string

record resourceApplyArgs =
  aa_Manifest :: string
  aa_DryRun :: bool
  aa_Force :: bool

record resourceDeleteArgs =
  da_Kind :: string
  da_APIGroup :: string
  da_Namespace :: string
  da_Name :: string

record resourceSchemaArgs =
  sa_Kind :: string
  sa_APIGroup :: string

record streamStatsArgs =
  ta_Name :: string
  ta_Since :: string
  ta_Until :: string

record streamReadArgs =
  ra_Name :: string
  ra_Since :: string
  ra_Until :: string
  ra_Limit :: i32
  ra_Filter :: string

record resolveArgs =
  va_Endpoints :: "(string \<times> i32) list"

record ewgArgs =
  wa_WindowSeconds :: i32
  wa_MaxEdges :: i32

text \<open>Decoding the argument structs: an error is its text.\<close>

record args_json =
  aj_list :: "string \<Rightarrow> string + resourceListArgs"
  aj_get :: "string \<Rightarrow> string + resourceGetArgs"
  aj_apply :: "string \<Rightarrow> string + resourceApplyArgs"
  aj_delete :: "string \<Rightarrow> string + resourceDeleteArgs"
  aj_schema :: "string \<Rightarrow> string + resourceSchemaArgs"
  aj_stats :: "string \<Rightarrow> string + streamStatsArgs"
  aj_read :: "string \<Rightarrow> string + streamReadArgs"
  aj_resolve :: "string \<Rightarrow> string + resolveArgs"
  aj_ewg :: "string \<Rightarrow> string + ewgArgs"

text \<open>\<open>protoMarshal.Marshal\<close> of each response.\<close>

record proto_json =
  pj_identity :: "ClusterIdentityResponse \<Rightarrow> string + string"
  pj_health :: "EoBHealthResponse \<Rightarrow> string + string"
  pj_trace :: "TraceHealthResponse \<Rightarrow> string + string"
  pj_resolve :: "ResolveEndpointsResponse \<Rightarrow> string + string"
  pj_ewg :: "EastWestGraphResponse \<Rightarrow> string + string"
  pj_list :: "ResourceListResponse \<Rightarrow> string + string"
  pj_get :: "ResourceGetResponse \<Rightarrow> string + string"
  pj_apply :: "ResourceApplyResponse \<Rightarrow> string + string"
  pj_delete :: "ResourceDeleteResponse \<Rightarrow> string + string"
  pj_schema :: "ResourceSchemaResponse \<Rightarrow> string + string"
  pj_streams :: "StreamListResponse \<Rightarrow> string + string"
  pj_stats :: "StreamStatsResponse \<Rightarrow> string + string"
  pj_read :: "StreamReadResponse \<Rightarrow> string + string"

text \<open>What the calls of the service take from outside.\<close>

record ('q, 'code) calls_env =
  k_codec :: codec
  k_ua :: unstructured_api
  k_jq :: "('q, 'code) gojq"
  k_items :: "json sorter"
  k_directives :: "DirectiveStatus sorter"
  k_nodes :: "string list \<times> string list"
  k_edges :: "ewEdge sorter"
  k_envelope :: "string \<Rightarrow> ext_err + traceEnvelope"
  k_connect :: "ext_err option"
  k_subscribe :: "ext_err option"
  k_messages :: "string list"
  k_edge_order :: "string list"

record ('q, 'code) tool_env =
  te_calls :: "('q, 'code) calls_env"
  te_args :: args_json
  te_proto :: proto_json

text \<open>No argument bytes leave the zero value.\<close>

definition parse_args :: "string \<Rightarrow> 'a \<Rightarrow> (string \<Rightarrow> string + 'a) \<Rightarrow> string \<Rightarrow> string + 'a" where
  "parse_args what zero dec raw =
     (if raw = [] then Inr zero else case dec raw of Inl e \<Rightarrow> Inl (what @ e) | Inr a \<Rightarrow> Inr a)"

definition emitProto :: "('r \<Rightarrow> string + string) \<Rightarrow> 'r \<Rightarrow> call_outcome" where
  "emitProto marshal resp = (case marshal resp of Inl e \<Rightarrow> CallErr e | Inr body \<Rightarrow> CallOk (text_result body))"

section \<open>Calls\<close>

definition ClusterIdentity_Call :: "('q, 'code) tool_env \<Rightarrow> 'c Service \<Rightarrow> string \<Rightarrow> 'c world \<Rightarrow> call_outcome \<times> 'c world" where
  "ClusterIdentity_Call k svc raw w =
     (emitProto (pj_identity (te_proto k)) (ClusterIdentity svc), w)"

definition EoBHealth_Call :: "('q, 'code) tool_env \<Rightarrow> 'c Service \<Rightarrow> string \<Rightarrow> 'c world \<Rightarrow> call_outcome \<times> 'c world" where
  "EoBHealth_Call k svc raw w =
     (emitProto (pj_health (te_proto k)) (EoBHealth (k_directives (te_calls k)) svc), w)"

definition TraceHealth_Call :: "('q, 'code) tool_env \<Rightarrow> 'c Service \<Rightarrow> string \<Rightarrow> 'c world \<Rightarrow> call_outcome \<times> 'c world" where
  "TraceHealth_Call k svc raw w =
     (emitProto (pj_trace (te_proto k)) (TraceHealth (fst (k_nodes (te_calls k))) (snd (k_nodes (te_calls k))) svc), w)"

definition ResolveEndpoints_Call :: "('q, 'code) tool_env \<Rightarrow> 'c Service \<Rightarrow> string \<Rightarrow> 'c world \<Rightarrow> call_outcome \<times> 'c world" where
  "ResolveEndpoints_Call k svc raw w =
     (case parse_args ''decode arguments: '' \<lparr>va_Endpoints = []\<rparr> (aj_resolve (te_args k)) raw of
        Inl e \<Rightarrow> (CallErr e, w)
      | Inr a \<Rightarrow>
          (emitProto (pj_resolve (te_proto k)) (ResolveEndpoints svc (va_Endpoints a)), w))"

definition EastWestGraph_Call :: "('q, 'code) tool_env \<Rightarrow> 'c Service \<Rightarrow> string \<Rightarrow> 'c world \<Rightarrow> call_outcome \<times> 'c world" where
  "EastWestGraph_Call k svc raw w =
     (case parse_args ''decode arguments: '' \<lparr>wa_WindowSeconds = 0, wa_MaxEdges = 0\<rparr> (aj_ewg (te_args k)) raw of
        Inl e \<Rightarrow> (CallErr e, w)
      | Inr a \<Rightarrow>
          (case EastWestGraph (k_envelope (te_calls k)) (k_edges (te_calls k)) (k_connect (te_calls k))
                  (k_subscribe (te_calls k)) (k_messages (te_calls k)) (k_edge_order (te_calls k)) svc
                  \<lparr>gq_WindowSeconds = wa_WindowSeconds a, gq_MaxEdges = wa_MaxEdges a\<rparr> of
             (resp, Some e) \<Rightarrow> (CallErr (error_text (k_codec (te_calls k)) e), w)
           | (resp, None) \<Rightarrow> (emitProto (pj_ewg (te_proto k)) resp, w)))"

definition ResourceList_Call :: "('q, 'code) tool_env \<Rightarrow> 'c Service \<Rightarrow> string \<Rightarrow> 'c world \<Rightarrow> call_outcome \<times> 'c world" where
  "ResourceList_Call k svc raw w =
     (case parse_args ''parse args: '' \<lparr>la_Kind = [], la_APIGroup = [], la_Namespace = [], la_LabelSelector = []\<rparr> (aj_list (te_args k)) raw of
        Inl e \<Rightarrow> (CallErr e, w)
      | Inr a \<Rightarrow>
          (case ResourceList (k_codec (te_calls k)) (k_ua (te_calls k)) (k_items (te_calls k)) svc
                  \<lparr>lq_Kind = la_Kind a, lq_ApiGroup = la_APIGroup a, lq_Namespace = la_Namespace a,
                   lq_LabelSelector = la_LabelSelector a\<rparr> w of
             Inl e \<Rightarrow> (CallErr (error_text (k_codec (te_calls k)) e), w)
           | Inr resp \<Rightarrow> (emitProto (pj_list (te_proto k)) resp, w)))"

definition ResourceGet_Call :: "('q, 'code) tool_env \<Rightarrow> 'c Service \<Rightarrow> string \<Rightarrow> 'c world \<Rightarrow> call_outcome \<times> 'c world" where
  "ResourceGet_Call k svc raw w =
     (case parse_args ''parse args: '' \<lparr>ga_Kind = [], ga_APIGroup = [], ga_Namespace = [], ga_Name = []\<rparr> (aj_get (te_args k)) raw of
        Inl e \<Rightarrow> (CallErr e, w)
      | Inr a \<Rightarrow>
          (case ResourceGet (k_codec (te_calls k)) svc
                  \<lparr>gq_Kind = ga_Kind a, gq_ApiGroup = ga_APIGroup a, gq_Namespace = ga_Namespace a, gq_Name = ga_Name a\<rparr> w of
             Inl e \<Rightarrow> (CallErr (error_text (k_codec (te_calls k)) e), w)
           | Inr resp \<Rightarrow> (emitProto (pj_get (te_proto k)) resp, w)))"

definition ResourceApply_Call :: "('q, 'code) tool_env \<Rightarrow> 'c Service \<Rightarrow> string \<Rightarrow> 'c world \<Rightarrow> call_outcome \<times> 'c world" where
  "ResourceApply_Call k svc raw w =
     (case parse_args ''parse args: '' \<lparr>aa_Manifest = [], aa_DryRun = False, aa_Force = False\<rparr> (aj_apply (te_args k)) raw of
        Inl e \<Rightarrow> (CallErr e, w)
      | Inr a \<Rightarrow>
          (case ResourceApply (k_codec (te_calls k)) (k_ua (te_calls k)) svc
                  \<lparr>aq_Manifest = aa_Manifest a, aq_DryRun = aa_DryRun a, aq_Force = aa_Force a\<rparr> w of
             None \<Rightarrow> (CallPanic, w)
           | Some (Inl e, w') \<Rightarrow> (CallErr (error_text (k_codec (te_calls k)) e), w')
           | Some (Inr resp, w') \<Rightarrow> (emitProto (pj_apply (te_proto k)) resp, w')))"

definition ResourceDelete_Call :: "('q, 'code) tool_env \<Rightarrow> 'c Service \<Rightarrow> string \<Rightarrow> 'c world \<Rightarrow> call_outcome \<times> 'c world" where
  "ResourceDelete_Call k svc raw w =
     (case parse_args ''parse args: '' \<lparr>da_Kind = [], da_APIGroup = [], da_Namespace = [], da_Name = []\<rparr> (aj_delete (te_args k)) raw of
        Inl e \<Rightarrow> (CallErr e, w)
      | Inr a \<Rightarrow>
          (case ResourceDelete (k_codec (te_calls k)) svc
                  \<lparr>dq_Kind = da_Kind a, dq_ApiGroup = da_APIGroup a, dq_Namespace = da_Namespace a, dq_Name = da_Name a\<rparr> w of
             None \<Rightarrow> (CallPanic, w)
           | Some (Inl e, w') \<Rightarrow> (CallErr (error_text (k_codec (te_calls k)) e), w')
           | Some (Inr resp, w') \<Rightarrow> (emitProto (pj_delete (te_proto k)) resp, w')))"

definition ResourceSchema_Call :: "('q, 'code) tool_env \<Rightarrow> 'c Service \<Rightarrow> string \<Rightarrow> 'c world \<Rightarrow> call_outcome \<times> 'c world" where
  "ResourceSchema_Call k svc raw w =
     (case parse_args ''parse args: '' \<lparr>sa_Kind = [], sa_APIGroup = []\<rparr> (aj_schema (te_args k)) raw of
        Inl e \<Rightarrow> (CallErr e, w)
      | Inr a \<Rightarrow>
          (case ResourceSchema (k_codec (te_calls k)) (k_ua (te_calls k)) svc
                  \<lparr>sq_Kind = sa_Kind a, sq_ApiGroup = sa_APIGroup a\<rparr> w of
             Inl e \<Rightarrow> (CallErr (error_text (k_codec (te_calls k)) e), w)
           | Inr resp \<Rightarrow> (emitProto (pj_schema (te_proto k)) resp, w)))"

definition StreamList_Call :: "('q, 'code) tool_env \<Rightarrow> 'c Service \<Rightarrow> string \<Rightarrow> 'c world \<Rightarrow> call_outcome \<times> 'c world" where
  "StreamList_Call k svc raw w =
     (case StreamList svc of
        Inl e \<Rightarrow> (CallErr (error_text (k_codec (te_calls k)) e), w)
      | Inr resp \<Rightarrow> (emitProto (pj_streams (te_proto k)) resp, w))"

definition StreamStats_Call :: "('q, 'code) tool_env \<Rightarrow> 'c Service \<Rightarrow> string \<Rightarrow> 'c world \<Rightarrow> call_outcome \<times> 'c world" where
  "StreamStats_Call k svc raw w =
     (case parse_args ''parse args: '' \<lparr>ta_Name = [], ta_Since = [], ta_Until = []\<rparr> (aj_stats (te_args k)) raw of
        Inl e \<Rightarrow> (CallErr e, w)
      | Inr a \<Rightarrow>
          (case StreamStats (k_codec (te_calls k)) svc
                  \<lparr>tq_Name = ta_Name a, tq_Since = ta_Since a, tq_Until = ta_Until a\<rparr> of
             Inl e \<Rightarrow> (CallErr (error_text (k_codec (te_calls k)) e), w)
           | Inr resp \<Rightarrow> (emitProto (pj_stats (te_proto k)) resp, w)))"

text \<open>A jq filter without end keeps \<open>stream_read\<close> from returning.\<close>

definition StreamRead_Call :: "('q, 'code) tool_env \<Rightarrow> 'c Service \<Rightarrow> string \<Rightarrow> 'c world \<Rightarrow> call_outcome \<times> 'c world" where
  "StreamRead_Call k svc raw w =
     (case parse_args ''parse args: '' \<lparr>ra_Name = [], ra_Since = [], ra_Until = [], ra_Limit = 0, ra_Filter = []\<rparr> (aj_read (te_args k)) raw of
        Inl e \<Rightarrow> (CallErr e, w)
      | Inr a \<Rightarrow>
          (case StreamRead (k_codec (te_calls k)) (k_jq (te_calls k)) svc
                  \<lparr>rq_StreamName = ra_Name a, rq_Since = ra_Since a, rq_Until = ra_Until a, rq_Limit = ra_Limit a,
                   rq_Filter = ra_Filter a\<rparr> of
             None \<Rightarrow> (CallHang, w)
           | Some (Inl e) \<Rightarrow> (CallErr (error_text (k_codec (te_calls k)) e), w)
           | Some (Inr resp) \<Rightarrow> (emitProto (pj_read (te_proto k)) resp, w)))"

section \<open>Handlers\<close>

text \<open>Name, description and schema of each tool, as the client is shown them.\<close>

definition NewClusterIdentity :: "('q, 'code) tool_env \<Rightarrow> 'c Service \<Rightarrow> 'c world ToolHandler" where
  \<open>NewClusterIdentity k svc =
     \<lparr>th_Name = ''cluster_identity'',
      th_Description =
       ''Returns the cluster's identity for fleet identification: cluster (site_id, tenant, region), '' @
       ''k8s_version, eob_version, mcp_version. Lets a console enumerate connected clusters and know which '' @
       ''one it's talking to. No arguments.'',
      th_InputSchema =
       ''{"type":"object","properties":{},"additionalProperties":false}'',
      th_Call = ClusterIdentity_Call k svc\<rparr>\<close>

definition NewEoBHealth :: "('q, 'code) tool_env \<Rightarrow> 'c Service \<Rightarrow> 'c world ToolHandler" where
  \<open>NewEoBHealth k svc =
     \<lparr>th_Name = ''eob_health'',
      th_Description =
       ''Returns a health snapshot of the EoB stack: operator, dashboard, streamstore, webhook, and per-node '' @
       ''agent readiness under 'components'; per-directive DaemonSet breakdown under 'directives'; pod '' @
       ''counts per node under 'agents_per_node'. Each component reports ready/desired counts plus a coarse '' @
       ''status (ok|degraded|absent|error). cluster_state='no-cluster' indicates no Kubernetes client '' @
       ''available. No arguments.'',
      th_InputSchema =
       ''{"type":"object","properties":{},"additionalProperties":false}'',
      th_Call = EoBHealth_Call k svc\<rparr>\<close>

definition NewTraceHealth :: "('q, 'code) tool_env \<Rightarrow> 'c Service \<Rightarrow> 'c world ToolHandler" where
  \<open>NewTraceHealth k svc =
     \<lparr>th_Name = ''trace_health'',
      th_Description =
       ''Returns a health snapshot of the co-resident RACE/TRACE defense stack (separate from the EoB '' @
       ''stack): components 'trace_agent' (TRACE host-observation DaemonSet, trace-system) and 'race_agent' '' @
       ''(RACE perimeter-denial DaemonSet, defense-system), each with ready/desired counts and a coarse '' @
       ''status (ok|degraded|absent|error); per-node agent readiness under 'agents_per_node'. Components '' @
       ''report 'absent' on sites where the defense stack is not installed. cluster_state='no-cluster' '' @
       ''indicates no Kubernetes client. No arguments.'',
      th_InputSchema =
       ''{"type":"object","properties":{},"additionalProperties":false}'',
      th_Call = TraceHealth_Call k svc\<rparr>\<close>

definition NewResolveEndpoints :: "('q, 'code) tool_env \<Rightarrow> 'c Service \<Rightarrow> 'c world ToolHandler" where
  \<open>NewResolveEndpoints k svc =
     \<lparr>th_Name = ''resolve_endpoints'',
      th_Description =
       ''Resolve a batch of IP[:port] endpoints to the owning Kubernetes workload and identity: pods -> '' @
       ''{namespace, owner workload (Deployment/DaemonSet/'' @
       [CHR 0xE2] @
       [CHR 0x80] @
       [CHR 0xA6] @
       ''), serviceAccount}; Service ClusterIPs -> the Service; node IPs -> the node; otherwise 'external'. '' @
       ''Turns raw kernel flow tuples (TRACE east-west, MCP downstream reach) into named, identity-tagged '' @
       ''edges. Argument: {"endpoints":[{"ip":"10.3.0.1","port":443}, ...]}.'',
      th_InputSchema =
       ''{"type":"object","properties":{"endpoints":{"type":"array","items":{"type":"object",'' @
       ''"properties":{"ip":{"type":"string"},"port":{"type":"integer"}},"required":["ip"]}}},'' @
       ''"required":["endpoints"],"additionalProperties":false}'',
      th_Call = ResolveEndpoints_Call k svc\<rparr>\<close>

definition NewEastWestGraph :: "('q, 'code) tool_env \<Rightarrow> 'c Service \<Rightarrow> 'c world ToolHandler" where
  \<open>NewEastWestGraph k svc =
     \<lparr>th_Name = ''east_west_graph'',
      th_Description =
       ''Sample the TRACE defense bus for a window and return the east-west service-call graph with every '' @
       ''edge resolved to a named, identity-tagged workload (src process/pod -> dst pod/service/node with '' @
       ''namespace, owner workload, serviceAccount, and connection count). One call = tap + aggregate + '' @
       ''resolve. Arguments: {"window_seconds":10,"max_edges":50} (both optional). Requires the defense bus '' @
       ''configured (else cluster_state='no-defense-bus').'',
      th_InputSchema =
       ''{"type":"object","properties":{"window_seconds":{"type":"integer"},"max_edges":{"type":"integer"}},'' @
       ''"additionalProperties":false}'',
      th_Call = EastWestGraph_Call k svc\<rparr>\<close>

definition NewResourceList :: "('q, 'code) tool_env \<Rightarrow> 'c Service \<Rightarrow> 'c world ToolHandler" where
  \<open>NewResourceList k svc =
     \<lparr>th_Name = ''resource_list'',
      th_Description =
       ''List Kubernetes resources of a given Kind. Defaults apiGroup to the Tawon EoB group '' @
       ''(tawon.mantisnet.com) when not provided. Returns a slim summary including name, namespace, and any '' @
       ''top-level status fields. Optional labelSelector filter.'',
      th_InputSchema =
       ''{"type":"object","properties":{"kind":{"type":"string","description":"Kubernetes Kind, e.g. '' @
       ''ClusterDirective, Dashboard"},"apiGroup":{"type":"string","description":"API group; defaults to '' @
       ''tawon.mantisnet.com"},"namespace":{"type":"string","description":"Namespace; ignored for '' @
       ''cluster-scoped resources, defaults to all namespaces for '' @
       ''namespaced"},"labelSelector":{"type":"string","description":"Standard k8s label '' @
       ''selector"}},"required":["kind"],"additionalProperties":false}'',
      th_Call = ResourceList_Call k svc\<rparr>\<close>

definition NewResourceGet :: "('q, 'code) tool_env \<Rightarrow> 'c Service \<Rightarrow> 'c world ToolHandler" where
  \<open>NewResourceGet k svc =
     \<lparr>th_Name = ''resource_get'',
      th_Description =
       ''Get one Kubernetes resource by Kind and name. Returns the full unstructured object including spec '' @
       ''and status. Defaults apiGroup to tawon.mantisnet.com.'',
      th_InputSchema =
       ''{"type":"object","properties":{"kind":{"type":"string"},"apiGroup":{"type":"string"},'' @
       ''"namespace":{"type":"string"},"name":{"type":"string"}},"required":["kind","name"],'' @
       ''"additionalProperties":false}'',
      th_Call = ResourceGet_Call k svc\<rparr>\<close>

definition NewResourceApply :: "('q, 'code) tool_env \<Rightarrow> 'c Service \<Rightarrow> 'c world ToolHandler" where
  \<open>NewResourceApply k svc =
     \<lparr>th_Name = ''resource_apply'',
      th_Description =
       ''Apply a Kubernetes resource manifest via Server-Side Apply. Accepts YAML or JSON. Set dryRun=true '' @
       ''to validate without persisting (server-side dry-run). Creates the resource if absent, updates it if '' @
       ''present. Field manager defaults to 'eob-mcp'.'',
      th_InputSchema =
       ''{"type":"object","properties":{"manifest":{"type":"string","description":"Full resource manifest in '' @
       ''YAML or JSON form"},"dryRun":{"type":"boolean","description":"If true, validate via server-side '' @
       ''dry-run only"},"force":{"type":"boolean","description":"If true, take ownership of conflicting '' @
       ''fields from other managers"}},"required":["manifest"],"additionalProperties":false}'',
      th_Call = ResourceApply_Call k svc\<rparr>\<close>

definition NewResourceDelete :: "('q, 'code) tool_env \<Rightarrow> 'c Service \<Rightarrow> 'c world ToolHandler" where
  \<open>NewResourceDelete k svc =
     \<lparr>th_Name = ''resource_delete'',
      th_Description =
       ''Delete a Kubernetes resource by Kind and name. Idempotent: returns status='notFound' if it's '' @
       ''already gone. Defaults apiGroup to tawon.mantisnet.com.'',
      th_InputSchema =
       ''{"type":"object","properties":{"kind":{"type":"string"},"apiGroup":{"type":"string"},'' @
       ''"namespace":{"type":"string"},"name":{"type":"string"}},"required":["kind","name"],'' @
       ''"additionalProperties":false}'',
      th_Call = ResourceDelete_Call k svc\<rparr>\<close>

definition NewResourceSchema :: "('q, 'code) tool_env \<Rightarrow> 'c Service \<Rightarrow> 'c world ToolHandler" where
  \<open>NewResourceSchema k svc =
     \<lparr>th_Name = ''resource_schema'',
      th_Description =
       ''Return the OpenAPI v3 schema for a CRD (used to generate or validate manifests). Looks up the CRD '' @
       ''by group + kind. Useful before authoring a manifest to feed to resource_apply.'',
      th_InputSchema =
       ''{"type":"object","properties":{"kind":{"type":"string"},"apiGroup":{"type":"string"}},'' @
       ''"required":["kind"],"additionalProperties":false}'',
      th_Call = ResourceSchema_Call k svc\<rparr>\<close>

definition NewStreamList :: "('q, 'code) tool_env \<Rightarrow> 'c Service \<Rightarrow> 'c world ToolHandler" where
  \<open>NewStreamList k svc =
     \<lparr>th_Name = ''stream_list'',
      th_Description =
       ''List the NATS JetStream streams this EoB site exposes. Returns name, message count, byte count, and '' @
       ''first/last timestamp per stream. No arguments. Pair with stream_read to inspect contents.'',
      th_InputSchema =
       ''{"type":"object","properties":{},"additionalProperties":false}'',
      th_Call = StreamList_Call k svc\<rparr>\<close>

definition NewStreamStats :: "('q, 'code) tool_env \<Rightarrow> 'c Service \<Rightarrow> 'c world ToolHandler" where
  \<open>NewStreamStats k svc =
     \<lparr>th_Name = ''stream_stats'',
      th_Description =
       ''Return message + byte counts for one NATS JetStream stream. Cheap; no message bodies returned. '' @
       ''Optional 'since' and 'until' (RFC3339) '' @
       [CHR 0xE2] @
       [CHR 0x80] @
       [CHR 0x94] @
       '' the backend may report lifetime counts and echo the window unchanged.'',
      th_InputSchema =
       ''{"type":"object","properties":{"name":{"type":"string","description":"Stream name (see '' @
       ''stream_list)"},"since":{"type":"string","description":"Optional RFC3339 lower '' @
       ''bound"},"until":{"type":"string","description":"Optional RFC3339 upper '' @
       ''bound"}},"required":["name"],"additionalProperties":false}'',
      th_Call = StreamStats_Call k svc\<rparr>\<close>

definition NewStreamRead :: "('q, 'code) tool_env \<Rightarrow> 'c Service \<Rightarrow> 'c world ToolHandler" where
  \<open>NewStreamRead k svc =
     \<lparr>th_Name = ''stream_read'',
      th_Description =
       ''Read raw Tawon JSON envelopes from one NATS JetStream stream. Optional time window (since/until '' @
       ''RFC3339), limit (default 100, max 1000), and jq filter expression evaluated server-side against '' @
       ''each envelope. Bodies are returned unchanged '' @
       [CHR 0xE2] @
       [CHR 0x80] @
       [CHR 0x94] @
       '' base64 'payload' bytes stay base64; decode externally with tshark or equivalent.'',
      th_InputSchema =
       ''{"type":"object","properties":{"name":{"type":"string","description":"Stream name (see '' @
       ''stream_list)"},"since":{"type":"string","description":"Optional RFC3339 lower '' @
       ''bound"},"until":{"type":"string","description":"Optional RFC3339 upper '' @
       ''bound"},"limit":{"type":"integer","description":"Max messages to return (default 100, capped at '' @
       ''1000)"},"filter":{"type":"string","description":"jq expression; only envelopes for which it yields '' @
       ''truthy are returned"}},"required":["name"],"additionalProperties":false}'',
      th_Call = StreamRead_Call k svc\<rparr>\<close>

section \<open>Lemmas\<close>

lemma parse_args_cases:
  "parse_args what zero dec raw = (if raw = [] then Inr zero else map_sum (\<lambda>e. what @ e) id (dec raw))"
  by (simp add: parse_args_def split: sum.split)

lemma emitProto_outcome [simp]: "emitProto m r \<noteq> CallPanic" "emitProto m r \<noteq> CallHang"
  by (simp_all add: emitProto_def split: sum.split)

text \<open>
  What the HTTP handler relies on of a tool: over a world with a sound broker it does not panic, at most
  adds to the queues of the broker, and returns unless it is \<open>stream_read\<close>.
\<close>

definition tool_ok :: "'c world ToolHandler \<Rightarrow> bool" where
  "tool_ok t \<longleftrightarrow>
     (\<forall>raw w. broker_inv (w_audit w) \<longrightarrow>
        fst (th_Call t raw w) \<noteq> CallPanic \<and> audit_grows w (snd (th_Call t raw w)) \<and>
        (fst (th_Call t raw w) = CallHang \<longrightarrow> th_Name t = ''stream_read''))"

lemmas tool_simps = tool_ok_def case_prod_beta

lemma core_tools_ok:
  "tool_ok (NewClusterIdentity k svc)" "tool_ok (NewEoBHealth k svc)" "tool_ok (NewTraceHealth k svc)"
  "tool_ok (NewResolveEndpoints k svc)" "tool_ok (NewEastWestGraph k svc)"
  by (simp_all add: tool_simps NewClusterIdentity_def ClusterIdentity_Call_def NewEoBHealth_def EoBHealth_Call_def
      NewTraceHealth_def TraceHealth_Call_def NewResolveEndpoints_def ResolveEndpoints_Call_def NewEastWestGraph_def
      EastWestGraph_Call_def split: sum.split option.split)

lemma read_tools_ok:
  "tool_ok (NewResourceList k svc)" "tool_ok (NewResourceGet k svc)" "tool_ok (NewResourceSchema k svc)"
  "tool_ok (NewStreamList k svc)" "tool_ok (NewStreamStats k svc)" "tool_ok (NewStreamRead k svc)"
  by (simp_all add: tool_simps NewResourceList_def ResourceList_Call_def NewResourceGet_def ResourceGet_Call_def
      NewResourceSchema_def ResourceSchema_Call_def NewStreamList_def StreamList_Call_def NewStreamStats_def
      StreamStats_Call_def NewStreamRead_def StreamRead_Call_def split: sum.split option.split)

text \<open>The calls that change the cluster end with a publication.\<close>

lemma ResourceApply_sound:
  assumes "broker_inv (w_audit w)"
  obtains r w' where "ResourceApply cd ua s req w = Some (r, w')" "audit_grows w w'"
    "if apply_reached r then \<exists>ev. ae_Reason ev = ''ResourceApply'' \<and> apply_event_ok r ev \<and> audited ev w w'
     else isl r \<and> w' = w"
proof (rule ResourceApply_cases [OF assms, of cd ua s req])
  fix e assume "ResourceApply cd ua s req w = Some (Inl e, w)" "\<not> apply_reached (Inl e :: svc_error + ResourceApplyResponse)"
  with that [of "Inl e" w] assms show thesis by simp
next
  fix t answer w'
  assume "ResourceApply cd ua s req w = Some (apply_outcome ua s (aq_DryRun req) t answer, w')"
    and *: "audited (apply_event cd ua (aq_DryRun req) t answer) w w'"
  moreover have "audit_grows w w'" using * by (rule audited_grows)
  moreover have "\<exists>ev. ae_Reason ev = ''ResourceApply'' \<and>
      apply_event_ok (apply_outcome ua s (aq_DryRun req) t answer) ev \<and> audited ev w w'"
    using * apply_event_facts by blast
  ultimately show thesis
    using that [of "apply_outcome ua s (aq_DryRun req) t answer" w'] by (simp add: apply_outcome_facts(1))
qed

lemma ResourceDelete_sound:
  assumes "broker_inv (w_audit w)"
  obtains r w' where "ResourceDelete cd s req w = Some (r, w')" "audit_grows w w'"
  by (rule ResourceDelete_cases [OF assms, of req s cd]) (use assms that in \<open>auto intro: audited_grows\<close>)

lemma write_tools_ok: "tool_ok (NewResourceApply k svc)" "tool_ok (NewResourceDelete k svc)"
proof -
  have "fst (ResourceApply_Call k svc raw w) \<notin> {CallPanic, CallHang} \<and> audit_grows w (snd (ResourceApply_Call k svc raw w))"
    if inv: "broker_inv (w_audit w)" for raw and w :: "'a world"
  proof (cases "parse_args ''parse args: '' \<lparr>aa_Manifest = [], aa_DryRun = False, aa_Force = False\<rparr> (aj_apply (te_args k)) raw")
    case (Inr a)
    obtain r w' where "ResourceApply (k_codec (te_calls k)) (k_ua (te_calls k)) svc
        \<lparr>aq_Manifest = aa_Manifest a, aq_DryRun = aa_DryRun a, aq_Force = aa_Force a\<rparr> w = Some (r, w')" "audit_grows w w'"
      using ResourceApply_sound [OF inv] by blast
    with Inr show ?thesis by (cases r) (simp_all add: ResourceApply_Call_def)
  qed (use inv in \<open>simp add: ResourceApply_Call_def\<close>)
  then show "tool_ok (NewResourceApply k svc)" by (auto simp: tool_ok_def NewResourceApply_def)
  have "fst (ResourceDelete_Call k svc raw w) \<notin> {CallPanic, CallHang} \<and> audit_grows w (snd (ResourceDelete_Call k svc raw w))"
    if inv: "broker_inv (w_audit w)" for raw and w :: "'a world"
  proof (cases "parse_args ''parse args: '' \<lparr>da_Kind = [], da_APIGroup = [], da_Namespace = [], da_Name = []\<rparr> (aj_delete (te_args k)) raw")
    case (Inr a)
    obtain r w' where "ResourceDelete (k_codec (te_calls k)) svc
        \<lparr>dq_Kind = da_Kind a, dq_ApiGroup = da_APIGroup a, dq_Namespace = da_Namespace a, dq_Name = da_Name a\<rparr> w = Some (r, w')"
      "audit_grows w w'"
      using ResourceDelete_sound [OF inv] by blast
    with Inr show ?thesis by (cases r) (simp_all add: ResourceDelete_Call_def)
  qed (use inv in \<open>simp add: ResourceDelete_Call_def\<close>)
  then show "tool_ok (NewResourceDelete k svc)" by (auto simp: tool_ok_def NewResourceDelete_def)
qed

section \<open>An example environment\<close>

text \<open>Argument decoders that know one encoding each, and an encoder that gives the name of the tool's response.\<close>

definition ex_args_json :: args_json where
  "ex_args_json =
     \<lparr>aj_list = (\<lambda>b. Inl ''bad''), aj_get = (\<lambda>b. Inl ''bad''),
      aj_apply = (\<lambda>b. Inr \<lparr>aa_Manifest = b, aa_DryRun = False, aa_Force = False\<rparr>),
      aj_delete = (\<lambda>b. Inl ''bad''), aj_schema = (\<lambda>b. Inl ''bad''), aj_stats = (\<lambda>b. Inl ''bad''),
      aj_read = (\<lambda>b. Inl ''bad''), aj_resolve = (\<lambda>b. Inr \<lparr>va_Endpoints = []\<rparr>), aj_ewg = (\<lambda>b. Inl ''bad'')\<rparr>"

definition ex_proto_json :: proto_json where
  "ex_proto_json =
     \<lparr>pj_identity = (\<lambda>_. Inr ''identity''), pj_health = (\<lambda>_. Inr ''health''), pj_trace = (\<lambda>_. Inr ''trace''),
      pj_resolve = (\<lambda>_. Inr ''resolve''), pj_ewg = (\<lambda>_. Inr ''ewg''), pj_list = (\<lambda>_. Inr ''list''),
      pj_get = (\<lambda>_. Inr ''get''), pj_apply = (\<lambda>_. Inr ''apply''), pj_delete = (\<lambda>_. Inr ''delete''),
      pj_schema = (\<lambda>_. Inr ''schema''), pj_streams = (\<lambda>_. Inr ''streams''), pj_stats = (\<lambda>_. Inr ''stats''),
      pj_read = (\<lambda>_. Inr ''read'')\<rparr>"

definition ex_tool_env :: "(unit, unit) tool_env" where
  "ex_tool_env =
     \<lparr>te_calls =
        \<lparr>k_codec = ex_codec_of, k_ua = ex_unstructured, k_jq = ex_jq JqDone, k_items = sort_by, k_directives = sort_by,
         k_nodes = ([], []), k_edges = sort_by, k_envelope = (\<lambda>_. Inl (ex_err False)), k_connect = None,
         k_subscribe = None, k_messages = [], k_edge_order = []\<rparr>,
      te_args = ex_args_json, te_proto = ex_proto_json\<rparr>"

end
