(* ===== verification/Journey.thy ===== *)
theory Journey
  imports Endpoints "HOL-Library.Log_Nat"
begin

text \<open>
  \<open>journey.go\<close>: the dashboard producer on the defense bus. The state under its mutex is a record; an
  operation is what one critical section does to it: a message (\<open>onMessage\<close>), the installation of a
  fresh index and the tick of the sampler (\<open>sample\<close>, \<open>maybeRefreshIndex\<close>), the snapshot that a poll
  reads. A step relation interleaves them, since the sampler runs beside the callbacks. Maps are
  partial maps; where the code ranges over one and the order matters, the order of its keys is an
  argument. A float64 is kept as the integer it holds.
\<close>

section \<open>Names and addresses\<close>

definition probesSubject :: string where "probesSubject = ''defense.events.probes''"
definition threatsSubject :: string where "threatsSubject = ''defense.events.threats''"

definition journeyHistoryLen :: nat where "journeyHistoryLen = 120"
definition journeyChannelIdle :: int where "journeyChannelIdle = 20 * Second"
definition journeyProberTTL :: int where "journeyProberTTL = 90 * Second"
definition journeyIndexRefresh :: int where "journeyIndexRefresh = 30 * Second"
definition journeyActiveWindow :: int where "journeyActiveWindow = 10 * Second"
definition journeyTopProbers :: nat where "journeyTopProbers = 8"

lemmas journey_consts =
  journeyHistoryLen_def journeyChannelIdle_def journeyProberTTL_def journeyIndexRefresh_def
  journeyActiveWindow_def journeyTopProbers_def

definition channelNames :: "(int \<times> string) list" where
  "channelNames =
     [(1, ''BANNER_SSH''), (2, ''BANNER_HTTP''), (3, ''OSFP''), (4, ''ERRNO_FS''), (5, ''PROC_KALLSYMS''),
      (6, ''CRASH''), (7, ''ICMP''), (8, ''SEQ_IPID''), (9, ''DECOY'')]"

definition channelName :: "i64 \<Rightarrow> string" where
  "channelName i =
     (case map_of channelNames (sint i) of Some n \<Rightarrow> n | None \<Rightarrow> ''ch'' @ show_int (sint i))"

definition hostOf :: "string \<Rightarrow> string" where
  "hostOf addr = (case last_index_of (CHR '':'') addr of Some i \<Rightarrow> take i addr | None \<Rightarrow> addr)"

definition describeEndpoint :: "string \<Rightarrow> string \<Rightarrow> string \<Rightarrow> string" where
  "describeEndpoint kind ns name =
     (if kind = ''pod'' \<or> kind = ''service'' then (if ns \<noteq> [] then ns @ ''/'' @ name else name)
      else if kind = ''node'' then ''node/'' @ name
      else ''external'')"

text \<open>\<open>fmt.Fprintf(&b, "%02x ", c)\<close> for the first eight bytes, or the text itself cut to 40 bytes.\<close>

definition sanitizeSub :: "string \<Rightarrow> string" where
  "sanitizeSub s =
     (let printable = list_all (\<lambda>(r, _). \<not> (r < 0x20 \<or> r > 0x7e)) (runes s)
      in if printable then (if length s > 40 then take 40 s else s)
         else TrimSpace (concat (map (\<lambda>c. hex2 c @ '' '') (take 8 s))))"

section \<open>The producer\<close>

record probeEnvelope =
  pe_Cluster :: string
  pe_SiteID :: string
  pe_ChannelID :: i64
  pe_Decision :: string
  pe_Prober :: string
  pe_Responder :: string
  pe_Substitute :: string

record proberStat =
  ps_ip :: string
  ps_name :: string
  ps_denied :: i64
  ps_lastDecision :: string
  ps_lastSeen :: gotime

record Journey =
  j_counts :: "string \<rightharpoonup> i64"
  j_series :: "string \<rightharpoonup> int list"
  j_lastSeen :: "string \<rightharpoonup> gotime"
  j_lastSub :: "string \<rightharpoonup> string"
  j_probers :: "string \<rightharpoonup> proberStat"
  j_tarpit :: i64
  j_decoyHits :: i64
  j_threats :: i64
  j_totalDenied :: i64
  j_lastEventAt :: gotime
  j_idx :: "endpointIndex option"
  j_idxBuiltAt :: gotime
  j_connected :: bool
  j_subs :: "string list"
  j_sampling :: bool
  j_stopped :: bool

definition NewJourney :: Journey where
  "NewJourney =
     \<lparr>j_counts = Map.empty, j_series = Map.empty, j_lastSeen = Map.empty, j_lastSub = Map.empty,
      j_probers = Map.empty, j_tarpit = 0, j_decoyHits = 0, j_threats = 0, j_totalDenied = 0,
      j_lastEventAt = zero_time, j_idx = None, j_idxBuiltAt = zero_time, j_connected = False, j_subs = [],
      j_sampling = False, j_stopped = False\<rparr>"

subsection \<open>Connecting and closing\<close>

datatype journey_error = DefenseURLUnset | ConnectJourney string ext_err | SubscribeJourney string ext_err

datatype conn_op = Unsubscribe string | Drain

definition closeNATS :: "Journey \<Rightarrow> Journey \<times> conn_op list" where
  "closeNATS j =
     (j\<lparr>j_connected := False\<rparr>, map Unsubscribe (j_subs j) @ (if j_connected j then [Drain] else []))"

text \<open>The loop over the subjects: the first refusal closes what is open.\<close>

fun subscribe_all ::
  "(string \<Rightarrow> ext_err option) \<Rightarrow> string list \<Rightarrow> Journey \<Rightarrow> journey_error option \<times> Journey \<times> conn_op list" where
  "subscribe_all subscribe [] j = (None, j, [])"
| "subscribe_all subscribe (subj # subjs) j =
     (case subscribe subj of
        Some e \<Rightarrow> (Some (SubscribeJourney subj e), closeNATS j)
      | None \<Rightarrow> subscribe_all subscribe subjs (j\<lparr>j_subs := j_subs j @ [subj]\<rparr>))"

definition Start_Journey ::
  "config \<Rightarrow> ext_err option \<Rightarrow> (string \<Rightarrow> ext_err option) \<Rightarrow> Journey \<Rightarrow>
     journey_error option \<times> Journey \<times> conn_op list" where
  "Start_Journey cfg connect subscribe j =
     (if DefenseNATSURL cfg = [] then (Some DefenseURLUnset, j, [])
      else case connect of
        Some e \<Rightarrow> (Some (ConnectJourney (DefenseNATSURL cfg) e), j, [])
      | None \<Rightarrow>
          (case subscribe_all subscribe [probesSubject, threatsSubject] (j\<lparr>j_connected := True\<rparr>) of
             (Some e, j', ops) \<Rightarrow> (Some e, j', ops)
           | (None, j', ops) \<Rightarrow> (None, j'\<lparr>j_sampling := True\<rparr>, ops)))"

text \<open>
  Closing a closed channel panics; without a running sampler the wait for \<open>done\<close> has no end. The
  sampler returns once \<open>stop\<close> is closed.
\<close>

datatype close_outcome = Closed Journey "conn_op list" | ClosePanic | CloseBlocks

definition Close_Journey :: "Journey \<Rightarrow> close_outcome" where
  "Close_Journey j =
     (if \<not> j_connected j then Closed j []
      else if j_stopped j then ClosePanic
      else if \<not> j_sampling j then CloseBlocks
      else case closeNATS (j\<lparr>j_stopped := True, j_sampling := False\<rparr>) of (j', ops) \<Rightarrow> Closed j' ops)"

subsection \<open>A message\<close>

definition bump_prober :: "string \<Rightarrow> gotime \<Rightarrow> proberStat \<Rightarrow> proberStat" where
  "bump_prober decision now p =
     p\<lparr>ps_denied := ps_denied p + 1, ps_lastDecision := decision, ps_lastSeen := now\<rparr>"

definition new_prober :: "string \<Rightarrow> proberStat" where
  "new_prober ip = \<lparr>ps_ip = ip, ps_name = [], ps_denied = 0, ps_lastDecision = [], ps_lastSeen = zero_time\<rparr>"

text \<open>The critical section of a denial event.\<close>

definition record_probe :: "probeEnvelope \<Rightarrow> gotime \<Rightarrow> Journey \<Rightarrow> Journey" where
  "record_probe e now j =
     (let ch = channelName (pe_ChannelID e); ip = hostOf (pe_Prober e);
          j = j\<lparr>j_counts := upsert ch (\<lambda>n. n + 1) 0 (j_counts j), j_lastSeen := (j_lastSeen j)(ch \<mapsto> now),
                j_totalDenied := j_totalDenied j + 1, j_lastEventAt := now\<rparr>;
          j = (if pe_Substitute e \<noteq> []
               then j\<lparr>j_lastSub := (j_lastSub j)(ch \<mapsto> sanitizeSub (pe_Substitute e))\<rparr> else j);
          j = (if pe_Decision e = ''Tarpit'' then j\<lparr>j_tarpit := j_tarpit j + 1\<rparr>
               else if pe_Decision e = ''DecoyHit'' then j\<lparr>j_decoyHits := j_decoyHits j + 1\<rparr> else j)
      in if ip \<noteq> []
         then j\<lparr>j_probers := upsert ip (bump_prober (pe_Decision e) now) (new_prober ip) (j_probers j)\<rparr> else j)"

definition probe_of :: "(string \<Rightarrow> ext_err + probeEnvelope) \<Rightarrow> string \<Rightarrow> string \<Rightarrow> probeEnvelope option" where
  "probe_of dec subject msg =
     (if subject = threatsSubject then None
      else case dec msg of
        Inl e \<Rightarrow> None
      | Inr e \<Rightarrow> if pe_ChannelID e = 0 then None else Some e)"

definition onMessage ::
  "(string \<Rightarrow> ext_err + probeEnvelope) \<Rightarrow> string \<Rightarrow> string \<Rightarrow> gotime \<Rightarrow> Journey \<Rightarrow> Journey" where
  "onMessage dec subject msg now j =
     (if subject = threatsSubject then j\<lparr>j_threats := j_threats j + 1\<rparr>
      else case probe_of dec subject msg of None \<Rightarrow> j | Some e \<Rightarrow> record_probe e now j)"

subsection \<open>The sampler\<close>

text \<open>A conversion to float64: 53 significant bits, ties to even.\<close>

definition float64 :: "int \<Rightarrow> int" where
  "float64 x =
     (let e = bitlen \<bar>x\<bar> - 53
      in if e \<le> 0 then x
         else let u = 2 ^ nat e; q = \<bar>x\<bar> div u; r = \<bar>x\<bar> mod u
           in sgn x * (if 2 * r > u \<or> (2 * r = u \<and> odd q) then q + 1 else q) * u)"

definition push_sample :: "int \<Rightarrow> int list \<Rightarrow> int list" where
  "push_sample v xs =
     (let s = xs @ [v] in if length s > journeyHistoryLen then drop (length s - journeyHistoryLen) s else s)"

definition channel_active :: "gotime \<Rightarrow> Journey \<Rightarrow> string \<Rightarrow> bool" where
  "channel_active now j ch =
     (case j_lastSeen j ch of None \<Rightarrow> False | Some t \<Rightarrow> Sub now t \<le> journeyChannelIdle)"

text \<open>The series after the appends; the channels it holds that are idle go from all three maps.\<close>

definition appended_series :: "gotime \<Rightarrow> Journey \<Rightarrow> string \<rightharpoonup> int list" where
  "appended_series now j ch =
     (if channel_active now j ch
      then Some (push_sample (float64 (sint (case j_counts j ch of Some n \<Rightarrow> n | None \<Rightarrow> 0)))
             (case j_series j ch of Some s \<Rightarrow> s | None \<Rightarrow> []))
      else j_series j ch)"

definition drop_idle :: "gotime \<Rightarrow> Journey \<Rightarrow> (string \<rightharpoonup> 'v) \<Rightarrow> (string \<rightharpoonup> 'v)" where
  "drop_idle now j m ch =
     (if appended_series now j ch \<noteq> None \<and> \<not> channel_active now j ch then None else m ch)"

definition sample_channels :: "gotime \<Rightarrow> Journey \<Rightarrow> Journey" where
  "sample_channels now j =
     j\<lparr>j_series := drop_idle now j (appended_series now j), j_lastSeen := drop_idle now j (j_lastSeen j),
       j_lastSub := drop_idle now j (j_lastSub j), j_counts := Map.empty\<rparr>"

definition endpoint_name :: "endpointIndex \<Rightarrow> string \<Rightarrow> string" where
  "endpoint_name idx ip =
     (let r = resolve idx ip 0 in describeEndpoint (re_Kind r) (re_Namespace r) (re_Name r))"

definition sample_prober :: "gotime \<Rightarrow> endpointIndex option \<Rightarrow> string \<Rightarrow> proberStat \<Rightarrow> proberStat option" where
  "sample_prober now idx ip p =
     (if Sub now (ps_lastSeen p) > journeyProberTTL then None
      else case idx of
        Some ix \<Rightarrow> Some (if ps_name p = [] then p\<lparr>ps_name := endpoint_name ix ip\<rparr> else p)
      | None \<Rightarrow> Some p)"

definition sample_probers :: "gotime \<Rightarrow> Journey \<Rightarrow> Journey" where
  "sample_probers now j =
     j\<lparr>j_probers := (\<lambda>ip. case j_probers j ip of None \<Rightarrow> None | Some p \<Rightarrow> sample_prober now (j_idx j) ip p)\<rparr>"

definition sample_tick :: "gotime \<Rightarrow> Journey \<Rightarrow> Journey" where
  "sample_tick now j = sample_probers now (sample_channels now j)"

definition index_stale :: "gotime \<Rightarrow> Journey \<Rightarrow> bool" where
  "index_stale now j \<longleftrightarrow> j_idx j = None \<or> Sub now (j_idxBuiltAt j) > journeyIndexRefresh"

definition install_index :: "endpointIndex \<Rightarrow> gotime \<Rightarrow> Journey \<Rightarrow> Journey" where
  "install_index idx now j =
     j\<lparr>j_idx := Some idx, j_idxBuiltAt := now,
       j_probers := (\<lambda>ip. map_option (\<lambda>p. p\<lparr>ps_name := endpoint_name idx ip\<rparr>) (j_probers j ip))\<rparr>"

definition maybeRefreshIndex :: "kube_client option \<Rightarrow> gotime \<Rightarrow> Journey \<Rightarrow> Journey" where
  "maybeRefreshIndex kube now j =
     (case kube of
        None \<Rightarrow> j
      | Some kc \<Rightarrow> if index_stale now j then install_index (buildEndpointIndex kc) now j else j)"

definition sample :: "kube_client option \<Rightarrow> gotime \<Rightarrow> Journey \<Rightarrow> Journey" where
  "sample kube now j = sample_tick now (maybeRefreshIndex kube now j)"

subsection \<open>Steps\<close>

text \<open>
  What can happen to the state, one critical section at a time: a message, the installation of an
  index that was found stale, a tick of the sampler.
\<close>

datatype journey_event = JMsg string string gotime | JIndex kube_client gotime | JTick gotime

inductive journey_step ::
  "(string \<Rightarrow> ext_err + probeEnvelope) \<Rightarrow> Journey \<Rightarrow> journey_event \<Rightarrow> Journey \<Rightarrow> bool"
  for dec :: "string \<Rightarrow> ext_err + probeEnvelope" where
  message: "journey_step dec j (JMsg subject msg now) (onMessage dec subject msg now j)"
| indexed: "index_stale now j \<Longrightarrow>
    journey_step dec j (JIndex kc now) (install_index (buildEndpointIndex kc) now j)"
| ticked: "journey_step dec j (JTick now) (sample_tick now j)"

inductive journey_run ::
  "(string \<Rightarrow> ext_err + probeEnvelope) \<Rightarrow> Journey \<Rightarrow> journey_event list \<Rightarrow> Journey \<Rightarrow> bool"
  for dec :: "string \<Rightarrow> ext_err + probeEnvelope" where
  run_none: "journey_run dec j [] j"
| run_more: "journey_step dec j e j1 \<Longrightarrow> journey_run dec j1 es j2 \<Longrightarrow> journey_run dec j (e # es) j2"

inductive_simps journey_msg [simp]: "journey_step dec j (JMsg subject msg now) j'"
inductive_simps journey_index [simp]: "journey_step dec j (JIndex kc now) j'"
inductive_simps journey_tick [simp]: "journey_step dec j (JTick now) j'"
inductive_simps journey_run_Nil [simp]: "journey_run dec j [] j'"
inductive_simps journey_run_Cons [simp]: "journey_run dec j (e # es) j'"

section \<open>The snapshot\<close>

record proberRow =
  pr_ip :: string
  pr_name :: string
  pr_denied :: i64
  pr_last_decision :: string

record Snapshot =
  sn_updated_ms :: i64
  sn_headline :: string
  sn_hero :: string
  sn_mode :: string
  sn_channels :: "string \<rightharpoonup> int"
  sn_channel_series :: "string \<rightharpoonup> int list"
  sn_site :: "(string \<times> string) list"
  sn_probers :: "proberRow list"
  sn_tarpit :: i64
  sn_decoy_hits :: i64
  sn_n_channels :: nat
  sn_n_active :: nat
  sn_n_probers :: nat
  sn_stations :: "(string \<times> string \<times> string) list"

text \<open>\<open>t.UnixMilli()\<close>: milliseconds since 1 January 1970.\<close>

definition UnixMilli :: "gotime \<Rightarrow> i64" where
  "UnixMilli t = word_of_int ((t_ns t - 62135596800 * Second) div 1000000)"

text \<open>The last rate of a channel, 0 without one.\<close>

definition chCount :: "Journey \<Rightarrow> string \<Rightarrow> int" where
  "chCount j name = (case j_series j name of Some s \<Rightarrow> if s = [] then 0 else last s | None \<Rightarrow> 0)"

text \<open>The sum over the series in the order the map is visited, in float64.\<close>

fun tick_total :: "Journey \<Rightarrow> string list \<Rightarrow> int \<Rightarrow> int" where
  "tick_total j [] t = t"
| "tick_total j (ch # chs) t =
     tick_total j chs
       (case j_series j ch of Some s \<Rightarrow> if s = [] then t else float64 (t + last s) | None \<Rightarrow> t)"

text \<open>The middle dot of the texts, in UTF-8.\<close>

definition dot :: string where
  "dot = '' '' @ [CHR 0xC2, CHR 0xB7] @ '' ''"

definition stations :: "Journey \<Rightarrow> nat \<Rightarrow> nat \<Rightarrow> int \<Rightarrow> (string \<times> string \<times> string) list" where
  "stations j nSeries nProbers tickTotal =
     (let sub = (\<lambda>ch. case j_lastSub j ch of Some s \<Rightarrow> s | None \<Rightarrow> []);
          lastText = (\<lambda>ch. if sub ch \<noteq> [] then ''  last: '' @ sub ch else []);
          rate = (\<lambda>ch. show_int (chCount j ch) @ ''/s'')
      in [(''01'', ''vhost0'' @ dot @ show_int tickTotal @ ''/s denied across '' @ show_nat nSeries @ '' channels'', ''ok''),
          (''02'', show_nat nProbers @ '' active probers'', ''ok''),
          (''03'', rate ''OSFP'' @ lastText ''OSFP'', ''ok''),
          (''04'', rate ''SEQ_IPID'', ''ok''),
          (''05'', rate ''ICMP'', ''ok''),
          (''06'', ''SSH '' @ rate ''BANNER_SSH'' @ dot @ ''HTTP '' @ rate ''BANNER_HTTP'' @ lastText ''BANNER_SSH'', ''ok''),
          (''07'', show_int (sint (j_tarpit j)) @ '' tarpitted'', if sint (j_tarpit j) > 0 then ''warn'' else ''ok''),
          (''08'', show_int (sint (j_decoyHits j)) @ '' decoy touches'', if sint (j_decoyHits j) > 0 then ''hit'' else ''ok''),
          (''09'', show_int (sint (j_threats j)) @ '' threat signals'', ''ok'')])"

definition prober_row :: "proberStat \<Rightarrow> proberRow" where
  "prober_row p =
     \<lparr>pr_ip = ps_ip p, pr_name = (if ps_name p = [] then ''external'' else ps_name p), pr_denied = ps_denied p,
      pr_last_decision = ps_lastDecision p\<rparr>"

definition journey_mode :: "gotime \<Rightarrow> Journey \<Rightarrow> string" where
  "journey_mode now j =
     (if \<not> IsZero (j_lastEventAt j) \<and> Sub now (j_lastEventAt j) \<le> journeyActiveWindow then ''denial'' else ''idle'')"

text \<open>\<open>chs\<close> and \<open>ips\<close> are the keys of the series and of the probers, in the order they are visited.\<close>

definition snapshot ::
  "proberRow sorter \<Rightarrow> string list \<Rightarrow> string list \<Rightarrow> config \<Rightarrow> gotime \<Rightarrow> Journey \<Rightarrow> Snapshot" where
  "snapshot srt chs ips cfg now j =
     (let tickTotal = tick_total j chs 0;
          rows = map prober_row (List.map_filter (j_probers j) ips);
          ranked = srt (\<lambda>a b. sint (pr_denied a) > sint (pr_denied b)) rows;
          kept = (if length ranked > journeyTopProbers then take journeyTopProbers ranked else ranked);
          mode = journey_mode now j
      in \<lparr>sn_updated_ms = UnixMilli now,
          sn_headline = ''RACE '' @ mode @ dot @ show_nat (length chs) @ '' channels active'' @ dot @
            show_int tickTotal @ ''/s denied'' @ dot @ show_int (sint (j_totalDenied j)) @ '' total'',
          sn_hero = show_int tickTotal @ '' probes/s denied'', sn_mode = mode,
          sn_channels = (\<lambda>ch. case j_series j ch of Some s \<Rightarrow> if s = [] then None else Some (last s) | None \<Rightarrow> None),
          sn_channel_series = j_series j,
          sn_site = [(''site_id'', SiteID cfg), (''tenant'', Tenant cfg), (''cluster'', SiteID cfg),
            (''region'', Region cfg), (''iface'', ''vhost0''), (''mode'', mode)],
          sn_probers = kept, sn_tarpit = j_tarpit j, sn_decoy_hits = j_decoyHits j,
          sn_n_channels = length channelNames, sn_n_active = length chs, sn_n_probers = length ips,
          sn_stations = stations j (length chs) (length ips) tickTotal\<rparr>)"

section \<open>Lemmas: what the bus delivered\<close>

text \<open>The denial events of a history with the times they were handled at, and a few of their parts.\<close>

fun probe_event :: "(string \<Rightarrow> ext_err + probeEnvelope) \<Rightarrow> journey_event \<Rightarrow> (probeEnvelope \<times> gotime) option" where
  "probe_event dec (JMsg subject msg now) = map_option (\<lambda>e. (e, now)) (probe_of dec subject msg)"
| "probe_event dec _ = None"

definition probes :: "(string \<Rightarrow> ext_err + probeEnvelope) \<Rightarrow> journey_event list \<Rightarrow> (probeEnvelope \<times> gotime) list" where
  "probes dec es = List.map_filter (probe_event dec) es"

definition on_channel :: "string \<Rightarrow> probeEnvelope \<times> gotime \<Rightarrow> bool" where
  "on_channel ch p \<longleftrightarrow> channelName (pe_ChannelID (fst p)) = ch"

definition from_host :: "string \<Rightarrow> probeEnvelope \<times> gotime \<Rightarrow> bool" where
  "from_host ip p \<longleftrightarrow> hostOf (pe_Prober (fst p)) = ip"

definition with_decision :: "string \<Rightarrow> probeEnvelope \<times> gotime \<Rightarrow> bool" where
  "with_decision d p \<longleftrightarrow> pe_Decision (fst p) = d"

fun is_tick :: "journey_event \<Rightarrow> bool" where
  "is_tick (JTick _) = True"
| "is_tick _ = False"

fun is_threat :: "journey_event \<Rightarrow> bool" where
  "is_threat (JMsg subject _ _) = (subject = threatsSubject)"
| "is_threat _ = False"

fun event_ns :: "journey_event \<Rightarrow> int" where
  "event_ns (JMsg _ _ now) = t_ns now"
| "event_ns (JIndex _ now) = t_ns now"
| "event_ns (JTick now) = t_ns now"

definition since_tick :: "journey_event list \<Rightarrow> journey_event list" where
  "since_tick es = rev (takeWhile (\<lambda>e. \<not> is_tick e) (rev es))"

lemma probes_simps [simp]:
  "probes dec [] = []" "probes dec (es @ fs) = probes dec es @ probes dec fs"
  "probes dec [e] = (case probe_event dec e of None \<Rightarrow> [] | Some p \<Rightarrow> [p])"
  by (simp_all add: probes_def map_filter_simps split: option.split)

lemma length_probes_le: "length (probes dec es) \<le> length es"
  by (simp add: probes_def length_map_filter_le)

lemma since_tick_simps [simp]:
  "since_tick [] = []" "since_tick (es @ [e]) = (if is_tick e then [] else since_tick es @ [e])"
  by (simp_all add: since_tick_def)

lemma length_since_tick: "length (since_tick es) \<le> length es"
  by (metis length_rev length_takeWhile_le since_tick_def)

lemma threat_no_probe: "is_threat e \<Longrightarrow> probe_event dec e = None"
  by (cases e) (simp_all add: probe_of_def)

lemma upsert_same: "upsert k f i m k = Some (f (case m k of None \<Rightarrow> i | Some v \<Rightarrow> v))"
  by (simp add: upsert_def)

section \<open>Lemmas: the operations\<close>

lemma record_probe_fields [simp]:
  "j_counts (record_probe e now j) = upsert (channelName (pe_ChannelID e)) (\<lambda>n. n + 1) 0 (j_counts j)"
  "j_series (record_probe e now j) = j_series j"
  "j_lastSeen (record_probe e now j) = (j_lastSeen j)(channelName (pe_ChannelID e) \<mapsto> now)"
  "j_totalDenied (record_probe e now j) = j_totalDenied j + 1"
  "j_lastEventAt (record_probe e now j) = now"
  "j_threats (record_probe e now j) = j_threats j"
  "j_tarpit (record_probe e now j) = (if pe_Decision e = ''Tarpit'' then j_tarpit j + 1 else j_tarpit j)"
  "j_decoyHits (record_probe e now j) = (if pe_Decision e = ''DecoyHit'' then j_decoyHits j + 1 else j_decoyHits j)"
  "j_probers (record_probe e now j) =
     (if hostOf (pe_Prober e) = [] then j_probers j
      else upsert (hostOf (pe_Prober e)) (bump_prober (pe_Decision e) now) (new_prober (hostOf (pe_Prober e))) (j_probers j))"
  by (simp_all add: record_probe_def Let_def)

lemma sample_tick_fields [simp]:
  "j_counts (sample_tick now j) = Map.empty"
  "j_series (sample_tick now j) ch = (if channel_active now j ch then appended_series now j ch else None)"
  "j_lastSeen (sample_tick now j) = drop_idle now j (j_lastSeen j)"
  "j_totalDenied (sample_tick now j) = j_totalDenied j" "j_lastEventAt (sample_tick now j) = j_lastEventAt j"
  "j_threats (sample_tick now j) = j_threats j" "j_tarpit (sample_tick now j) = j_tarpit j"
  "j_decoyHits (sample_tick now j) = j_decoyHits j"
  "j_probers (sample_tick now j) ip =
     (case j_probers j ip of None \<Rightarrow> None | Some p \<Rightarrow> sample_prober now (j_idx j) ip p)"
  by (auto simp: sample_tick_def sample_probers_def sample_channels_def drop_idle_def split: option.split)

lemma install_index_fields [simp]:
  "j_counts (install_index ix now j) = j_counts j" "j_series (install_index ix now j) = j_series j"
  "j_lastSeen (install_index ix now j) = j_lastSeen j" "j_totalDenied (install_index ix now j) = j_totalDenied j"
  "j_lastEventAt (install_index ix now j) = j_lastEventAt j" "j_threats (install_index ix now j) = j_threats j"
  "j_tarpit (install_index ix now j) = j_tarpit j" "j_decoyHits (install_index ix now j) = j_decoyHits j"
  "j_probers (install_index ix now j) ip = map_option (\<lambda>p. p\<lparr>ps_name := endpoint_name ix ip\<rparr>) (j_probers j ip)"
  by (simp_all add: install_index_def)

lemma push_sample_simps [simp]:
  "push_sample v xs \<noteq> []" "last (push_sample v xs) = v" "length (push_sample v xs) \<le> 120"
  by (auto simp: push_sample_def Let_def journeyHistoryLen_def)

lemma same_name: "\<exists>n. p = p\<lparr>ps_name := n\<rparr>"
  by (rule exI [of _ "ps_name p"]) simp

lemma sample_prober_Some:
  "sample_prober now idx ip p = Some q \<Longrightarrow> \<exists>n. q = p\<lparr>ps_name := n\<rparr>"
  using same_name [of p] by (auto simp: sample_prober_def split: option.splits if_splits)

lemma float64_exact: "\<bar>x\<bar> < 2 ^ 53 \<Longrightarrow> float64 x = x"
proof -
  assume "\<bar>x\<bar> < 2 ^ 53"
  then have "bitlen \<bar>x\<bar> \<le> 53" by (simp add: bitlen_le_iff_power)
  then show ?thesis by (simp add: float64_def Let_def)
qed

section \<open>The invariant of the counters\<close>

text \<open>What a prober's entry says of the events from its address since some point of the history.\<close>

definition prober_ok :: "(probeEnvelope \<times> gotime) list \<Rightarrow> string \<Rightarrow> proberStat \<Rightarrow> bool" where
  "prober_ok ps ip p \<longleftrightarrow> ip \<noteq> [] \<and> ps_ip p = ip \<and>
     (\<exists>k. let qs = filter (from_host ip) (drop k ps) in
        qs \<noteq> [] \<and> ps_denied p = of_nat (length qs) \<and> ps_lastSeen p = snd (last qs) \<and>
        ps_lastDecision p = pe_Decision (fst (last qs)))"

definition counters_inv :: "(string \<Rightarrow> ext_err + probeEnvelope) \<Rightarrow> journey_event list \<Rightarrow> Journey \<Rightarrow> bool" where
  "counters_inv dec hist j \<longleftrightarrow>
     (let ps = probes dec hist in
      j_totalDenied j = of_nat (length ps) \<and>
      j_tarpit j = of_nat (length (filter (with_decision ''Tarpit'') ps)) \<and>
      j_decoyHits j = of_nat (length (filter (with_decision ''DecoyHit'') ps)) \<and>
      j_threats j = of_nat (length (filter is_threat hist)) \<and>
      j_lastEventAt j = (if ps = [] then zero_time else snd (last ps)) \<and>
      (\<forall>ch. (case j_counts j ch of Some n \<Rightarrow> n | None \<Rightarrow> 0) =
         of_nat (length (filter (on_channel ch) (probes dec (since_tick hist))))) \<and>
      (\<forall>ip p. j_probers j ip = Some p \<longrightarrow> prober_ok ps ip p) \<and>
      (\<forall>ch s. j_series j ch = Some s \<longrightarrow> s \<noteq> [] \<and> length s \<le> 120))"

lemma prober_ok_name [simp]: "prober_ok ps ip (p\<lparr>ps_name := n\<rparr>) = prober_ok ps ip p"
  by (simp add: prober_ok_def)

lemma prober_ok_other:
  assumes "prober_ok ps ip p" and "\<not> from_host ip q"
  shows "prober_ok (ps @ [q]) ip p"
proof -
  obtain k where k: "let qs = filter (from_host ip) (drop k ps) in
        qs \<noteq> [] \<and> ps_denied p = of_nat (length qs) \<and> ps_lastSeen p = snd (last qs) \<and>
        ps_lastDecision p = pe_Decision (fst (last qs))"
    using assms(1) by (auto simp: prober_ok_def)
  then have "k < length ps" by (cases "k < length ps") (auto simp: Let_def)
  then have "filter (from_host ip) (drop k (ps @ [q])) = filter (from_host ip) (drop k ps)" using assms(2) by simp
  then show ?thesis using assms(1) k unfolding prober_ok_def by metis
qed

lemma prober_ok_bump:
  assumes "from_host ip (e, now)" and "ip \<noteq> []"
    and "case old of None \<Rightarrow> True | Some p \<Rightarrow> prober_ok ps ip p"
  shows "prober_ok (ps @ [(e, now)]) ip
    (bump_prober (pe_Decision e) now (case old of None \<Rightarrow> new_prober ip | Some p \<Rightarrow> p))"
proof (cases old)
  case None
  then show ?thesis using assms(1,2)
    by (auto simp: prober_ok_def bump_prober_def new_prober_def Let_def intro!: exI [of _ "length ps"])
next
  case (Some p)
  then obtain k where "ps_ip p = ip" "filter (from_host ip) (drop k ps) \<noteq> []"
    "ps_denied p = of_nat (length (filter (from_host ip) (drop k ps)))"
    using assms(3) by (auto simp: prober_ok_def Let_def)
  moreover from this(2) have "k < length ps" by (cases "k < length ps") auto
  ultimately show ?thesis using Some assms(1,2)
    by (auto simp: prober_ok_def bump_prober_def Let_def intro!: exI [of _ k])
qed

lemma counters_inv_probe:
  assumes "probe_event dec m = Some (e, now)" and "\<not> is_tick m" and "\<not> is_threat m" and "counters_inv dec hist j"
  shows "counters_inv dec (hist @ [m]) (record_probe e now j)"
proof -
  let ?ps = "probes dec hist" and ?ip = "hostOf (pe_Prober e)"
  have "prober_ok (?ps @ [(e, now)]) ip p" if "j_probers (record_probe e now j) ip = Some p" for ip p
  proof (cases "ip = ?ip \<and> ip \<noteq> []")
    case True
    with that have p: "p = bump_prober (pe_Decision e) now (case j_probers j ip of None \<Rightarrow> new_prober ip | Some p \<Rightarrow> p)"
      by (auto simp: upsert_def)
    have old: "case j_probers j ip of None \<Rightarrow> True | Some p \<Rightarrow> prober_ok ?ps ip p"
      using assms(4) by (simp add: counters_inv_def Let_def split: option.split)
    have "from_host ip (e, now)" using True by (simp add: from_host_def)
    from prober_ok_bump [OF this _ old] True show ?thesis unfolding p by blast
  next
    case False
    with that have "j_probers j ip = Some p" by (auto simp: upsert_def split: if_splits)
    then have ok: "prober_ok ?ps ip p" using assms(4) by (simp add: counters_inv_def Let_def)
    then have "ip \<noteq> []" by (simp add: prober_ok_def)
    with False have "\<not> from_host ip (e, now)" by (auto simp: from_host_def)
    with ok show ?thesis by (rule prober_ok_other)
  qed
  moreover have "(case upsert (channelName (pe_ChannelID e)) (\<lambda>n. n + 1) 0 (j_counts j) ch of Some n \<Rightarrow> n | None \<Rightarrow> 0) =
      of_nat (length (filter (on_channel ch) (probes dec (since_tick (hist @ [m])))))" for ch
    using assms by (auto simp: counters_inv_def Let_def upsert_def on_channel_def split: option.split)
  ultimately show ?thesis
    using assms by (auto simp: counters_inv_def Let_def with_decision_def)
qed

lemma counters_inv_quiet:
  assumes "probe_event dec m = None" and "\<not> is_tick m" and "counters_inv dec hist j"
    and "\<And>ip p. j_probers j' ip = Some p \<Longrightarrow> \<exists>q n. j_probers j ip = Some q \<and> p = q\<lparr>ps_name := n\<rparr>"
    and "j_threats j' = j_threats j + (if is_threat m then 1 else 0)"
    and "j_totalDenied j' = j_totalDenied j" "j_tarpit j' = j_tarpit j" "j_decoyHits j' = j_decoyHits j"
      "j_lastEventAt j' = j_lastEventAt j" "j_counts j' = j_counts j" "j_series j' = j_series j"
  shows "counters_inv dec (hist @ [m]) j'"
proof -
  have "prober_ok (probes dec hist) ip p" if p: "j_probers j' ip = Some p" for ip p
  proof -
    obtain q n where "j_probers j ip = Some q" "p = q\<lparr>ps_name := n\<rparr>" using assms(4) [OF p] by blast
    then show ?thesis using assms(3) by (auto simp: counters_inv_def Let_def)
  qed
  then show ?thesis using assms by (auto simp: counters_inv_def Let_def)
qed

lemma counters_inv_tick:
  assumes "counters_inv dec hist j"
  shows "counters_inv dec (hist @ [JTick now]) (sample_tick now j)"
proof -
  have "prober_ok (probes dec hist) ip p" if p: "j_probers (sample_tick now j) ip = Some p" for ip p
  proof -
    obtain q where q: "j_probers j ip = Some q" "sample_prober now (j_idx j) ip q = Some p"
      using p by (auto split: option.splits)
    moreover obtain n where "p = q\<lparr>ps_name := n\<rparr>" using sample_prober_Some [OF q(2)] by blast
    ultimately show ?thesis using assms by (auto simp: counters_inv_def Let_def)
  qed
  moreover have "s \<noteq> [] \<and> length s \<le> 120" if "j_series (sample_tick now j) ch = Some s" for ch s
    using that by (auto simp: appended_series_def split: if_splits)
  ultimately show ?thesis using assms by (simp add: counters_inv_def Let_def del: sample_tick_fields(2,9))
qed

lemma counters_inv_step:
  assumes "journey_step dec j e j'" and "counters_inv dec hist j"
  shows "counters_inv dec (hist @ [e]) j'"
proof (cases e)
  case (JMsg subject msg now)
  then have j': "j' = onMessage dec subject msg now j" using assms(1) by simp
  show ?thesis
  proof (cases "probe_of dec subject msg")
    case None
    then have "j' = (if is_threat e then j\<lparr>j_threats := j_threats j + 1\<rparr> else j)"
      using JMsg by (simp add: j' onMessage_def)
    then show ?thesis using assms(2) JMsg None
      by (intro counters_inv_quiet [of dec e hist j]) (auto simp: same_name split: if_splits)
  next
    case (Some p)
    then have "subject \<noteq> threatsSubject" by (auto simp: probe_of_def)
    then show ?thesis using counters_inv_probe [of dec e p now hist j] assms(2) JMsg Some by (simp add: j' onMessage_def)
  qed
next
  case (JIndex kc now)
  then show ?thesis using assms by (intro counters_inv_quiet [of dec e hist j]) auto
next
  case (JTick now)
  then show ?thesis using assms counters_inv_tick by simp
qed

lemma counters_inv_run:
  "journey_run dec j es j' \<Longrightarrow> counters_inv dec hist j \<Longrightarrow> counters_inv dec (hist @ es) j'"
proof (induction arbitrary: hist rule: journey_run.induct)
  case (run_more j e j1 es j2)
  then have "counters_inv dec (hist @ [e]) j1" by (blast intro: counters_inv_step)
  from run_more.IH [OF this] show ?case by simp
qed simp

lemma journey_run_append:
  "journey_run dec j (es @ fs) j' \<longleftrightarrow> (\<exists>k. journey_run dec j es k \<and> journey_run dec k fs j')"
  by (induction es arbitrary: j) auto

section \<open>The invariant of the channels\<close>

lemma Sub_mono: "t_ns S \<le> t_ns T \<Longrightarrow> Sub S u \<le> Sub T u"
  by (simp add: Sub_def)

lemma Sub_antimono: "t_ns u \<le> t_ns v \<Longrightarrow> Sub T v \<le> Sub T u"
  by (simp add: Sub_def)

lemma probe_event_ns: "probe_event dec e = Some p \<Longrightarrow> t_ns (snd p) = event_ns e"
  by (cases e) auto

lemma set_probes: "set (probes dec es) = {p. \<exists>e \<in> set es. probe_event dec e = Some p}"
  by (simp add: probes_def set_map_filter_eq)

lemma sorted_probes:
  "sorted (map event_ns es) \<Longrightarrow> sorted (map (\<lambda>p. t_ns (snd p)) (probes dec es))"
proof (induction es)
  case (Cons e es)
  have "event_ns e \<le> t_ns (snd q)" if q: "q \<in> set (probes dec es)" for q
  proof -
    obtain ev where "ev \<in> set es" "probe_event dec ev = Some q" using q by (auto simp: set_probes)
    then show ?thesis using Cons.prems by (simp add: probe_event_ns)
  qed
  moreover have "probes dec (e # es) = probes dec [e] @ probes dec es"
    by (simp add: probes_def map_filter_simps split: option.split)
  ultimately show ?case using Cons by (auto split: option.split dest: probe_event_ns)
qed simp

text \<open>
  A channel's last event is remembered, or it was forgotten at a tick at which all its events were
  out of the window.
\<close>

definition channel_ok :: "(probeEnvelope \<times> gotime) list \<Rightarrow> journey_event list \<Rightarrow> gotime option \<Rightarrow> bool" where
  "channel_ok evs hist seen \<longleftrightarrow>
     (case seen of
        Some t \<Rightarrow> evs \<noteq> [] \<and> t = snd (last evs)
      | None \<Rightarrow> evs = [] \<or> (\<exists>T. JTick T \<in> set hist \<and> (\<forall>p \<in> set evs. Sub T (snd p) > journeyChannelIdle)))"

definition channels_inv :: "(string \<Rightarrow> ext_err + probeEnvelope) \<Rightarrow> journey_event list \<Rightarrow> Journey \<Rightarrow> bool" where
  "channels_inv dec hist j \<longleftrightarrow>
     (\<forall>ch. channel_ok (filter (on_channel ch) (probes dec hist)) hist (j_lastSeen j ch))"

lemma channel_ok_more: "channel_ok evs hist seen \<Longrightarrow> channel_ok evs (hist @ [e]) seen"
  by (auto simp: channel_ok_def split: option.splits)

lemma last_is_latest:
  assumes "sorted (map f xs)" and "x \<in> set xs"
  shows "f x \<le> f (last xs)"
proof -
  have "xs = butlast xs @ [last xs]" using assms(2) by (cases xs) auto
  then have "sorted (map f (butlast xs @ [last xs]))" "x \<in> set (butlast xs @ [last xs])" using assms by metis+
  then show ?thesis by (auto simp: sorted_append)
qed

lemma channels_inv_step:
  assumes "journey_step dec j e j'" and "sorted (map event_ns (hist @ [e]))" and "channels_inv dec hist j"
  shows "channels_inv dec (hist @ [e]) j'"
proof (cases e)
  case (JMsg subject msg now)
  then have j': "j' = onMessage dec subject msg now j" using assms(1) by simp
  show ?thesis
  proof (cases "probe_of dec subject msg")
    case None
    then have "j_lastSeen j' = j_lastSeen j" by (simp add: j' onMessage_def)
    then show ?thesis using assms(3) JMsg None by (simp add: channels_inv_def channel_ok_more)
  next
    case (Some p)
    then have "subject \<noteq> threatsSubject" by (auto simp: probe_of_def)
    then have "j_lastSeen j' = (j_lastSeen j)(channelName (pe_ChannelID p) \<mapsto> now)"
      using Some by (simp add: j' onMessage_def)
    then show ?thesis using assms(3) JMsg Some
      by (auto simp: channels_inv_def on_channel_def channel_ok_more) (simp add: channel_ok_def)
  qed
next
  case (JIndex kc now)
  then have "j_lastSeen j' = j_lastSeen j" using assms(1) by simp
  then show ?thesis using assms(3) JIndex by (simp add: channels_inv_def channel_ok_more)
next
  case (JTick now)
  have "channel_ok (filter (on_channel ch) (probes dec hist)) (hist @ [e]) (j_lastSeen j' ch)" for ch
  proof (cases "j_lastSeen j' ch = j_lastSeen j ch")
    case True
    then show ?thesis using assms(3) by (simp add: channels_inv_def channel_ok_more)
  next
    case False
    let ?evs = "filter (on_channel ch) (probes dec hist)"
    obtain t where t: "j_lastSeen j ch = Some t" "j_lastSeen j' ch = None" "Sub now t > journeyChannelIdle"
      using False assms(1) JTick by (auto simp: drop_idle_def channel_active_def split: if_splits option.splits)
    then have evs: "?evs \<noteq> []" "t = snd (last ?evs)"
      using assms(3) by (auto simp: channels_inv_def channel_ok_def dest: spec [of _ ch])
    have "sorted (map event_ns hist)" using assms(2) by (simp add: sorted_append)
    then have "sorted (map (\<lambda>p. t_ns (snd p)) ?evs)" by (intro sorted_filter sorted_probes)
    then have "\<forall>p \<in> set ?evs. t_ns (snd p) \<le> t_ns t" unfolding evs(2) by (blast dest: last_is_latest)
    then have "\<forall>p \<in> set ?evs. Sub now (snd p) > journeyChannelIdle"
      using t(3) by (meson Sub_antimono less_le_trans)
    then show ?thesis using t(2) JTick by (auto simp: channel_ok_def)
  qed
  then show ?thesis using JTick by (simp add: channels_inv_def)
qed

lemma channels_inv_run:
  "journey_run dec j es j' \<Longrightarrow> sorted (map event_ns (hist @ es)) \<Longrightarrow> channels_inv dec hist j \<Longrightarrow>
    channels_inv dec (hist @ es) j'"
proof (induction arbitrary: hist rule: journey_run.induct)
  case (run_more j e j1 es j2)
  have "sorted (map event_ns (hist @ [e]))" using run_more.prems(1) by (simp add: sorted_append)
  from channels_inv_step [OF run_more.hyps(1) this run_more.prems(2)] run_more.prems(1) run_more.IH [of "hist @ [e]"]
  show ?case by simp
qed simp

text \<open>At a tick the active channels are those with an event in the window.\<close>

lemma channel_active_iff:
  assumes "channels_inv dec hist j" and "sorted (map event_ns (hist @ [JTick now]))"
  shows "channel_active now j ch \<longleftrightarrow>
    (\<exists>p \<in> set (probes dec hist). on_channel ch p \<and> Sub now (snd p) \<le> journeyChannelIdle)"
proof (cases "j_lastSeen j ch")
  case None
  let ?evs = "filter (on_channel ch) (probes dec hist)"
  have "channel_ok ?evs hist None" using assms(1) None by (metis channels_inv_def)
  then consider "?evs = []" | T where "JTick T \<in> set hist" "\<forall>p \<in> set ?evs. Sub T (snd p) > journeyChannelIdle"
    by (auto simp: channel_ok_def)
  then have "\<forall>p \<in> set ?evs. Sub now (snd p) > journeyChannelIdle"
  proof cases
    case (2 T)
    then have "t_ns T \<le> t_ns now" using assms(2) by (fastforce simp: sorted_append)
    with 2 show ?thesis by (meson Sub_mono less_le_trans)
  qed simp
  then show ?thesis using None by (force simp: channel_active_def)
next
  case (Some t)
  let ?evs = "filter (on_channel ch) (probes dec hist)"
  have evs: "?evs \<noteq> []" "t = snd (last ?evs)"
    using assms(1) Some by (auto simp: channels_inv_def channel_ok_def dest: spec [of _ ch])
  have "sorted (map event_ns hist)" using assms(2) by (simp add: sorted_append)
  then have "sorted (map (\<lambda>p. t_ns (snd p)) ?evs)" by (intro sorted_filter sorted_probes)
  then have "\<forall>p \<in> set ?evs. Sub now t \<le> Sub now (snd p)"
    unfolding evs(2) by (blast dest: last_is_latest intro: Sub_antimono)
  moreover have "last ?evs \<in> set ?evs" using evs(1) by (rule last_in_set)
  ultimately show ?thesis using Some evs(2) by (fastforce simp: channel_active_def)
qed

section \<open>Lemmas: starting and texts\<close>

lemma Start_Journey_ok:
  assumes "Start_Journey cfg connect subscribe NewJourney = (None, j, ops)"
  shows "j = NewJourney\<lparr>j_connected := True, j_subs := [probesSubject, threatsSubject], j_sampling := True\<rparr> \<and> ops = []"
  using assms by (auto simp: Start_Journey_def NewJourney_def split: option.splits if_splits)

lemma started_inv:
  assumes "Start_Journey cfg connect subscribe NewJourney = (None, j, ops)"
  shows "counters_inv dec [] j" "channels_inv dec [] j"
  using Start_Journey_ok [OF assms]
  by (simp_all add: counters_inv_def channels_inv_def channel_ok_def NewJourney_def)

lemma journey_step_frame:
  "journey_step dec j e j' \<Longrightarrow>
    j_connected j' = j_connected j \<and> j_subs j' = j_subs j \<and> j_sampling j' = j_sampling j \<and> j_stopped j' = j_stopped j"
  by (cases e)
     (auto simp: onMessage_def record_probe_def Let_def install_index_def sample_tick_def sample_probers_def
       sample_channels_def split: option.splits)

lemma journey_run_frame:
  "journey_run dec j es j' \<Longrightarrow>
    j_connected j' = j_connected j \<and> j_subs j' = j_subs j \<and> j_sampling j' = j_sampling j \<and> j_stopped j' = j_stopped j"
  by (induction rule: journey_run.induct) (simp_all add: journey_step_frame)

text \<open>\<open>TrimSpace\<close> cuts at both ends.\<close>

lemma TrimSpace_part: "\<exists>a b. s = a @ TrimSpace s @ b"
proof -
  let ?P = "\<lambda>(r, bs). is_space r"
  let ?mid = "dropWhile ?P (runes s)"
  have "xs = rev (dropWhile ?P (rev xs)) @ rev (takeWhile ?P (rev xs))" for xs
    by (metis rev_append rev_rev_ident takeWhile_dropWhile_id)
  then have "runes s = takeWhile ?P (runes s) @ rev (dropWhile ?P (rev ?mid)) @ rev (takeWhile ?P (rev ?mid))"
    by (metis takeWhile_dropWhile_id)
  then have "concat (map snd (runes s)) = concat (map snd (takeWhile ?P (runes s))) @
      TrimSpace s @ concat (map snd (rev (takeWhile ?P (rev ?mid))))"
    unfolding TrimSpace_def by (metis concat_append map_append)
  then show ?thesis unfolding concat_runes by blast
qed

lemma TrimSpace_le: "length (TrimSpace s) \<le> length s" "set (TrimSpace s) \<subseteq> set s"
proof -
  obtain a b where s: "s = a @ TrimSpace s @ b" using TrimSpace_part by blast
  have "length s = length (a @ TrimSpace s @ b)" by (rule arg_cong [OF s])
  then show "length (TrimSpace s) \<le> length s" by simp
  have "set s = set (a @ TrimSpace s @ b)" by (rule arg_cong [OF s])
  then show "set (TrimSpace s) \<subseteq> set s" unfolding set_append by blast
qed

lemma byte_hex2: "c \<in> set (hex2 d) \<Longrightarrow> 0x30 \<le> byte c \<and> byte c \<le> 0x66"
proof -
  have "0x30 \<le> byte (hex_digit n) \<and> byte (hex_digit n) \<le> 0x66" if "n < 16" for n
    using that by (simp add: hex_digit_def)
  moreover have "byte d < 256" by (metis mod_less_divisor of_char_mod_256 zero_less_numeral)
  then have "byte d div 16 < 16" "byte d mod 16 < 16" by (simp_all add: less_mult_imp_div_less)
  ultimately show "c \<in> set (hex2 d) \<Longrightarrow> 0x30 \<le> byte c \<and> byte c \<le> 0x66" by (auto simp: hex2_def)
qed

lemma hex_preview:
  "length (concat (map (\<lambda>c. hex2 c @ '' '') (take 8 s))) \<le> 24"
  "\<forall>c \<in> set (concat (map (\<lambda>c. hex2 c @ '' '') (take 8 s))). 0x20 \<le> byte c \<and> byte c \<le> 0x7e"
proof -
  have "length (concat (map (\<lambda>c. hex2 c @ '' '') xs)) = 3 * length xs" for xs
    by (induction xs) (simp_all add: hex2_def)
  then show "length (concat (map (\<lambda>c. hex2 c @ '' '') (take 8 s))) \<le> 24" by simp
  show "\<forall>c \<in> set (concat (map (\<lambda>c. hex2 c @ '' '') (take 8 s))). 0x20 \<le> byte c \<and> byte c \<le> 0x7e"
    by (auto dest!: byte_hex2)
qed

lemma sanitizeSub_printable:
  "sanitizeSub s = (if \<forall>c \<in> set s. 0x20 \<le> byte c \<and> byte c \<le> 0x7e then take 40 s
     else TrimSpace (concat (map (\<lambda>c. hex2 c @ '' '') (take 8 s))))"
proof -
  have "list_all (\<lambda>(r, _). \<not> (r < 0x20 \<or> r > 0x7e)) (runes s) \<longleftrightarrow> (\<forall>c \<in> set s. 0x20 \<le> byte c \<and> byte c \<le> 0x7e)"
    using runes_printable [of s] by (simp add: list_all_iff)
  then show ?thesis by (simp add: sanitizeSub_def Let_def)
qed

lemma tick_total_frame: "j_series j = j_series j' \<Longrightarrow> tick_total j chs t = tick_total j' chs t"
  by (induction chs arbitrary: t) simp_all

text \<open>
  A started producer closes once: both subscriptions go and the connection drains, and closing again
  does nothing. One whose start failed has released what it had taken.
\<close>

lemma Journey_closes:
  assumes "Start_Journey cfg connect subscribe NewJourney = (None, j0, ops)" and "journey_run dec j0 es j"
  shows "\<exists>j'. Close_Journey j = Closed j' [Unsubscribe probesSubject, Unsubscribe threatsSubject, Drain] \<and>
    Close_Journey j' = Closed j' []"
  using Start_Journey_ok [OF assms(1)] journey_run_frame [OF assms(2)]
  by (simp add: Close_Journey_def closeNATS_def NewJourney_def)

lemma Start_Journey_failed:
  assumes "Start_Journey cfg connect subscribe NewJourney = (Some e, j, ops)"
  shows "Close_Journey j = Closed j [] \<and> ops \<in> {[], [Drain], [Unsubscribe probesSubject, Drain]}"
  using assms
  by (auto simp: Start_Journey_def Close_Journey_def closeNATS_def NewJourney_def split: option.splits if_splits)

text \<open>The mode follows from the denial events there were.\<close>

lemma journey_mode_denial:
  assumes "Start_Journey cfg connect subscribe NewJourney = (None, j0, ops)" and "journey_run dec j0 es j"
    and "sorted (map event_ns es)" and "\<forall>e \<in> set es. 0 < event_ns e"
  shows "journey_mode now j = (if \<exists>p \<in> set (probes dec es). Sub now (snd p) \<le> 10 * Second then ''denial'' else ''idle'')"
proof -
  have "counters_inv dec es j" using counters_inv_run [OF assms(2) started_inv(1) [OF assms(1)]] by simp
  then have at: "j_lastEventAt j = (if probes dec es = [] then zero_time else snd (last (probes dec es)))"
    by (simp add: counters_inv_def Let_def)
  have late: "\<forall>p \<in> set (probes dec es). Sub now (snd (last (probes dec es))) \<le> Sub now (snd p)"
    using last_is_latest [OF sorted_probes [OF assms(3)]] by (blast intro: Sub_antimono)
  have pos: "0 < t_ns (snd p)" if p: "p \<in> set (probes dec es)" for p
  proof -
    obtain ev where "ev \<in> set es" "probe_event dec ev = Some p" using p by (auto simp: set_probes)
    then show ?thesis using assms(4) by (simp add: probe_event_ns)
  qed
  have "(\<exists>p \<in> set (probes dec es). Sub now (snd p) \<le> 10 * Second) \<longleftrightarrow>
      \<not> IsZero (j_lastEventAt j) \<and> Sub now (j_lastEventAt j) \<le> 10 * Second"
  proof (cases "probes dec es = []")
    case False
    then have l: "last (probes dec es) \<in> set (probes dec es)" by (rule last_in_set)
    then show ?thesis using False late pos [OF l] by (fastforce simp: at IsZero_def)
  qed (simp add: at)
  then show ?thesis by (simp add: journey_mode_def journeyActiveWindow_def)
qed

section \<open>Properties\<close>

text \<open>
  C16. The counters count: after any history of messages, index refreshes and ticks, in any interleaving,
  the totals are the numbers of the denial events, of the tarpitted ones, of the decoy hits and of the
  threats among the messages; and a listed prober has the number, the time and the decision of the
  events from its address since some point of the history, the last one included.
\<close>

theorem Journey_counters:
  assumes "Start_Journey cfg connect subscribe NewJourney = (None, j0, ops)" and "journey_run dec j0 es j"
    and "ps = probes dec es"
  shows "j_totalDenied j = of_nat (length ps) \<and>
    j_tarpit j = of_nat (length (filter (\<lambda>(e, _). pe_Decision e = ''Tarpit'') ps)) \<and>
    j_decoyHits j = of_nat (length (filter (\<lambda>(e, _). pe_Decision e = ''DecoyHit'') ps)) \<and>
    j_threats j = of_nat (length (filter is_threat es)) \<and>
    (\<forall>ip p. j_probers j ip = Some p \<longrightarrow> ps_ip p = ip \<and>
       (\<exists>k. let qs = filter (\<lambda>(e, _). hostOf (pe_Prober e) = ip) (drop k ps) in
          qs \<noteq> [] \<and> ps_denied p = of_nat (length qs) \<and> ps_lastSeen p = snd (last qs) \<and>
          ps_lastDecision p = pe_Decision (fst (last qs))))"
proof -
  have "counters_inv dec es j" using counters_inv_run [OF assms(2) started_inv(1) [OF assms(1)]] by simp
  moreover have "from_host ip = (\<lambda>(e, _). hostOf (pe_Prober e) = ip)"
    "with_decision d = (\<lambda>(e, _). pe_Decision e = d)" for ip d
    by (auto simp: from_host_def with_decision_def)
  ultimately show ?thesis unfolding assms(3) by (simp add: counters_inv_def prober_ok_def Let_def)
qed

text \<open>
  C17. The chart is exact: after a tick, on a clock that does not run backwards, the channels with a
  series are those with a denial event in the last 20 seconds, a series holds at most 120 samples, and
  its last sample is the number of the channel's events since the tick before.
\<close>

theorem Journey_chart:
  assumes "Start_Journey cfg connect subscribe NewJourney = (None, j0, ops)"
    and "journey_run dec j0 (es @ [JTick t]) j" and "sorted (map event_ns (es @ [JTick t]))"
    and "length es < 2 ^ 53"
  shows "(j_series j ch \<noteq> None \<longleftrightarrow>
      (\<exists>p \<in> set (probes dec es). on_channel ch p \<and> Sub t (snd p) \<le> 20 * Second)) \<and>
    (\<forall>s. j_series j ch = Some s \<longrightarrow> s \<noteq> [] \<and> length s \<le> 120 \<and>
       last s = int (length (filter (on_channel ch) (probes dec (since_tick es)))))"
proof -
  obtain k where k: "journey_run dec j0 es k" "j = sample_tick t k"
    using assms(2) by (auto simp: journey_run_append)
  have "counters_inv dec es k" using counters_inv_run [OF k(1) started_inv(1) [OF assms(1)]] by simp
  then have n: "(case j_counts k ch of Some n \<Rightarrow> n | None \<Rightarrow> 0) =
      of_nat (length (filter (on_channel ch) (probes dec (since_tick es))))" (is "_ = of_nat ?n")
    by (simp add: counters_inv_def Let_def)
  have "?n \<le> length es"
    using length_filter_le length_probes_le length_since_tick by (meson le_trans)
  then have "float64 (sint (of_nat ?n :: i64)) = int ?n"
    using assms(4) by (simp add: sint_of_nat_small float64_exact)
  moreover have "channels_inv dec es k"
    using channels_inv_run [OF k(1) _ started_inv(2) [OF assms(1)]] assms(3) by (simp add: sorted_append)
  ultimately show ?thesis
    using channel_active_iff [of dec es k t ch] assms(3) n
    by (simp add: k(2) appended_series_def journeyChannelIdle_def)
qed

text \<open>
  C32. A poll reports what is so: the mode is \<open>denial\<close> exactly when a denial event is at most 10 seconds
  old; it lists probers of the state, at most eight, in descending order of their denials, and a prober
  that is left out has no more denials than any that is listed, whatever the order of the map.
\<close>

theorem snapshot_spec:
  assumes "slice_sort srt"
    and "Start_Journey cfg connect subscribe NewJourney = (None, j0, ops)" and "journey_run dec j0 es j"
    and "sorted (map event_ns es)" and "\<forall>e \<in> set es. 0 < event_ns e"
    and "distinct ips" and "set ips = dom (j_probers j)"
    and "sn = snapshot srt chs ips cfg now j"
  shows "sn_mode sn = (if \<exists>p \<in> set (probes dec es). Sub now (snd p) \<le> 10 * Second then ''denial'' else ''idle'') \<and>
    length (sn_probers sn) = min 8 (card (dom (j_probers j))) \<and>
    sorted_wrt (\<lambda>a b. sint (pr_denied a) \<ge> sint (pr_denied b)) (sn_probers sn) \<and>
    (\<forall>r \<in> set (sn_probers sn). \<exists>ip p. j_probers j ip = Some p \<and> r = prober_row p) \<and>
    (\<forall>ip p. j_probers j ip = Some p \<longrightarrow> prober_row p \<in> set (sn_probers sn) \<or>
       (\<forall>r \<in> set (sn_probers sn). sint (ps_denied p) \<le> sint (pr_denied r)))"
proof -
  let ?rows = "map prober_row (List.map_filter (j_probers j) ips)"
  let ?ranked = "srt (\<lambda>a b. sint (pr_denied a) > sint (pr_denied b)) ?rows"
  have top: "sn_probers sn = take 8 ?ranked" by (simp add: assms(8) snapshot_def Let_def journeyTopProbers_def)
  have "length ips = card (dom (j_probers j))" using assms(6,7) by (metis distinct_card)
  moreover have "length (List.map_filter (j_probers j) ips) = length ips"
    using assms(7) by (simp add: List.map_filter_def filter_id_conv domIff set_eq_iff) 
  ultimately have len: "length (sn_probers sn) = min 8 (card (dom (j_probers j)))"
    by (simp add: top slice_sort.length_srt [OF assms(1)])
  have ord: "sorted_wrt (\<lambda>a b. sint (pr_denied a) \<ge> sint (pr_denied b)) (sn_probers sn)"
    using slice_sort.sorted_srt_key_desc [OF assms(1), of "\<lambda>r. sint (pr_denied r)"] by (simp add: top sorted_wrt_take)
  have shown: "\<forall>r \<in> set (sn_probers sn). \<exists>ip p. j_probers j ip = Some p \<and> r = prober_row p"
  proof
    fix r assume "r \<in> set (sn_probers sn)"
    then have "r \<in> set ?ranked" unfolding top by (rule in_set_takeD)
    then show "\<exists>ip p. j_probers j ip = Some p \<and> r = prober_row p"
      by (auto simp: slice_sort.set_srt [OF assms(1)] set_map_filter_eq)
  qed
  have below: "prober_row p \<in> set (sn_probers sn) \<or> (\<forall>r \<in> set (sn_probers sn). sint (ps_denied p) \<le> sint (pr_denied r))"
    if p: "j_probers j ip = Some p" for ip p
  proof -
    have "prober_row p \<in> set ?rows" using p assms(7) by (auto simp: set_map_filter_eq domI)
    from slice_sort.in_top_or_below [OF assms(1) this, of 8 "\<lambda>r. sint (pr_denied r)"]
    show ?thesis unfolding top by (simp add: prober_row_def)
  qed
  have "sn_mode sn = journey_mode now j" by (simp add: assms(8) snapshot_def Let_def)
  note mode = this [unfolded journey_mode_denial [OF assms(2-5)]]
  with len ord shown below show ?thesis by blast
qed

text \<open>
  What is shown of a payload is at most 40 bytes of printable ASCII, whatever the bytes of the
  payload, and showing it again changes nothing.
\<close>

theorem sanitizeSub_shows:
  "length (sanitizeSub s) \<le> 40 \<and> list_all (\<lambda>c. 0x20 \<le> byte c \<and> byte c \<le> 0x7e) (sanitizeSub s) \<and>
   sanitizeSub (sanitizeSub s) = sanitizeSub s"
proof -
  have *: "length (sanitizeSub s) \<le> 40 \<and> (\<forall>c \<in> set (sanitizeSub s). 0x20 \<le> byte c \<and> byte c \<le> 0x7e)"
  proof (cases "\<forall>c \<in> set s. 0x20 \<le> byte c \<and> byte c \<le> 0x7e")
    case True
    then show ?thesis by (auto simp: sanitizeSub_printable dest: in_set_takeD)
  next
    case False
    let ?h = "concat (map (\<lambda>c. hex2 c @ '' '') (take 8 s))"
    have "sanitizeSub s = TrimSpace ?h" using False sanitizeSub_printable by (metis (no_types, lifting))
    then show ?thesis using TrimSpace_le [of ?h] hex_preview [of s] by (auto simp del: set_concat)
  qed
  then have "sanitizeSub (sanitizeSub s) = take 40 (sanitizeSub s)" by (subst sanitizeSub_printable) simp
  with * show ?thesis by (simp add: list_all_iff)
qed

section \<open>Witnesses\<close>

text \<open>A bus on which a message is a prober's address and every probe is tarpitted.\<close>

definition ex_probe :: "string \<Rightarrow> probeEnvelope" where
  "ex_probe m = \<lparr>pe_Cluster = [], pe_SiteID = [], pe_ChannelID = 7, pe_Decision = ''Tarpit'', pe_Prober = m,
     pe_Responder = [], pe_Substitute = []\<rparr>"

definition ex_decode :: "string \<Rightarrow> ext_err + probeEnvelope" where
  "ex_decode m = (if m = ''?'' then Inl (ex_err False) else Inr (ex_probe m))"

definition at_second :: "int \<Rightarrow> gotime" where
  "at_second n = \<lparr>t_ns = n * Second, t_off = 0\<rparr>"

definition ex_started :: Journey where
  "ex_started = NewJourney\<lparr>j_connected := True, j_subs := [probesSubject, threatsSubject], j_sampling := True\<rparr>"

definition ex_history :: "journey_event list" where
  "ex_history =
     [JMsg probesSubject ''10.0.0.7:55'' (at_second 60), JMsg threatsSubject ''t'' (at_second 61),
      JMsg probesSubject ''?'' (at_second 62), JMsg probesSubject ''10.0.0.7:56'' (at_second 63)]"

definition ex_after :: Journey where
  "ex_after = foldl (\<lambda>j e. case e of JMsg subject m now \<Rightarrow> onMessage ex_decode subject m now j | _ \<Rightarrow> j) ex_started ex_history"

lemma ex_start: "Start_Journey (ex_config\<lparr>DefenseNATSURL := ''nats://d''\<rparr>) None (\<lambda>_. None) NewJourney = (None, ex_started, [])"
  by (simp add: Start_Journey_def ex_started_def NewJourney_def)

lemma ex_run: "journey_run ex_decode ex_started ex_history ex_after"
  by (simp add: ex_after_def ex_history_def)

lemma ex_probes:
  "probes ex_decode ex_history = [(ex_probe ''10.0.0.7:55'', at_second 60), (ex_probe ''10.0.0.7:56'', at_second 63)]"
  by (simp add: probes_def map_filter_simps ex_history_def probe_of_def ex_decode_def ex_probe_def probesSubject_def
      threatsSubject_def)

lemma ex_host: "hostOf ''10.0.0.7:55'' = ''10.0.0.7''" "hostOf ''10.0.0.7:56'' = ''10.0.0.7''"
  by (simp_all add: hostOf_def)

lemma ex_sorted: "sorted (map event_ns ex_history)" "\<forall>e \<in> set ex_history. 0 < event_ns e"
  by (simp_all add: ex_history_def at_second_def Second_def)

lemma ex_channel: "on_channel ''ICMP'' (ex_probe m, t)"
  by (simp add: on_channel_def channelName_def ex_probe_def channelNames_def)

lemma Journey_counters_witness:
  "j_totalDenied ex_after = 2 \<and> j_tarpit ex_after = 2 \<and> j_decoyHits ex_after = 0 \<and> j_threats ex_after = 1"
  using Journey_counters [OF ex_start ex_run ex_probes [symmetric]]
  by (simp add: ex_probe_def) (simp add: ex_history_def probesSubject_def threatsSubject_def)

lemma Journey_chart_witness:
  "\<exists>s. j_series (sample_tick (at_second 64) ex_after) ''ICMP'' = Some s \<and> last s = 2"
proof -
  have run: "journey_run ex_decode ex_started (ex_history @ [JTick (at_second 64)]) (sample_tick (at_second 64) ex_after)"
    using ex_run by (auto simp: journey_run_append)
  have sorted: "sorted (map event_ns (ex_history @ [JTick (at_second 64)]))" and len: "length ex_history < 2 ^ 53"
    by (simp_all add: ex_history_def at_second_def Second_def)
  have "since_tick ex_history = ex_history" by (simp add: ex_history_def since_tick_def)
  moreover have "\<exists>p \<in> set (probes ex_decode ex_history). on_channel ''ICMP'' p \<and> Sub (at_second 64) (snd p) \<le> 20 * Second"
    by (simp add: ex_probes ex_channel at_second_def Sub_def Second_def)
  ultimately have "j_series (sample_tick (at_second 64) ex_after) ''ICMP'' \<noteq> None \<and>
      (\<forall>s. j_series (sample_tick (at_second 64) ex_after) ''ICMP'' = Some s \<longrightarrow> last s = 2)"
    using Journey_chart [OF ex_start run sorted len, of "''ICMP''"] by (simp add: ex_probes ex_channel del: sample_tick_fields)
  then show ?thesis by blast
qed

lemma snapshot_spec_witness:
  "let sn = snapshot sort_by [] [''10.0.0.7''] (ex_config\<lparr>DefenseNATSURL := ''nats://d''\<rparr>) (at_second 70) ex_after
   in sn_mode sn = ''denial'' \<and> length (sn_probers sn) = 1"
proof -
  have "dom (j_probers ex_after) = {''10.0.0.7''}"
    by (simp add: ex_after_def ex_history_def onMessage_def probe_of_def ex_decode_def ex_probe_def probesSubject_def
        threatsSubject_def ex_host ex_started_def NewJourney_def)
  then show ?thesis
    using snapshot_spec [OF isort.slice_sort_axioms ex_start ex_run ex_sorted, where ips = "[''10.0.0.7'']" and chs = "[]"
        and now = "at_second 70"]
    by (simp add: ex_probes at_second_def Sub_def Second_def Let_def)
qed

end
