(* ===== verification/MainServer.thy ===== *)
theory MainServer
  imports Config Tools Journey
begin

text \<open>
  \<open>cmd/eob-mcp/main.go\<close>: the backends that are wired at startup, the tools that are registered for
  them, the TLS configuration, the HTTP routes with the limits in front of them, and the order in
  which \<open>run\<close> builds and releases all this. Library calls (client construction, NATS, file and
  certificate loading, listening) are arguments; logging is left out.
\<close>

section \<open>Constants, flags and errors\<close>

definition readHeaderTimeout :: int where "readHeaderTimeout = 5 * Second"
definition writeTimeout :: int where "writeTimeout = 30 * Second"
definition idleTimeout :: int where "idleTimeout = 120 * Second"
definition maxRequestBodyBytes :: nat where "maxRequestBodyBytes = 2 ^ 20"
definition defaultHTTPListenAddr :: string where "defaultHTTPListenAddr = '':8443''"
definition defaultGRPCListenAddr :: string where "defaultGRPCListenAddr = '':9443''"

record tlsOpts =
  to_certPath :: string
  to_keyPath :: string
  to_clientCAPath :: string

datatype main_error =
    DynamicClientFailed k8s_error
  | RegisterFailed register_error
  | ClientCANeedsPair
  | CertAndKeyTogether
  | LoadKeypair ext_err
  | ReadClientCA ext_err
  | NoUsableCerts string
  | GrpcListen string ext_err
  | ListenerFailed string ext_err

section \<open>Backends\<close>

record serviceBackends =
  sb_haveDyn :: bool
  sb_haveStreams :: bool

text \<open>The library calls behind the dynamic client and the streams reader.\<close>

record ('cfg, 'd, 'disc, 'res, 'c, 'nc, 'st, 'con) backend_libs =
  lb_newDyn :: "'cfg \<Rightarrow> ext_err + 'd"
  lb_newDisc :: "'cfg \<Rightarrow> ext_err + 'disc"
  lb_groups :: "'disc \<Rightarrow> ext_err + 'res"
  lb_mkDyn :: "'d \<Rightarrow> 'res \<Rightarrow> 'c dyn_client"
  lb_connect :: "string \<Rightarrow> ext_err + 'nc"
  lb_jsNew :: "'nc \<Rightarrow> ext_err + ('st, 'con) jetstream"

text \<open>The NATS URL: the environment's, else the discovered one; a failed discovery leaves it empty.\<close>

definition nats_url :: "config \<Rightarrow> (kube_client \<times> 'cfg) option \<Rightarrow> string" where
  "nats_url cfg kube =
     (case kube of
        None \<Rightarrow> NATSURL cfg
      | Some (kc, _) \<Rightarrow>
          if NATSURL cfg \<noteq> [] then NATSURL cfg
          else (case DiscoverStreamStoreURL kc (TawonNamespace cfg) of Inl e \<Rightarrow> [] | Inr url \<Rightarrow> url))"

text \<open>
  The result carries the service and its world, the live backends and the reader that the returned
  closer closes (none: the closer does nothing).
\<close>

definition buildService ::
  "('cfg, 'd, 'disc, 'res, 'c, 'nc, 'st, 'con) backend_libs \<Rightarrow> config \<Rightarrow> (kube_client \<times> 'cfg) option \<Rightarrow> 'c \<Rightarrow> gotime \<Rightarrow>
     main_error + (('c Service \<times> 'c world) \<times> serviceBackends \<times> ('nc, 'st, 'con) JSReader option)" where
  "buildService lb cfg kube cluster now =
     (case (case kube of
              None \<Rightarrow> Inr None
            | Some (kc, rest) \<Rightarrow>
                (case NewDynClient (lb_newDyn lb) (lb_newDisc lb) (lb_groups lb) (lb_mkDyn lb) (Some (kc, Some rest)) of
                   Inl e \<Rightarrow> Inl (DynamicClientFailed e)
                 | Inr d \<Rightarrow> Inr (Some d))) of
        Inl e \<Rightarrow> Inl e
      | Inr dyn \<Rightarrow>
          let cfg = cfg\<lparr>NATSURL := nats_url cfg kube\<rparr>;
              reader = (if NATSURL cfg = [] then None
                else case fst (DialJetStream (lb_connect lb) (lb_jsNew lb) (NATSURL cfg)) of
                  Inl e \<Rightarrow> None
                | Inr r \<Rightarrow> Some r)
          in Inr (New_Service cfg (map_option fst kube) dyn (map_option (\<lambda>r. js_reader (jr_js r)) reader) cluster now,
               \<lparr>sb_haveDyn = (dyn \<noteq> None), sb_haveStreams = (reader \<noteq> None)\<rparr>, reader))"

section \<open>Tools\<close>

definition core_tools :: "('q, 'code) tool_env \<Rightarrow> 'c Service \<Rightarrow> 'c world ToolHandler list" where
  "core_tools k svc =
     [NewClusterIdentity k svc, NewEoBHealth k svc, NewTraceHealth k svc, NewResolveEndpoints k svc,
      NewEastWestGraph k svc]"

definition resource_tools :: "('q, 'code) tool_env \<Rightarrow> 'c Service \<Rightarrow> 'c world ToolHandler list" where
  "resource_tools k svc =
     [NewResourceList k svc, NewResourceGet k svc, NewResourceApply k svc, NewResourceDelete k svc,
      NewResourceSchema k svc]"

definition stream_tools :: "('q, 'code) tool_env \<Rightarrow> 'c Service \<Rightarrow> 'c world ToolHandler list" where
  "stream_tools k svc = [NewStreamList k svc, NewStreamStats k svc, NewStreamRead k svc]"

definition buildMCPServer ::
  "('q, 'code) tool_env \<Rightarrow> string \<Rightarrow> 'c Service \<Rightarrow> bool \<Rightarrow> bool \<Rightarrow> main_error + 'c world Server" where
  "buildMCPServer k version svc haveDyn haveStreams =
     (let reg = register_each (\<lambda>t. RegisterTool (Some t))
      in case reg (core_tools k svc) (NewServer ''eob-mcp'' version) of
           (Some e, _) \<Rightarrow> Inl (RegisterFailed e)
         | (None, s) \<Rightarrow>
             (case (if haveDyn then reg (resource_tools k svc) s else (None, s)) of
                (Some e, _) \<Rightarrow> Inl (RegisterFailed e)
              | (None, s) \<Rightarrow>
                  (case (if haveStreams then reg (stream_tools k svc) s else (None, s)) of
                     (Some e, _) \<Rightarrow> Inl (RegisterFailed e)
                   | (None, s) \<Rightarrow> Inr s)))"

section \<open>TLS\<close>

definition VersionTLS12 :: nat where "VersionTLS12 = 0x0303"

record ('cert, 'pool) tls_config =
  tc_Certificates :: "'cert list"
  tc_MinVersion :: nat
  tc_ClientCAs :: "'pool option"
  tc_RequireAndVerifyClientCert :: bool

text \<open>Loading the pair and the file are arguments; \<open>pool\<close> is the pool of a bundle with a usable certificate.\<close>

definition buildTLSConfig ::
  "(string \<Rightarrow> string \<Rightarrow> ext_err + 'cert) \<Rightarrow> (string \<Rightarrow> ext_err + string) \<Rightarrow> (string \<Rightarrow> 'pool option) \<Rightarrow> tlsOpts \<Rightarrow>
     main_error + ('cert, 'pool) tls_config option" where
  "buildTLSConfig loadPair readFile pool opts =
     (if to_certPath opts = [] \<and> to_keyPath opts = [] then
        (if to_clientCAPath opts \<noteq> [] then Inl ClientCANeedsPair else Inr None)
      else if to_certPath opts = [] \<or> to_keyPath opts = [] then Inl CertAndKeyTogether
      else case loadPair (to_certPath opts) (to_keyPath opts) of
        Inl e \<Rightarrow> Inl (LoadKeypair e)
      | Inr cert \<Rightarrow>
          let cfg = \<lparr>tc_Certificates = [cert], tc_MinVersion = VersionTLS12, tc_ClientCAs = None,
                     tc_RequireAndVerifyClientCert = False\<rparr>
          in if to_clientCAPath opts = [] then Inr (Some cfg)
             else
               (case readFile (to_clientCAPath opts) of
                  Inl e \<Rightarrow> Inl (ReadClientCA e)
                | Inr caPEM \<Rightarrow>
                    (case pool caPEM of
                       None \<Rightarrow> Inl (NoUsableCerts (to_clientCAPath opts))
                     | Some p \<Rightarrow> Inr (Some (cfg\<lparr>tc_ClientCAs := Some p, tc_RequireAndVerifyClientCert := True\<rparr>)))))"

section \<open>HTTP\<close>

text \<open>What the handlers share: the service's world and the dashboard producer. A response has headers besides.\<close>

record 'c app =
  ap_world :: "'c world"
  ap_journey :: Journey

record page = http_response + hs_headers :: "(string \<times> string) list"

type_synonym 'c handler = "http_request \<Rightarrow> 'c app \<Rightarrow> page served \<times> 'c app"

definition page_of :: "http_response \<Rightarrow> (string \<times> string) list \<Rightarrow> page" where
  "page_of h hdrs =
     \<lparr>hs_status = hs_status h, hs_ctype = hs_ctype h, hs_body = hs_body h, hs_headers = hdrs\<rparr>"

definition text_page :: "string \<Rightarrow> page" where
  "text_page body = page_of \<lparr>hs_status = 200, hs_ctype = ''text/plain; charset=utf-8'', hs_body = body\<rparr> []"

definition healthzHandler :: "'c handler" where
  "healthzHandler r a = (Served (text_page (''ok'' @ [CHR 0x0A])), a)"

definition readyzHandler :: "'c handler" where
  "readyzHandler r a = (Served (text_page (''ready'' @ [CHR 0x0A])), a)"

definition versionHandler :: "(string \<times> string \<times> string \<Rightarrow> string) \<Rightarrow> string \<times> string \<times> string \<Rightarrow> 'c handler" where
  "versionHandler encode info r a =
     (Served (page_of \<lparr>hs_status = 200, hs_ctype = ''application/json; charset=utf-8'', hs_body = encode info\<rparr> []), a)"

text \<open>\<open>ServeHTML\<close> and \<open>ServeJSON\<close> of \<open>journey.go\<close>; the embedded page and the encoder are arguments.\<close>

definition ServeHTML :: "string \<Rightarrow> 'c handler" where
  "ServeHTML raceJourneyHTML r a =
     (Served (page_of \<lparr>hs_status = 200, hs_ctype = ''text/html; charset=utf-8'', hs_body = raceJourneyHTML\<rparr> []), a)"

definition ServeJSON :: "(Snapshot \<Rightarrow> string) \<Rightarrow> (gotime \<Rightarrow> Journey \<Rightarrow> Snapshot) \<Rightarrow> 'c handler" where
  "ServeJSON encode snap r a =
     (Served (page_of \<lparr>hs_status = 200, hs_ctype = ''application/json; charset=utf-8'',
                hs_body = encode (snap (w_now (ap_world a)) (ap_journey a))\<rparr>
              [(''Access-Control-Allow-Origin'', ''*''), (''Cache-Control'', ''no-store'')]), a)"

text \<open>The MCP handler on the application's state.\<close>

definition mcpHandler :: "json_codec \<Rightarrow> Tool sorter \<Rightarrow> string list \<Rightarrow> 'c world Server \<Rightarrow> 'c handler" where
  "mcpHandler jc srt ord mcpServer r a =
     (case ServeHTTP jc srt ord mcpServer r (ap_world a) of
        (out, w') \<Rightarrow> (map_served (\<lambda>h. page_of h []) out, a\<lparr>ap_world := w'\<rparr>))"

text \<open>
  The body is cut one byte past the limit, so that a reader behind it still sees that there was more; a
  panic of a handler is answered with status 500.
\<close>

definition withRequestLimits :: "'c handler \<Rightarrow> 'c handler" where
  "withRequestLimits handler r a =
     (case handler (r\<lparr>hr_body := take (Suc maxRequestBodyBytes) (hr_body r)\<rparr>) a of
        (ServePanic, a') \<Rightarrow> (Served (page_of (http_Error ''internal server error'' 500) []), a')
      | (out, a') \<Rightarrow> (out, a'))"

text \<open>The routes are exact paths; what the library answers on any other path is an argument.\<close>

definition mux :: "(string \<times> 'c handler) list \<Rightarrow> (http_request \<Rightarrow> page) \<Rightarrow> 'c handler" where
  "mux routes other r a = (case map_of routes (hr_path r) of Some h \<Rightarrow> h r a | None \<Rightarrow> (Served (other r), a))"

record ('c, 'tls) http_server =
  hv_Addr :: string
  hv_Handler :: "'c handler"
  hv_ReadHeaderTimeout :: int
  hv_WriteTimeout :: int
  hv_IdleTimeout :: int
  hv_TLSConfig :: "'tls option"

record 'c http_env =
  he_mcp :: "'c handler"
  he_version :: "'c handler"
  he_html :: "'c handler"
  he_json :: "'c handler"
  he_other :: "http_request \<Rightarrow> page"

definition buildHTTPServer :: "string \<Rightarrow> 'c http_env \<Rightarrow> bool \<Rightarrow> 'tls option \<Rightarrow> ('c, 'tls) http_server" where
  "buildHTTPServer addr he journey tlsConf =
     (let routes = [(''/healthz'', healthzHandler), (''/readyz'', readyzHandler), (''/version'', he_version he),
            (''/mcp'', he_mcp he)] @
            (if journey then [(''/journey'', he_html he), (''/journey.json'', he_json he)] else [])
      in \<lparr>hv_Addr = addr, hv_Handler = withRequestLimits (mux routes (he_other he)),
          hv_ReadHeaderTimeout = readHeaderTimeout, hv_WriteTimeout = writeTimeout, hv_IdleTimeout = idleTimeout,
          hv_TLSConfig = tlsConf\<rparr>)"

text \<open>
  The gRPC server serves the same service; without a TLS configuration its credentials are insecure
  (None). Reflection is registered too.
\<close>

record ('c, 'tls) grpc_server =
  gv_Creds :: "'tls option"
  gv_Service :: "'c Service"
  gv_Reflection :: bool

definition buildGRPCServer :: "'c Service \<Rightarrow> 'tls option \<Rightarrow> ('c, 'tls) grpc_server" where
  "buildGRPCServer svc tlsConf =
     \<lparr>gv_Creds = (case tlsConf of Some c \<Rightarrow> Some c | None \<Rightarrow> None), gv_Service = svc, gv_Reflection = True\<rparr>"

section \<open>Running\<close>

text \<open>
  What is released on the way out, ordered by its place there: the listeners, whose users may still read,
  before what they read from.
\<close>

datatype cleanup = ShutdownHTTP | GracefulStop | ForceStop | CloseJourney | CloseStreams

fun stage :: "cleanup \<Rightarrow> nat" where
  "stage ShutdownHTTP = 0"
| "stage GracefulStop = 1"
| "stage ForceStop = 2"
| "stage CloseJourney = 3"
| "stage CloseStreams = 4"

instantiation cleanup :: linorder
begin

definition less_eq_cleanup :: "cleanup \<Rightarrow> cleanup \<Rightarrow> bool" where
  "less_eq_cleanup a b \<longleftrightarrow> stage a \<le> stage b"

definition less_cleanup :: "cleanup \<Rightarrow> cleanup \<Rightarrow> bool" where
  "less_cleanup a b \<longleftrightarrow> stage a < stage b"

instance
proof
  fix a b :: cleanup
  assume "a \<le> b" "b \<le> a"
  then show "a = b" by (cases a; cases b) (simp_all add: less_eq_cleanup_def)
qed (auto simp: less_eq_cleanup_def less_cleanup_def)

end


text \<open>\<open>shutdownAll\<close>: the listeners share one deadline; \<open>drained\<close> says whether gRPC stops before it.\<close>

definition shutdownAll :: "bool \<Rightarrow> cleanup list" where
  "shutdownAll drained = [ShutdownHTTP, GracefulStop] @ (if drained then [] else [ForceStop])"

datatype log_level = LevelDebug | LevelInfo | LevelWarn | LevelError

definition newLogger :: "string \<Rightarrow> log_level" where
  "newLogger level =
     (if level = ''debug'' then LevelDebug else if level = ''info'' then LevelInfo
      else if level = ''warn'' then LevelWarn else if level = ''error'' then LevelError else LevelInfo)"

text \<open>
  What \<open>run\<close> meets: the environment and the resolver file, the libraries, the cluster and the clock, the
  outcomes of connecting the dashboard and of listening, what ends its wait (the error of a listener,
  or none for a signal), and the codings and map orders of its HTTP handlers.
\<close>

record ('cfg, 'd, 'disc, 'res, 'c, 'nc, 'st, 'con, 'q, 'code, 'cert, 'pool) run_env =
  re_getenv :: "string \<Rightarrow> string"
  re_resolvConf :: "string option"
  re_kube :: "'cfg kube_env"
  re_libs :: "('cfg, 'd, 'disc, 'res, 'c, 'nc, 'st, 'con) backend_libs"
  re_tools :: "('q, 'code) tool_env"
  re_cluster :: 'c
  re_now :: gotime
  re_loadPair :: "string \<Rightarrow> string \<Rightarrow> ext_err + 'cert"
  re_readFile :: "string \<Rightarrow> ext_err + string"
  re_pool :: "string \<Rightarrow> 'pool option"
  re_busConnect :: "ext_err option"
  re_busSubscribe :: "string \<Rightarrow> ext_err option"
  re_listen :: "string \<Rightarrow> ext_err option"
  re_ended :: "main_error option"
  re_drained :: bool
  re_codec :: json_codec
  re_sortTools :: "Tool sorter"
  re_toolOrder :: "string list"
  re_encodeVersion :: "string \<times> string \<times> string \<Rightarrow> string"
  re_raceJourneyHTML :: string
  re_encodeSnapshot :: "Snapshot \<Rightarrow> string"
  re_sortProbers :: "proberRow sorter"
  re_seriesOrder :: "Journey \<Rightarrow> string list"
  re_proberOrder :: "Journey \<Rightarrow> string list"
  re_other :: "http_request \<Rightarrow> page"

text \<open>The dashboard, when its bus is configured and reachable.\<close>

definition start_journey :: "config \<Rightarrow> ext_err option \<Rightarrow> (string \<Rightarrow> ext_err option) \<Rightarrow> Journey option" where
  "start_journey cfg connect subscribe =
     (if DefenseNATSURL cfg = [] then None
      else case Start_Journey cfg connect subscribe NewJourney of
        (Some e, _, _) \<Rightarrow> None
      | (None, j, _) \<Rightarrow> Some j)"

text \<open>The handlers that \<open>run\<close> gives to \<open>buildHTTPServer\<close>.\<close>

definition http_handlers ::
  "('cfg, 'd, 'disc, 'res, 'c, 'nc, 'st, 'con, 'q, 'code, 'cert, 'pool) run_env \<Rightarrow> string \<times> string \<times> string \<Rightarrow>
     config \<Rightarrow> 'c world Server \<Rightarrow> 'c http_env" where
  "http_handlers env info cfg mcpServer =
     \<lparr>he_mcp = mcpHandler (re_codec env) (re_sortTools env) (re_toolOrder env) mcpServer,
      he_version = versionHandler (re_encodeVersion env) info, he_html = ServeHTML (re_raceJourneyHTML env),
      he_json = ServeJSON (re_encodeSnapshot env)
        (\<lambda>now j. snapshot (re_sortProbers env) (re_seriesOrder env j) (re_proberOrder env j) cfg now j),
      he_other = re_other env\<rparr>"

text \<open>The service, the servers that were started, and the state their handlers start from.\<close>

record ('c, 'tls) started =
  st_service :: "'c Service"
  st_http :: "('c, 'tls) http_server"
  st_grpc :: "('c, 'tls) grpc_server option"
  st_app :: "'c app"

text \<open>
  The result is \<open>run\<close>'s error, what was started (the HTTP listener is, before the gRPC listener is
  opened), and what was released: at the end what was deferred, last first. \<open>info\<close> is the version, commit
  and date of the build.
\<close>

definition run ::
  "('cfg, 'd, 'disc, 'res, 'c, 'nc, 'st, 'con, 'q, 'code, 'cert, 'pool) run_env \<Rightarrow> string \<Rightarrow> string \<Rightarrow> tlsOpts \<Rightarrow>
     string \<times> string \<times> string \<Rightarrow>
     main_error option \<times> ('c, ('cert, 'pool) tls_config) started option \<times> cleanup list" where
  "run env httpListen grpcListen opts info =
     (let cfg = FromEnv (re_getenv env) (re_resolvConf env) (fst info);
          kube = (case New_Client (re_kube env) of Inl e \<Rightarrow> None | Inr c \<Rightarrow> Some c)
      in case buildService (re_libs env) cfg kube (re_cluster env) (re_now env) of
           Inl e \<Rightarrow> (Some e, None, [])
         | Inr ((svc, w), backends, reader) \<Rightarrow>
             let closeStreams = (case reader of None \<Rightarrow> [] | Some _ \<Rightarrow> [CloseStreams])
             in (case buildMCPServer (re_tools env) (fst info) svc (sb_haveDyn backends) (sb_haveStreams backends) of
                   Inl e \<Rightarrow> (Some e, None, closeStreams)
                 | Inr mcpServer \<Rightarrow>
                     (case buildTLSConfig (re_loadPair env) (re_readFile env) (re_pool env) opts of
                        Inl e \<Rightarrow> (Some e, None, closeStreams)
                      | Inr tlsConf \<Rightarrow>
                          let journey = start_journey (srv_cfg svc) (re_busConnect env) (re_busSubscribe env);
                              deferred = (case journey of None \<Rightarrow> [] | Some _ \<Rightarrow> [CloseJourney]) @ closeStreams;
                              httpSrv = buildHTTPServer httpListen (http_handlers env info (srv_cfg svc) mcpServer)
                                (journey \<noteq> None) tlsConf;
                              grpcSrv = buildGRPCServer svc tlsConf;
                              st = \<lparr>st_service = svc, st_http = httpSrv, st_grpc = None,
                                st_app = \<lparr>ap_world = w,
                                  ap_journey = (case journey of None \<Rightarrow> NewJourney | Some j \<Rightarrow> j)\<rparr>\<rparr>;
                              serving = (re_ended env, Some (st\<lparr>st_grpc := if grpcListen = [] then None else Some grpcSrv\<rparr>),
                                shutdownAll (re_drained env) @ deferred)
                          in if grpcListen = [] then serving
                             else (case re_listen env grpcListen of
                                Some e \<Rightarrow> (Some (GrpcListen grpcListen e), Some st, deferred)
                              | None \<Rightarrow> serving))))"

text \<open>\<open>main\<close>: the parsed flags (by the library), their defaults, the logger and the exit status.\<close>

record flags =
  fl_listen :: string
  fl_grpc_listen :: string
  fl_tls_cert :: string
  fl_tls_key :: string
  fl_tls_client_ca :: string
  fl_log_level :: string

definition default_flags :: flags where
  "default_flags = \<lparr>fl_listen = defaultHTTPListenAddr, fl_grpc_listen = defaultGRPCListenAddr, fl_tls_cert = [],
     fl_tls_key = [], fl_tls_client_ca = [], fl_log_level = ''info''\<rparr>"

definition main ::
  "('cfg, 'd, 'disc, 'res, 'c, 'nc, 'st, 'con, 'q, 'code, 'cert, 'pool) run_env \<Rightarrow> flags \<Rightarrow> string \<times> string \<times> string \<Rightarrow>
     log_level \<times> nat" where
  "main env fl info =
     (let opts = \<lparr>to_certPath = fl_tls_cert fl, to_keyPath = fl_tls_key fl, to_clientCAPath = fl_tls_client_ca fl\<rparr>
      in (newLogger (fl_log_level fl),
          case fst (run env (fl_listen fl) (fl_grpc_listen fl) opts info) of Some e \<Rightarrow> 1 | None \<Rightarrow> 0))"

section \<open>Lemmas: the tools\<close>

lemma core_names: "map th_Name (core_tools k svc) =
    [''cluster_identity'', ''eob_health'', ''trace_health'', ''resolve_endpoints'', ''east_west_graph'']"
  by (simp add: core_tools_def NewClusterIdentity_def NewEoBHealth_def NewTraceHealth_def NewResolveEndpoints_def
      NewEastWestGraph_def)

lemma resource_names: "map th_Name (resource_tools k svc) =
    [''resource_list'', ''resource_get'', ''resource_apply'', ''resource_delete'', ''resource_schema'']"
  by (simp add: resource_tools_def NewResourceList_def NewResourceGet_def NewResourceApply_def NewResourceDelete_def
      NewResourceSchema_def)

lemma stream_names: "map th_Name (stream_tools k svc) = [''stream_list'', ''stream_stats'', ''stream_read'']"
  by (simp add: stream_tools_def NewStreamList_def NewStreamStats_def NewStreamRead_def)

lemma all_tools_ok:
  "t \<in> set (core_tools k svc) \<or> t \<in> set (resource_tools k svc) \<or> t \<in> set (stream_tools k svc) \<Longrightarrow> tool_ok t"
  unfolding core_tools_def resource_tools_def stream_tools_def
  using core_tools_ok [of k svc] read_tools_ok [of k svc] write_tools_ok [of k svc] by auto

definition by_name :: "'w ToolHandler list \<Rightarrow> string \<rightharpoonup> 'w ToolHandler" where
  "by_name ts = map_of (map (\<lambda>t. (th_Name t, t)) ts)"

lemma dom_by_name: "dom (by_name ts) = set (map th_Name ts)"
  by (simp add: by_name_def dom_map_of_conv_image_fst image_image)

lemma by_name_SomeD: "by_name ts n = Some t \<Longrightarrow> t \<in> set ts \<and> th_Name t = n"
  by (auto simp: by_name_def dest: map_of_SomeD)

lemma register_new:
  assumes "distinct (map th_Name ts)" "[] \<notin> set (map th_Name ts)" "set (map th_Name ts) \<inter> dom (sv_tools s) = {}"
  shows "\<exists>s'. register_each (\<lambda>t. RegisterTool (Some t)) ts s = (None, s') \<and> sv_tools s' = sv_tools s ++ by_name ts"
  unfolding by_name_def using assms by (intro tools_reg.register_each_fresh) auto

text \<open>The registrations never fail, and the registry holds what was registered.\<close>

lemma buildMCPServer_ok:
  obtains srv where "buildMCPServer k version svc haveDyn haveStreams = Inr srv"
    "sv_tools srv = by_name (core_tools k svc) ++ (if haveDyn then by_name (resource_tools k svc) else Map.empty) ++
       (if haveStreams then by_name (stream_tools k svc) else Map.empty)"
proof -
  let ?reg = "register_each (\<lambda>t. RegisterTool (Some t))"
  let ?n1 = "map th_Name (core_tools k svc)" and ?n2 = "map th_Name (resource_tools k svc)"
    and ?n3 = "map th_Name (stream_tools k svc)"
  have distinct: "distinct ?n1" "distinct ?n2" "distinct ?n3"
    and nonempty: "[] \<notin> set ?n1" "[] \<notin> set ?n2" "[] \<notin> set ?n3"
    and apart: "set ?n2 \<inter> set ?n1 = {}" "set ?n3 \<inter> (set ?n1 \<union> set ?n2) = {}"
    unfolding core_names resource_names stream_names by simp_all
  have "sv_tools (NewServer ''eob-mcp'' version :: 'a world Server) = Map.empty" by (simp add: NewServer_def)
  then obtain s1 where s1: "?reg (core_tools k svc) (NewServer ''eob-mcp'' version) = (None, s1)"
    "sv_tools s1 = by_name (core_tools k svc)"
    using register_new [OF distinct(1) nonempty(1), of "NewServer ''eob-mcp'' version"] by auto
  then have "set ?n2 \<inter> dom (sv_tools s1) = {}" using apart(1) by (simp only: dom_by_name)
  then obtain s2 where s2: "(if haveDyn then ?reg (resource_tools k svc) s1 else (None, s1)) = (None, s2)"
    "sv_tools s2 = sv_tools s1 ++ (if haveDyn then by_name (resource_tools k svc) else Map.empty)"
    using register_new [OF distinct(2) nonempty(2), of s1] by (cases haveDyn) auto
  have "dom (sv_tools s2) \<subseteq> set ?n1 \<union> set ?n2"
    unfolding s2(2) s1(2) dom_map_add by (cases haveDyn) (simp_all only: dom_by_name if_True if_False dom_empty, blast+)
  then have "set ?n3 \<inter> dom (sv_tools s2) = {}" using apart(2) by blast
  then obtain s3 where s3: "(if haveStreams then ?reg (stream_tools k svc) s2 else (None, s2)) = (None, s3)"
    "sv_tools s3 = sv_tools s2 ++ (if haveStreams then by_name (stream_tools k svc) else Map.empty)"
    using register_new [OF distinct(3) nonempty(3), of s2] by (cases haveStreams) auto
  have "buildMCPServer k version svc haveDyn haveStreams = Inr s3"
    by (simp add: buildMCPServer_def Let_def s1(1) s2(1) s3(1))
  then show thesis using that s1(2) s2(2) s3(2) by simp
qed

lemma buildMCPServer_tools:
  assumes "buildMCPServer k version svc haveDyn haveStreams = Inr srv" and "t \<in> ran (sv_tools srv)"
  shows "tool_ok t"
proof -
  have tools: "sv_tools srv = by_name (core_tools k svc) ++ (if haveDyn then by_name (resource_tools k svc) else Map.empty) ++
       (if haveStreams then by_name (stream_tools k svc) else Map.empty)"
    by (rule buildMCPServer_ok [of k version svc haveDyn haveStreams]) (use assms(1) in simp)
  obtain n where "sv_tools srv n = Some t" using assms(2) by (auto simp: ran_def)
  then have "by_name (core_tools k svc) n = Some t \<or> by_name (resource_tools k svc) n = Some t \<or>
      by_name (stream_tools k svc) n = Some t"
    using tools by (auto split: if_splits)
  then show ?thesis using by_name_SomeD all_tools_ok by blast
qed

lemma buildMCPServer_dom:
  "\<exists>srv. buildMCPServer k version svc haveDyn haveStreams = Inr srv \<and>
    dom (sv_tools srv) = set (map th_Name (core_tools k svc)) \<union>
      (if haveDyn then set (map th_Name (resource_tools k svc)) else {}) \<union>
      (if haveStreams then set (map th_Name (stream_tools k svc)) else {})"
proof -
  obtain srv where srv: "buildMCPServer k version svc haveDyn haveStreams = Inr srv"
    "sv_tools srv = by_name (core_tools k svc) ++ (if haveDyn then by_name (resource_tools k svc) else Map.empty) ++
       (if haveStreams then by_name (stream_tools k svc) else Map.empty)"
    by (rule buildMCPServer_ok)
  then show ?thesis
    by (cases haveDyn; cases haveStreams) (simp_all add: dom_by_name Un_ac del: set_map)
qed

lemma buildService_Inr:
  assumes "buildService lb cfg kube cluster now = Inr ((svc, w), b, reader)"
  shows "sb_haveDyn b = (srv_dyn svc \<noteq> None) \<and> sb_haveStreams b = (srv_streams svc \<noteq> None) \<and>
    (srv_dyn svc \<noteq> None) = (kube \<noteq> None) \<and> srv_kube svc = map_option fst kube \<and>
    srv_streams svc = map_option (\<lambda>r. js_reader (jr_js r)) reader \<and> srv_cfg svc = cfg\<lparr>NATSURL := nats_url cfg kube\<rparr> \<and>
    w_audit w = New \<and> w_cluster w = cluster"
  using assms by (auto simp: buildService_def New_Service_def Let_def split: sum.splits option.splits if_splits)

text \<open>Taking \<open>run\<close> apart: what is started, and the configuration, service and server behind it.\<close>

lemma run_started:
  assumes "run env httpListen grpcListen opts info = (err, Some st, ops)"
  obtains kube w b reader srv tls where
    "kube = (case New_Client (re_kube env) of Inl e \<Rightarrow> None | Inr c \<Rightarrow> Some c)"
    "buildService (re_libs env) (FromEnv (re_getenv env) (re_resolvConf env) (fst info)) kube (re_cluster env) (re_now env)
       = Inr ((st_service st, w), b, reader)"
    "buildMCPServer (re_tools env) (fst info) (st_service st) (sb_haveDyn b) (sb_haveStreams b) = Inr srv"
    "buildTLSConfig (re_loadPair env) (re_readFile env) (re_pool env) opts = Inr tls"
    "st_http st = buildHTTPServer httpListen (http_handlers env info (srv_cfg (st_service st)) srv)
       (start_journey (srv_cfg (st_service st)) (re_busConnect env) (re_busSubscribe env) \<noteq> None) tls"
    "ap_world (st_app st) = w"
    "st_grpc st = None \<or> st_grpc st = Some (buildGRPCServer (st_service st) tls)"
  using assms unfolding run_def Let_def
  by (auto split: sum.splits prod.splits option.splits if_splits)

section \<open>Lemmas: the MCP route\<close>

lemma capped_take: "capped_body (take (Suc maxRequestBodyBytes) b) = capped_body b"
  by (auto simp: capped_body_def maxRequestBodyBytes_def MaxRequestBytes_def min_def not_less_eq)

lemma ServeHTTP_capped:
  "ServeHTTP jc srt ord s (r\<lparr>hr_body := take (Suc maxRequestBodyBytes) (hr_body r)\<rparr>) w = ServeHTTP jc srt ord s r w"
  by (simp add: ServeHTTP_def capped_take)

lemma ServeHTTP_no_panic: "fst (ServeHTTP jc srt ord s r w) \<noteq> ServePanic"
  by (auto simp: ServeHTTP_def Let_def split: sum.splits dispatch_outcome.splits prod.splits if_splits)

text \<open>Behind the limits and the routes, \<open>/mcp\<close> is the MCP handler.\<close>

lemma mcp_route:
  assumes "hr_path r = ''/mcp''" and "he_mcp he = mcpHandler jc srt ord srv"
  shows "hv_Handler (buildHTTPServer addr he journey tls) r a =
    (case ServeHTTP jc srt ord srv r (ap_world a) of
       (out, w') \<Rightarrow> (map_served (\<lambda>h. page_of h []) out, a\<lparr>ap_world := w'\<rparr>))"
proof -
  obtain out w' where out: "ServeHTTP jc srt ord srv r (ap_world a) = (out, w')" by fastforce
  then have "out \<noteq> ServePanic" using ServeHTTP_no_panic by (metis fst_conv)
  then show ?thesis using assms out
    by (cases out) (simp_all add: buildHTTPServer_def withRequestLimits_def mux_def mcpHandler_def ServeHTTP_capped Let_def)
qed

text \<open>Every other path is answered without touching the state.\<close>

lemma other_route:
  assumes "hr_path r \<noteq> ''/mcp''"
  obtains page where
    "hv_Handler (buildHTTPServer addr (http_handlers env info cfg srv) journey tls) r a = (Served page, a)"
proof -
  have "\<exists>page. hv_Handler (buildHTTPServer addr (http_handlers env info cfg srv) journey tls) r a = (Served page, a)"
    using assms
    by (simp add: buildHTTPServer_def withRequestLimits_def mux_def http_handlers_def healthzHandler_def readyzHandler_def
        versionHandler_def ServeHTML_def ServeJSON_def Let_def)
  then show thesis using that by blast
qed

lemma ServeHTTP_tools_ok:
  assumes "\<forall>t \<in> ran (sv_tools s). tool_ok t" and "registry_ok s" and "broker_inv (w_audit w)"
    and "ServeHTTP jc srt ord s r w = (out, w')"
  shows "audit_grows w w' \<and>
    (case out of
       Served h \<Rightarrow> hs_status h \<in> {200, 202, 405}
     | ServePanic \<Rightarrow> False
     | ServeHang \<Rightarrow> \<exists>req p. jc_request jc (fst (capped_body (hr_body r))) (snd (capped_body (hr_body r))) = Inr req \<and>
         rq_Method req = ''tools/call'' \<and> jc_call_params jc (rq_Params req) = Inr p \<and> cp_Name p = ''stream_read'')"
proof -
  have call: "fst (th_Call t raw w) \<noteq> CallPanic \<and> audit_grows w (snd (th_Call t raw w)) \<and>
      (fst (th_Call t raw w) = CallHang \<longrightarrow> n = ''stream_read'')" if "sv_tools s n = Some t" for n t raw
    using that assms(1-3) unfolding tool_ok_def registry_ok_def by (metis ranI)
  have "audit_grows w (snd (Dispatch jc srt ord s req w))" for req
    using assms(3) call by (auto simp: Dispatch_world split: sum.split option.split)
  then have inv: "Dispatch jc srt ord s req w = (o1, w2) \<Longrightarrow> audit_grows w w2" for req o1 w2
    by (metis snd_conv)
  have no_panic: "Dispatch jc srt ord s req w \<noteq> (DispatchPanic, w2)" for req w2
    using Dispatch_panic [of jc srt ord s req w] call by force
  have hang: "Dispatch jc srt ord s req w = (DispatchHang, w2) \<Longrightarrow> rq_Method req = ''tools/call'' \<and>
      (\<exists>p. jc_call_params jc (rq_Params req) = Inr p \<and> cp_Name p = ''stream_read'')" for req w2
    using Dispatch_hang [of jc srt ord s req w] call by force
  show ?thesis
    using assms(3,4)
    by (auto simp: ServeHTTP_def http_Error_def writeJSONRPCError_def write_response_def Let_def no_panic
         dest: inv hang split: sum.splits dispatch_outcome.splits prod.splits if_splits)
qed

text \<open>What an answer of the server is to a request, and that every answer is one.\<close>

definition answer_ok :: "json_codec \<Rightarrow> http_request \<Rightarrow> page served \<Rightarrow> bool" where
  "answer_ok jc r out =
     (case out of
        Served p \<Rightarrow> hr_path r = ''/mcp'' \<longrightarrow> hs_status p \<in> {200, 202, 405}
      | ServePanic \<Rightarrow> False
      | ServeHang \<Rightarrow> hr_path r = ''/mcp'' \<and>
          (\<exists>req p. jc_request jc (fst (capped_body (hr_body r))) (snd (capped_body (hr_body r))) = Inr req \<and>
             rq_Method req = ''tools/call'' \<and> jc_call_params jc (rq_Params req) = Inr p \<and> cp_Name p = ''stream_read''))"

lemma buildMCPServer_registry: "buildMCPServer k version svc haveDyn haveStreams = Inr srv \<Longrightarrow> registry_ok srv"
proof -
  assume srv: "buildMCPServer k version svc haveDyn haveStreams = Inr srv"
  have tools: "sv_tools srv = by_name (core_tools k svc) ++ (if haveDyn then by_name (resource_tools k svc) else Map.empty) ++
       (if haveStreams then by_name (stream_tools k svc) else Map.empty)"
    by (rule buildMCPServer_ok [of k version svc haveDyn haveStreams]) (use srv in simp)
  have "[] \<notin> set (map th_Name (core_tools k svc))" "[] \<notin> set (map th_Name (resource_tools k svc))"
    "[] \<notin> set (map th_Name (stream_tools k svc))"
    unfolding core_names resource_names stream_names by simp_all
  then have named: "by_name (core_tools k svc) n = Some t \<or> by_name (resource_tools k svc) n = Some t \<or>
      by_name (stream_tools k svc) n = Some t \<Longrightarrow> th_Name t = n \<and> n \<noteq> []" for n t
    by (force dest!: by_name_SomeD simp: image_iff)
  then show "registry_ok srv" unfolding registry_ok_def tools by (auto split: if_splits)
qed



lemma handler_answers:
  assumes "buildMCPServer k version svc haveDyn haveStreams = Inr srv" and "broker_inv (w_audit (ap_world a))"
    and "hv_Handler (buildHTTPServer addr (http_handlers env info cfg srv) journey tls) r a = (out, a')"
  shows "answer_ok (re_codec env) r out \<and> ap_journey a' = ap_journey a \<and> audit_grows (ap_world a) (ap_world a')"
proof (cases "hr_path r = ''/mcp''")
  case True
  obtain o1 w1 where o1: "ServeHTTP (re_codec env) (re_sortTools env) (re_toolOrder env) srv r (ap_world a) = (o1, w1)"
    by fastforce
  have "he_mcp (http_handlers env info cfg srv) = mcpHandler (re_codec env) (re_sortTools env) (re_toolOrder env) srv"
    by (simp add: http_handlers_def)
  then have "out = map_served (\<lambda>h. page_of h []) o1" "a' = a\<lparr>ap_world := w1\<rparr>"
    using assms(3) by (simp_all add: mcp_route [OF True] o1)
  moreover have "\<forall>t \<in> ran (sv_tools srv). tool_ok t" using buildMCPServer_tools [OF assms(1)] by blast
  note ServeHTTP_tools_ok [OF this buildMCPServer_registry [OF assms(1)] assms(2) o1]
  ultimately show ?thesis using True by (cases o1) (simp_all add: page_of_def answer_ok_def)
next
  case False
  then obtain page where "(out, a') = (Served page, a)" using other_route assms(3) by metis
  then show ?thesis using False assms(2) by (simp add: answer_ok_def)
qed

text \<open>Requests one after the other, and the answers.\<close>

primrec serve_each :: "'c handler \<Rightarrow> http_request list \<Rightarrow> 'c app \<Rightarrow> page served list \<times> 'c app" where
  "serve_each h [] a = ([], a)"
| "serve_each h (r # rs) a =
     (case h r a of (out, a1) \<Rightarrow> case serve_each h rs a1 of (outs, a2) \<Rightarrow> (out # outs, a2))"

lemma serve_each_answers:
  assumes "buildMCPServer k version svc haveDyn haveStreams = Inr srv" and "broker_inv (w_audit (ap_world a))"
    and "serve_each (hv_Handler (buildHTTPServer addr (http_handlers env info cfg srv) journey tls)) rs a = (outs, a')"
  shows "list_all2 (answer_ok (re_codec env)) rs outs \<and> ap_journey a' = ap_journey a \<and> audit_grows (ap_world a) (ap_world a')"
  using assms(2,3)
proof (induction rs arbitrary: a outs)
  case (Cons r rs)
  obtain out a1 where 1: "hv_Handler (buildHTTPServer addr (http_handlers env info cfg srv) journey tls) r a = (out, a1)"
    by fastforce
  obtain outs1 where 2: "serve_each (hv_Handler (buildHTTPServer addr (http_handlers env info cfg srv) journey tls)) rs a1
      = (outs1, a')" "outs = out # outs1"
    using Cons.prems(2) 1 by (auto split: prod.splits)
  note head = handler_answers [OF assms(1) Cons.prems(1) 1]
  moreover from this have "broker_inv (w_audit (ap_world a1))" using audit_grows_inv by blast
  note Cons.IH [OF this 2(1)]
  ultimately show ?case
    using audit_grows_trans [of "ap_world a" "ap_world a1" "ap_world a'"] by (simp add: 2(2))
qed simp

section \<open>What is there to open\<close>









section \<open>Properties\<close>


text \<open>
  C28. The server advertises what it can do: registration never fails, and the listed tools are the five
  core ones, the resource tools exactly when the service has a dynamic client, and the stream tools
  exactly when it has a streams reader. The NATS URL of the environment wins over discovery.
\<close>

theorem advertised_tools:
  assumes "buildService lb cfg kube cluster now = Inr ((svc, w), b, reader)"
  shows "(\<exists>srv. buildMCPServer k version svc (sb_haveDyn b) (sb_haveStreams b) = Inr srv \<and>
      dom (sv_tools srv) =
        {''cluster_identity'', ''eob_health'', ''trace_health'', ''resolve_endpoints'', ''east_west_graph''} \<union>
        (if srv_dyn svc = None then {}
         else {''resource_list'', ''resource_get'', ''resource_apply'', ''resource_delete'', ''resource_schema''}) \<union>
        (if srv_streams svc = None then {} else {''stream_list'', ''stream_stats'', ''stream_read''})) \<and>
    (srv_dyn svc = None) = (kube = None) \<and>
    (if NATSURL cfg = [] \<and> kube = None then srv_streams svc = None
     else NATSURL cfg = [] \<or> NATSURL (srv_cfg svc) = NATSURL cfg)"
proof -
  note b = buildService_Inr [OF assms]
  then have dyn: "sb_haveDyn b = (srv_dyn svc \<noteq> None)" and streams: "sb_haveStreams b = (srv_streams svc \<noteq> None)"
    by blast+
  have "srv_streams svc = None" if "NATSURL cfg = []" "kube = None"
    using assms that by (auto simp: buildService_def New_Service_def nats_url_def)
  moreover have "NATSURL (srv_cfg svc) = NATSURL cfg" if "NATSURL cfg \<noteq> []"
    using b that by (auto simp: nats_url_def split: option.split)
  moreover obtain srv where srv: "buildMCPServer k version svc (sb_haveDyn b) (sb_haveStreams b) = Inr srv"
    "dom (sv_tools srv) = set (map th_Name (core_tools k svc)) \<union>
      (if sb_haveDyn b then set (map th_Name (resource_tools k svc)) else {}) \<union>
      (if sb_haveStreams b then set (map th_Name (stream_tools k svc)) else {})"
    using buildMCPServer_dom by blast
  moreover have "dom (sv_tools srv) = set (map th_Name (core_tools k svc)) \<union>
      (if srv_dyn svc = None then {} else set (map th_Name (resource_tools k svc))) \<union>
      (if srv_streams svc = None then {} else set (map th_Name (stream_tools k svc)))"
    using srv(2) unfolding dyn streams
    by (cases "srv_dyn svc = None"; cases "srv_streams svc = None") (simp_all only: simp_thms if_True if_False)
  note dom = this [unfolded core_names resource_names stream_names list.set]
  moreover have "(srv_dyn svc = None) = (kube = None)" using b by blast
  ultimately show ?thesis using srv(1) dom by (metis (no_types, lifting))
qed

text \<open>
  C27. TLS is never weaker than asked for: the listeners are plaintext exactly when no TLS flag is set;
  otherwise they present the loaded pair with TLS 1.2 or later, and require a client certificate
  exactly when a CA is given, verified against the pool read from it. Every other setting is an error.
\<close>

theorem buildTLSConfig_safe:
  assumes "buildTLSConfig loadPair readFile pool opts = Inr conf"
  shows "(conf = None) = (to_certPath opts = [] \<and> to_keyPath opts = [] \<and> to_clientCAPath opts = []) \<and>
    (case conf of
       None \<Rightarrow> True
     | Some c \<Rightarrow>
         to_certPath opts \<noteq> [] \<and> to_keyPath opts \<noteq> [] \<and> 0x0303 \<le> tc_MinVersion c \<and>
         (\<exists>cert. loadPair (to_certPath opts) (to_keyPath opts) = Inr cert \<and> tc_Certificates c = [cert]) \<and>
         tc_RequireAndVerifyClientCert c = (to_clientCAPath opts \<noteq> []) \<and>
         (if to_clientCAPath opts = [] then tc_ClientCAs c = None
          else \<exists>pem p. readFile (to_clientCAPath opts) = Inr pem \<and> pool pem = Some p \<and> tc_ClientCAs c = Some p))"
  using assms
  by (auto simp: buildTLSConfig_def Let_def VersionTLS12_def split: sum.splits option.splits if_splits)

section \<open>Witnesses\<close>

definition ex_libs :: "(unit, unit, unit, unit, ex_cluster, unit, unit, gotime) backend_libs" where
  "ex_libs = \<lparr>lb_newDyn = Inr, lb_newDisc = Inr, lb_groups = Inr, lb_mkDyn = (\<lambda>_ _. ex_dyn),
     lb_connect = (\<lambda>url. if url = ''nats://up'' then Inr () else Inl (ex_err False)), lb_jsNew = (\<lambda>_. Inr ex_js)\<rparr>"

lemma advertised_tools_witness:
  "\<exists>svc w b reader. buildService ex_libs (ex_config\<lparr>NATSURL := ''nats://up''\<rparr>) (Some (ex_kube [] [], ())) [] zero_time
      = Inr ((svc, w), b, reader) \<and> NATSURL (srv_cfg svc) = ''nats://up'' \<and> srv_dyn svc \<noteq> None"
proof -
  obtain svc w b reader where *: "buildService ex_libs (ex_config\<lparr>NATSURL := ''nats://up''\<rparr>) (Some (ex_kube [] [], ())) []
      zero_time = Inr ((svc, w), b, reader)"
    by (auto simp: buildService_def New_Service_def NewDynClient_def ex_libs_def Let_def)
  then show ?thesis using advertised_tools [OF *, of ex_tool_env "[]"] by auto
qed

lemma buildTLSConfig_safe_witness:
  "\<exists>conf. buildTLSConfig (\<lambda>c k. Inr c) (\<lambda>f. Inr f) Some \<lparr>to_certPath = ''c'', to_keyPath = ''k'', to_clientCAPath = ''ca''\<rparr>
      = Inr (Some conf) \<and> tc_RequireAndVerifyClientCert conf"
proof -
  let ?opts = "\<lparr>to_certPath = ''c'', to_keyPath = ''k'', to_clientCAPath = ''ca''\<rparr>"
  have "\<exists>conf. buildTLSConfig (\<lambda>c k. Inr c) (\<lambda>f. Inr f) Some ?opts = Inr (Some conf)"
    by (simp add: buildTLSConfig_def Let_def)
  then obtain conf where *: "buildTLSConfig (\<lambda>c k. Inr c) (\<lambda>f. Inr f) Some ?opts = Inr (Some conf)" by blast
  then show ?thesis using buildTLSConfig_safe [OF *] by simp
qed

text \<open>A process with a cluster and without TLS, and a coding whose every request is a call of \<open>resource_apply\<close>.\<close>

definition ex_apply_request :: Request where
  "ex_apply_request = \<lparr>rq_JSONRPC = ''2.0'', rq_ID = ''1'', rq_Method = ''tools/call'', rq_Params = ''P''\<rparr>"

definition ex_apply_codec :: json_codec where
  "ex_apply_codec =
     \<lparr>jc_request = (\<lambda>b over. Inr ex_apply_request), jc_init_params = (\<lambda>_. Inl ''bad''),
      jc_call_params = (\<lambda>_. Inr \<lparr>cp_Name = ''resource_apply'', cp_Arguments = ''a''\<rparr>),
      jc_encode = (\<lambda>r. Inr ''E'')\<rparr>"

definition ex_kube_env :: "unit kube_env" where
  "ex_kube_env = \<lparr>ke_InCluster = Inr (), ke_KUBECONFIG = [], ke_HomeDir = Inr [], ke_Exists = (\<lambda>_. False),
     ke_BuildConfig = (\<lambda>_. Inr ()), ke_NewForConfig = (\<lambda>_. Inr (ex_kube [] []))\<rparr>"

definition ex_env ::
  "ext_err option \<Rightarrow>
     (unit, unit, unit, unit, ex_cluster, unit, unit, gotime, unit, unit, string, string) run_env" where
  "ex_env listen =
     \<lparr>re_getenv = (\<lambda>_. []), re_resolvConf = None, re_kube = ex_kube_env, re_libs = ex_libs, re_tools = ex_tool_env,
      re_cluster = [], re_now = zero_time, re_loadPair = (\<lambda>c k. Inr c), re_readFile = Inr, re_pool = Some,
      re_busConnect = None, re_busSubscribe = (\<lambda>_. None), re_listen = (\<lambda>_. listen), re_ended = None,
      re_drained = True, re_codec = ex_apply_codec, re_sortTools = sort_by, re_toolOrder = [],
      re_encodeVersion = (\<lambda>_. ''v''), re_raceJourneyHTML = ''page'', re_encodeSnapshot = (\<lambda>_. ''j''),
      re_sortProbers = sort_by, re_seriesOrder = (\<lambda>_. []), re_proberOrder = (\<lambda>_. []),
      re_other = (\<lambda>_. page_of (http_Error ''404 page not found'' 404) [])\<rparr>"

definition no_tls :: tlsOpts where
  "no_tls = \<lparr>to_certPath = [], to_keyPath = [], to_clientCAPath = []\<rparr>"

lemma ex_client: "New_Client (re_kube (ex_env listen)) = Inr (ex_kube [] [], ())"
  by (simp add: New_Client_def loadConfig_def ex_env_def ex_kube_env_def)

lemma ex_process_with:
  obtains err st ops where "run ((ex_env listen)\<lparr>re_codec := jc, re_tools := te\<rparr>)
      '':8080'' grpcListen no_tls (''dev'', [], []) = (err, Some st, ops)"
    "srv_dyn (st_service st) = Some ex_dyn" "w_cluster (ap_world (st_app st)) = []"
proof -
  let ?env = "(ex_env listen)\<lparr>re_codec := jc, re_tools := te\<rparr>"
  let ?cfg = "FromEnv (re_getenv ?env) (re_resolvConf ?env) ''dev''"
  obtain svc w b reader where 1: "buildService (re_libs ?env) ?cfg (Some (ex_kube [] [], ()))
      (re_cluster ?env) (re_now ?env) = Inr ((svc, w), b, reader)"
    "srv_dyn svc = Some ex_dyn" "w_cluster w = []"
    by (auto simp: buildService_def New_Service_def NewDynClient_def ex_libs_def ex_env_def Let_def)
  obtain srv where 2: "buildMCPServer (re_tools ?env) ''dev'' svc (sb_haveDyn b) (sb_haveStreams b) = Inr srv"
    using buildMCPServer_dom by metis
  have "buildTLSConfig (re_loadPair ?env) (re_readFile ?env) (re_pool ?env) no_tls = Inr None"
    by (simp add: buildTLSConfig_def no_tls_def)
  then have "\<exists>err st ops. run ?env '':8080'' grpcListen no_tls (''dev'', [], []) = (err, Some st, ops) \<and>
      st_service st = svc \<and> ap_world (st_app st) = w"
    using 1(1) 2 unfolding run_def Let_def by (simp add: ex_client split: option.split)
  with 1(2,3) that show thesis by blast
qed

lemma ex_process:
  obtains err st ops where "run (ex_env listen) '':8080'' grpcListen no_tls (''dev'', [], []) = (err, Some st, ops)"
    "srv_dyn (st_service st) = Some ex_dyn" "w_cluster (ap_world (st_app st)) = []"
proof -
  have "(ex_env listen)\<lparr>re_codec := re_codec (ex_env listen), re_tools := re_tools (ex_env listen)\<rparr> = ex_env listen" by simp
  note same = ex_process_with [of "re_tools (ex_env listen)" "re_codec (ex_env listen)" listen grpcListen, unfolded this]
  show thesis by (rule same) (rule that)
qed



end
