(* ===== verification/System.thy ===== *)
theory System
  imports Watches MainServer
begin

text \<open>
  The running process as a whole: the handler that \<open>run\<close> installs behind \<open>/mcp\<close>, and the process with its
  event streams open, as a transition system whose steps interleave freely: a request over HTTP, a
  client that opens or cancels an event stream, and a turn of the loop of a stream.
\<close>

section \<open>The tool behind the endpoint\<close>

text \<open>A call of \<open>resource_apply\<close> is a \<open>ResourceApply\<close> of the service.\<close>

lemma apply_call:
  assumes "broker_inv (w_audit w)" and "raw \<noteq> []" and "aj_apply (te_args k) raw = Inr args"
  obtains res out w' where
    "ResourceApply (k_codec (te_calls k)) (k_ua (te_calls k)) svc
       \<lparr>aq_Manifest = aa_Manifest args, aq_DryRun = aa_DryRun args, aq_Force = aa_Force args\<rparr> w = Some (res, w')"
    "th_Call (NewResourceApply k svc) raw w = (out, w')" "out \<notin> {CallPanic, CallHang}"
    "if apply_reached res then \<exists>ev. ae_Reason ev = ''ResourceApply'' \<and> apply_event_ok res ev \<and> audited ev w w'
     else isl res \<and> w' = w"
proof -
  obtain res w' where *: "ResourceApply (k_codec (te_calls k)) (k_ua (te_calls k)) svc
       \<lparr>aq_Manifest = aa_Manifest args, aq_DryRun = aa_DryRun args, aq_Force = aa_Force args\<rparr> w = Some (res, w')"
    "if apply_reached res then \<exists>ev. ae_Reason ev = ''ResourceApply'' \<and> apply_event_ok res ev \<and> audited ev w w'
     else isl res \<and> w' = w"
    using ResourceApply_sound [OF assms(1)] by metis
  have "parse_args ''parse args: '' \<lparr>aa_Manifest = [], aa_DryRun = False, aa_Force = False\<rparr> (aj_apply (te_args k)) raw = Inr args"
    using assms(2,3) by (simp add: parse_args_def)
  then have "\<exists>out. th_Call (NewResourceApply k svc) raw w = (out, w') \<and> out \<notin> {CallPanic, CallHang}"
    using *(1) by (cases res) (simp_all add: NewResourceApply_def ResourceApply_Call_def)
  with * that show thesis by blast
qed

lemma apply_registered:
  assumes "buildMCPServer k version svc True haveStreams = Inr srv"
  shows "sv_tools srv ''resource_apply'' = Some (NewResourceApply k svc)"
proof -
  have tools: "sv_tools srv = by_name (core_tools k svc) ++ by_name (resource_tools k svc) ++
       (if haveStreams then by_name (stream_tools k svc) else Map.empty)"
    by (rule buildMCPServer_ok [of k version svc True haveStreams]) (use assms in simp)
  have "''resource_apply'' \<notin> dom (by_name (stream_tools k svc))"
    unfolding dom_by_name stream_names by simp
  moreover have "by_name (resource_tools k svc) ''resource_apply'' = Some (NewResourceApply k svc)"
    by (simp add: by_name_def resource_tools_def NewResourceList_def NewResourceGet_def NewResourceApply_def)
  ultimately show ?thesis unfolding tools by (auto simp: map_add_Some_iff domIff)
qed

section \<open>The server that \<open>run\<close> starts\<close>

lemma mcp_answer:
  assumes "answer_ok jc r out" and "hr_path r = ''/mcp''"
  shows "case out of
      Served p \<Rightarrow> hs_status p \<in> {200, 202, 405}
    | ServePanic \<Rightarrow> False
    | ServeHang \<Rightarrow> \<exists>req p. jc_request jc (fst (capped_body (hr_body r))) (snd (capped_body (hr_body r))) = Inr req \<and>
        rq_Method req = ''tools/call'' \<and> jc_call_params jc (rq_Params req) = Inr p \<and> cp_Name p = ''stream_read''"
  using assms by (cases out) (simp_all add: answer_ok_def)

text \<open>Its answers to any sequence of requests.\<close>

lemma run_answers:
  assumes "run env httpListen grpcListen opts info = (err, Some st, ops)"
    and "serve_each (hv_Handler (st_http st)) rs (st_app st) = (outs, a)"
  obtains "list_all2 (answer_ok (re_codec env)) rs outs" "ap_journey a = ap_journey (st_app st)"
    "audit_grows (ap_world (st_app st)) (ap_world a)"
proof (rule run_started [OF assms(1)])
  fix kube w b reader srv tls
  assume service: "buildService (re_libs env) (FromEnv (re_getenv env) (re_resolvConf env) (fst info)) kube
      (re_cluster env) (re_now env) = Inr ((st_service st, w), b, reader)"
    and srv: "buildMCPServer (re_tools env) (fst info) (st_service st) (sb_haveDyn b) (sb_haveStreams b) = Inr srv"
    and http: "st_http st = buildHTTPServer httpListen (http_handlers env info (srv_cfg (st_service st)) srv)
      (start_journey (srv_cfg (st_service st)) (re_busConnect env) (re_busSubscribe env) \<noteq> None) tls"
    and w: "ap_world (st_app st) = w"
  have "broker_inv (w_audit (ap_world (st_app st)))" using buildService_Inr [OF service] by (simp add: w)
  from serve_each_answers [OF srv this assms(2) [unfolded http]] that show thesis by blast
qed

text \<open>Its MCP route, and the tool for applies of a process with a cluster.\<close>

lemma run_route:
  assumes "run env httpListen grpcListen opts info = (err, Some st, ops)" and "New_Client (re_kube env) = Inr kube"
    and "hr_path r = ''/mcp''"
  shows "\<exists>srv. (\<forall>a. hv_Handler (st_http st) r a =
      (case ServeHTTP (re_codec env) (re_sortTools env) (re_toolOrder env) srv r (ap_world a) of
         (out, w') \<Rightarrow> (map_served (\<lambda>h. page_of h []) out, a\<lparr>ap_world := w'\<rparr>))) \<and>
    sv_tools srv ''resource_apply'' = Some (NewResourceApply (re_tools env) (st_service st))"
proof (rule run_started [OF assms(1)])
  fix kube' w b reader srv tls
  assume kube: "kube' = (case New_Client (re_kube env) of Inl e \<Rightarrow> None | Inr c \<Rightarrow> Some c)"
    and service: "buildService (re_libs env) (FromEnv (re_getenv env) (re_resolvConf env) (fst info)) kube'
      (re_cluster env) (re_now env) = Inr ((st_service st, w), b, reader)"
    and srv: "buildMCPServer (re_tools env) (fst info) (st_service st) (sb_haveDyn b) (sb_haveStreams b) = Inr srv"
    and http: "st_http st = buildHTTPServer httpListen (http_handlers env info (srv_cfg (st_service st)) srv)
      (start_journey (srv_cfg (st_service st)) (re_busConnect env) (re_busSubscribe env) \<noteq> None) tls"
  have "sb_haveDyn b" using buildService_Inr [OF service] by (simp add: kube assms(2))
  then have "sv_tools srv ''resource_apply'' = Some (NewResourceApply (re_tools env) (st_service st))"
    using srv by (simp add: apply_registered)
  moreover have "he_mcp (http_handlers env info (srv_cfg (st_service st)) srv) =
      mcpHandler (re_codec env) (re_sortTools env) (re_toolOrder env) srv"
    by (simp add: http_handlers_def)
  note mcp_route [OF assms(3) this]
  ultimately show ?thesis unfolding http by blast
qed

text \<open>The broker of a process that has served some requests is sound.\<close>

lemma run_state_inv:
  assumes "run env httpListen grpcListen opts info = (err, Some st, ops)"
    and "serve_each (hv_Handler (st_http st)) rs (st_app st) = (outs, a)"
  shows "broker_inv (w_audit (ap_world a))"
  by (rule run_answers [OF assms]) (rule audit_grows_inv)

text \<open>An apply over HTTP in a process with a cluster.\<close>

lemma http_apply:
  assumes inv: "broker_inv (w_audit (ap_world a))" and "run env httpListen grpcListen opts info = (err, Some st, ops)" and "New_Client (re_kube env) = Inr kube"
    and "hr_path r = ''/mcp''" and "hr_method r = ''POST''"
    and "jc_request (re_codec env) (fst (capped_body (hr_body r))) (snd (capped_body (hr_body r))) = Inr req"
    and "rq_JSONRPC req = ''2.0''" and "rq_Method req = ''tools/call''"
    and "jc_call_params (re_codec env) (rq_Params req) = Inr p" and "cp_Name p = ''resource_apply''"
    and "cp_Arguments p \<noteq> []" and "aj_apply (te_args (re_tools env)) (cp_Arguments p) = Inr args"
  shows "\<exists>res w' page.
    ResourceApply (k_codec (te_calls (re_tools env))) (k_ua (te_calls (re_tools env))) (st_service st)
       \<lparr>aq_Manifest = aa_Manifest args, aq_DryRun = aa_DryRun args, aq_Force = aa_Force args\<rparr> (ap_world a)
      = Some (res, w') \<and>
    hv_Handler (st_http st) r a = (Served page, a\<lparr>ap_world := w'\<rparr>) \<and>
    hs_status page = (if isNotification req then 202 else 200) \<and>
    (if apply_reached res then \<exists>ev. ae_Reason ev = ''ResourceApply'' \<and> apply_event_ok res ev \<and> audited ev (ap_world a) w'
     else isl res \<and> w' = ap_world a)"
proof -
  obtain srv where route: "\<And>a'. hv_Handler (st_http st) r a' =
      (case ServeHTTP (re_codec env) (re_sortTools env) (re_toolOrder env) srv r (ap_world a') of
         (out, w') \<Rightarrow> (map_served (\<lambda>h. page_of h []) out, a'\<lparr>ap_world := w'\<rparr>))"
    and tool: "sv_tools srv ''resource_apply'' = Some (NewResourceApply (re_tools env) (st_service st))"
    using run_route [OF assms(2,3,4)] by blast
  show ?thesis
  proof (rule apply_call [OF inv assms(11,12), of "st_service st"])
    fix res out w'
    assume run: "ResourceApply (k_codec (te_calls (re_tools env))) (k_ua (te_calls (re_tools env))) (st_service st)
         \<lparr>aq_Manifest = aa_Manifest args, aq_DryRun = aa_DryRun args, aq_Force = aa_Force args\<rparr> (ap_world a)
        = Some (res, w')"
      and call: "th_Call (NewResourceApply (re_tools env) (st_service st)) (cp_Arguments p) (ap_world a) = (out, w')"
        "out \<notin> {CallPanic, CallHang}"
      and eff: "if apply_reached res then \<exists>ev. ae_Reason ev = ''ResourceApply'' \<and> apply_event_ok res ev \<and> audited ev (ap_world a) w'
        else isl res \<and> w' = ap_world a"
    have "\<exists>resp. Dispatch (re_codec env) (re_sortTools env) (re_toolOrder env) srv req (ap_world a) =
        (Replied resp (\<not> isNotification req), w')"
      using assms(8-10) call tool by (cases out) (simp_all add: Dispatch_def Let_def)
    then have "\<exists>h. ServeHTTP (re_codec env) (re_sortTools env) (re_toolOrder env) srv r (ap_world a) = (Served h, w') \<and>
        hs_status h = (if isNotification req then 202 else 200)"
      using assms(5-8) by (auto simp: ServeHTTP_def write_response_def case_prod_beta)
    then have "\<exists>page. hv_Handler (st_http st) r a = (Served page, a\<lparr>ap_world := w'\<rparr>) \<and>
        hs_status page = (if isNotification req then 202 else 200)"
      by (auto simp: route page_of_def)
    with run eff show ?thesis by blast
  qed
qed

section \<open>The process with its event streams\<close>

record open_stream =
  os_Req :: EventStreamRequest
  os_State :: stream_state
  os_Sub :: "nat option"
  os_Sent :: "EventStreamResponse list"

record 'c system =
  sy_app :: "'c app"
  sy_streams :: "nat \<rightharpoonup> open_stream"

datatype sys_label =
    Request http_request
  | OpenStream nat EventStreamRequest
  | AuditTurn nat
  | K8sTurn nat "k8s_event watch_event"
  | CancelStream nat
  | Tick gotime

text \<open>
  A turn of a stream whose client takes everything, on one event; the loop does not end in it. An audit
  turn needs an event in the queue of the stream: an empty queue blocks.
\<close>

definition stream_turn :: "ClusterRef \<Rightarrow> event_pick \<Rightarrow> open_stream \<Rightarrow> open_stream option" where
  "stream_turn cl pick strm =
     (case event_turn cl (eq_Kind (os_Req strm)) (os_State strm) pick of
        Next st \<Rightarrow> Some (strm\<lparr>os_State := st\<rparr>)
      | Emit st x fin \<Rightarrow> if fin then None else Some (strm\<lparr>os_State := st, os_Sent := os_Sent strm @ [x]\<rparr>)
      | _ \<Rightarrow> None)"

definition with_world :: "('c world \<Rightarrow> 'c world) \<Rightarrow> 'c system \<Rightarrow> 'c system" where
  "with_world f s = s\<lparr>sy_app := (sy_app s)\<lparr>ap_world := f (ap_world (sy_app s))\<rparr>\<rparr>"

fun sys_step :: "codec \<Rightarrow> ('c, 'tls) started \<Rightarrow> sys_label \<Rightarrow> 'c system \<Rightarrow> 'c system option" where
  "sys_step cd st (Request r) s = Some (s\<lparr>sy_app := snd (hv_Handler (st_http st) r (sy_app s))\<rparr>)"
| "sys_step cd st (OpenStream i req) s =
     (if sy_streams s i \<noteq> None then None
      else case EventStream_open cd (st_service st) req (ap_world (sy_app s)) of
        Inl e \<Rightarrow> Some s
      | Inr (state, sub, w) \<Rightarrow>
          Some (with_world (\<lambda>_. w) (s\<lparr>sy_streams := (sy_streams s)(i \<mapsto>
            \<lparr>os_Req = req, os_State = state, os_Sub = sub, os_Sent = []\<rparr>)\<rparr>)))"
| "sys_step cd st (AuditTurn i) s =
     Option.bind (sy_streams s i) (\<lambda>strm. Option.bind (os_Sub strm) (\<lambda>sub.
       case receive sub (w_audit (ap_world (sy_app s))) of
         (Received ev, b) \<Rightarrow>
           map_option (\<lambda>strm'. with_world (\<lambda>w. w\<lparr>w_audit := b\<rparr>) (s\<lparr>sy_streams := (sy_streams s)(i \<mapsto> strm')\<rparr>))
             (stream_turn (clusterRef (st_service st)) (EvAudit ev) strm)
       | _ \<Rightarrow> None))"
| "sys_step cd st (K8sTurn i ev) s =
     Option.bind (sy_streams s i) (\<lambda>strm.
       map_option (\<lambda>strm'. s\<lparr>sy_streams := (sy_streams s)(i \<mapsto> strm')\<rparr>)
         (stream_turn (clusterRef (st_service st)) (EvK8s ev) strm))"
| "sys_step cd st (CancelStream i) s =
     Option.bind (sy_streams s i) (\<lambda>strm.
       map_option (\<lambda>w. with_world (\<lambda>_. w) (s\<lparr>sy_streams := (sy_streams s)(i := None)\<rparr>))
         (EventStream_close (os_Sub strm) (ap_world (sy_app s))))"
| "sys_step cd st (Tick t) s = Some (with_world (\<lambda>w. w\<lparr>w_now := t\<rparr>) s)"

fun sys_run :: "codec \<Rightarrow> ('c, 'tls) started \<Rightarrow> sys_label list \<Rightarrow> 'c system \<Rightarrow> 'c system option" where
  "sys_run cd st [] s = Some s"
| "sys_run cd st (l # ls) s = Option.bind (sys_step cd st l s) (sys_run cd st ls)"

definition sys_start :: "('c, 'tls) started \<Rightarrow> 'c system" where
  "sys_start st = \<lparr>sy_app = st_app st, sy_streams = Map.empty\<rparr>"

text \<open>
  The invariant: the broker is sound, an open stream with a subscription is live in it and holds its
  channel, and no two streams share a subscription.
\<close>

definition sys_inv :: "'c system \<Rightarrow> bool" where
  "sys_inv s \<longleftrightarrow> broker_inv (w_audit (ap_world (sy_app s))) \<and>
     (\<forall>i strm sub. sy_streams s i = Some strm \<longrightarrow> os_Sub strm = Some sub \<longrightarrow>
        sub \<in> set (b_subs (w_audit (ap_world (sy_app s)))) \<and> es_auditCh (os_State strm)) \<and>
     (\<forall>i j strm strm' sub. sy_streams s i = Some strm \<longrightarrow> sy_streams s j = Some strm' \<longrightarrow>
        os_Sub strm = Some sub \<longrightarrow> os_Sub strm' = Some sub \<longrightarrow> i = j)"

abbreviation sys_broker :: "'c system \<Rightarrow> broker" where
  "sys_broker s \<equiv> w_audit (ap_world (sy_app s))"

text \<open>What the operations of the streams do to the other subscriptions of the broker.\<close>

lemma subscribe_effect:
  assumes "broker_inv b" and "Subscribe n b = (s, b')"
  shows "s \<notin> set (b_subs b)" "broker_inv b'" "set (b_subs b') = insert s (set (b_subs b))"
    "u \<in> set (b_subs b) \<Longrightarrow> b_chans b' u = b_chans b u"
proof -
  have "b_next b \<notin> set (b_subs b)" using broker_invD(2) [OF assms(1), of "b_next b"] by auto
  then show "s \<notin> set (b_subs b)" "broker_inv b'" "set (b_subs b') = insert s (set (b_subs b))"
    "u \<in> set (b_subs b) \<Longrightarrow> b_chans b' u = b_chans b u"
    using assms(2) Subscribe_inv [OF assms] by (auto simp: Subscribe_def Let_def)
qed

lemma cancel_effect:
  assumes "broker_inv b" and "cancel s b = Some b'"
  shows "broker_inv b'" "set (b_subs b') = set (b_subs b) - {s}" "u \<noteq> s \<Longrightarrow> b_chans b' u = b_chans b u"
  using assms broker_invD(1) [OF assms(1)] cancel_inv [OF assms]
  by (auto simp: cancel_eq [OF assms(1)] split: if_splits)

lemma receive_effect:
  assumes "broker_inv b" and "receive s b = (Received ev, b')"
  shows "broker_inv b'" "b_subs b' = b_subs b" "pending b s = ev # pending b' s" "u \<noteq> s \<Longrightarrow> b_chans b' u = b_chans b u"
  using assms(2) receive_inv [OF assms]
  by (auto simp: receive_def recv_chan_def split: list.splits prod.splits if_splits)

text \<open>A turn keeps the request and the subscription; what it sends is the event, when its kind passes.\<close>

definition audit_sent :: "open_stream \<Rightarrow> EventStreamResponse list" where
  "audit_sent strm = filter (\<lambda>x. er_Source x = ''audit'') (os_Sent strm)"

definition passes :: "open_stream \<Rightarrow> AuditEvent \<Rightarrow> bool" where
  "passes strm ev \<longleftrightarrow> eq_Kind (os_Req strm) = [] \<or> ae_InvolvedKind ev = eq_Kind (os_Req strm)"

lemma stream_turn_k8s:
  assumes "stream_turn cl (EvK8s ev) strm = Some strm'"
  shows "os_Req strm' = os_Req strm \<and> os_Sub strm' = os_Sub strm \<and> os_State strm' = os_State strm \<and>
    audit_sent strm' = audit_sent strm"
  using assms
  by (auto simp: stream_turn_def event_turn_def audit_sent_def buildK8sEvent_def Let_def split: option.splits if_splits)

lemma stream_turn_audit:
  assumes "es_auditCh (os_State strm)"
  shows "\<exists>strm'. stream_turn cl (EvAudit ev) strm = Some strm' \<and> os_Req strm' = os_Req strm \<and>
    os_Sub strm' = os_Sub strm \<and> os_State strm' = os_State strm \<and>
    audit_sent strm' = audit_sent strm @ map (buildAuditEvent cl) (filter (passes strm) [ev])"
  using assms by (auto simp: stream_turn_def event_turn_def audit_sent_def buildAuditEvent_def passes_def)

lemma passes_cong: "os_Req strm' = os_Req strm \<Longrightarrow> passes strm' = passes strm"
  by (simp add: passes_def fun_eq_iff)

text \<open>The handler of a process that \<open>run\<close> started at most adds to the queues of the broker.\<close>

definition handler_grows :: "('c, 'tls) started \<Rightarrow> bool" where
  "handler_grows st \<longleftrightarrow> (\<forall>r a. broker_inv (w_audit (ap_world a)) \<longrightarrow>
     audit_grows (ap_world a) (ap_world (snd (hv_Handler (st_http st) r a))))"

lemma run_handler_grows:
  assumes "run env httpListen grpcListen opts info = (err, Some st, ops)"
  shows "handler_grows st"
proof (rule run_started [OF assms])
  fix kube w b reader srv tls
  assume srv: "buildMCPServer (re_tools env) (fst info) (st_service st) (sb_haveDyn b) (sb_haveStreams b) = Inr srv"
    and http: "st_http st = buildHTTPServer httpListen (http_handlers env info (srv_cfg (st_service st)) srv)
      (start_journey (srv_cfg (st_service st)) (re_busConnect env) (re_busSubscribe env) \<noteq> None) tls"
  show ?thesis
    unfolding handler_grows_def http using handler_answers [OF srv _ surjective_pairing] by blast
qed

lemma run_broker_New:
  assumes "run env httpListen grpcListen opts info = (err, Some st, ops)"
  shows "w_audit (ap_world (st_app st)) = New"
  using assms by (rule run_started) (auto dest: buildService_Inr)

section \<open>The steps keep the invariant\<close>

lemma EventStream_open_cases:
  assumes "broker_inv (w_audit w)" and "EventStream_open cd svc req w = Inr (state, sub, w')"
  shows "broker_inv (w_audit w')" "w_now w' = w_now w" "set (b_subs (w_audit w)) \<subseteq> set (b_subs (w_audit w'))"
    "u \<in> set (b_subs (w_audit w)) \<Longrightarrow> b_chans (w_audit w') u = b_chans (w_audit w) u"
    "sub = Some u' \<Longrightarrow> u' \<notin> set (b_subs (w_audit w)) \<and> u' \<in> set (b_subs (w_audit w')) \<and> es_auditCh state"
  using assms subscribe_effect [OF assms(1)]
  by (auto simp: EventStream_open_def Let_def split: option.splits if_splits prod.splits)

lemma EventStream_close_cases:
  assumes "broker_inv (w_audit w)" and "EventStream_close sub w = Some w'"
  shows "broker_inv (w_audit w')" "u \<in> set (b_subs (w_audit w)) \<Longrightarrow> Some u \<noteq> sub \<Longrightarrow>
    u \<in> set (b_subs (w_audit w')) \<and> b_chans (w_audit w') u = b_chans (w_audit w) u"
  using assms cancel_effect [OF assms(1)] by (auto simp: EventStream_close_def split: option.splits)

lemma with_world_simps [simp]:
  "ap_world (sy_app (with_world f s)) = f (ap_world (sy_app s))" "sy_streams (with_world f s) = sy_streams s"
  by (simp_all add: with_world_def)

lemma sys_invD:
  assumes "sys_inv s"
  shows "broker_inv (sys_broker s)"
    "sy_streams s i = Some strm \<Longrightarrow> os_Sub strm = Some sub \<Longrightarrow> sub \<in> set (b_subs (sys_broker s)) \<and> es_auditCh (os_State strm)"
    "sy_streams s i = Some strm \<Longrightarrow> sy_streams s j = Some strm' \<Longrightarrow> os_Sub strm = Some sub \<Longrightarrow> os_Sub strm' = Some sub \<Longrightarrow> i = j"
  using assms unfolding sys_inv_def by blast+

text \<open>A step that changes one stream at most and keeps the other subscriptions keeps the invariant.\<close>

lemma sys_inv_update:
  assumes "sys_inv s" and "broker_inv (sys_broker s')"
    and "\<And>j strm sub. j \<noteq> i \<Longrightarrow> sy_streams s j = Some strm \<Longrightarrow> os_Sub strm = Some sub \<Longrightarrow> sub \<in> set (b_subs (sys_broker s'))"
    and "\<And>j. j \<noteq> i \<Longrightarrow> sy_streams s' j = sy_streams s j"
    and "\<And>strm sub. sy_streams s' i = Some strm \<Longrightarrow> os_Sub strm = Some sub \<Longrightarrow>
      sub \<in> set (b_subs (sys_broker s')) \<and> es_auditCh (os_State strm) \<and>
      (\<forall>j strm'. j \<noteq> i \<longrightarrow> sy_streams s j = Some strm' \<longrightarrow> os_Sub strm' \<noteq> Some sub)"
  shows "sys_inv s'"
  unfolding sys_inv_def
proof (intro conjI allI impI assms(2))
  fix j strm sub
  assume j: "sy_streams s' j = Some strm" "os_Sub strm = Some sub"
  then show "sub \<in> set (b_subs (sys_broker s'))" "es_auditCh (os_State strm)"
    using assms(3-5) sys_invD(2) [OF assms(1)] by (cases "j = i"; fastforce)+
next
  fix j k strm strm' sub
  assume j: "sy_streams s' j = Some strm" "sy_streams s' k = Some strm'" "os_Sub strm = Some sub" "os_Sub strm' = Some sub"
  then show "j = k"
    using assms(4,5) sys_invD(3) [OF assms(1)] by (cases "j = i"; cases "k = i") fastforce+
qed

text \<open>
  What a step does to an open stream with a subscription, unless it cancels it: an audit turn takes the
  head of its queue, which is sent when its kind passes; otherwise its queue may grow at the end.
\<close>

definition flows ::
  "ClusterRef \<Rightarrow> nat \<Rightarrow> open_stream \<Rightarrow> AuditEvent list \<Rightarrow> open_stream \<Rightarrow> AuditEvent list \<Rightarrow> bool" where
  "flows cl n strm queue strm' queue' \<longleftrightarrow> os_Req strm' = os_Req strm \<and> os_Sub strm' = os_Sub strm \<and>
     (\<exists>new. n \<le> length (queue @ new) \<and> queue' = drop n (queue @ new) \<and>
        audit_sent strm' = audit_sent strm @ map (buildAuditEvent cl) (filter (passes strm) (take n (queue @ new))))"

lemma flows_refl: "flows cl 0 strm queue strm queue"
  by (auto simp: flows_def intro: exI [of _ "[]"])

lemma flows_grow: "prefix queue queue' \<Longrightarrow> flows cl 0 strm queue strm queue'"
  by (auto simp: flows_def prefix_def)

lemma flows_trans:
  assumes "flows cl n strm queue strm1 queue1" and "flows cl m strm1 queue1 strm' queue'"
  shows "flows cl (n + m) strm queue strm' queue'"
proof -
  obtain new where 1: "n \<le> length (queue @ new)" "queue1 = drop n (queue @ new)"
    "audit_sent strm1 = audit_sent strm @ map (buildAuditEvent cl) (filter (passes strm) (take n (queue @ new)))"
    "os_Req strm1 = os_Req strm" "os_Sub strm1 = os_Sub strm" using assms(1) by (auto simp: flows_def)
  obtain new' where 2: "m \<le> length (queue1 @ new')" "queue' = drop m (queue1 @ new')"
    "audit_sent strm' = audit_sent strm1 @ map (buildAuditEvent cl) (filter (passes strm1) (take m (queue1 @ new')))"
    "os_Req strm' = os_Req strm1" "os_Sub strm' = os_Sub strm1" using assms(2) by (auto simp: flows_def)
  have join: "queue1 @ new' = drop n (queue @ new @ new')" using 1(1) by (simp add: 1(2))
  have "take (n + m) (queue @ new @ new') = take n (queue @ new) @ take m (queue1 @ new')"
    unfolding join take_add using 1(1) by simp
  moreover have "drop (n + m) (queue @ new @ new') = drop m (queue1 @ new')" unfolding join drop_drop by (simp only: add.commute)
  moreover have "n + m \<le> length (queue @ new @ new')" using 1(1) 2(1) unfolding join by simp
  ultimately show ?thesis
    using 1 2 unfolding flows_def by (intro conjI exI [of _ "new @ new'"]) (simp_all add: passes_cong [OF 1(4)])
qed

text \<open>The steps of a stream taken apart.\<close>

lemma sys_audit_turn:
  assumes "sys_step cd st (AuditTurn j) s = Some s'"
  obtains strm sub ev b strm' where "sy_streams s j = Some strm" "os_Sub strm = Some sub"
    "receive sub (sys_broker s) = (Received ev, b)" "stream_turn (clusterRef (st_service st)) (EvAudit ev) strm = Some strm'"
    "s' = with_world (\<lambda>w. w\<lparr>w_audit := b\<rparr>) (s\<lparr>sy_streams := (sy_streams s)(j \<mapsto> strm')\<rparr>)"
proof -
  obtain strm where strm: "sy_streams s j = Some strm" using assms by (cases "sy_streams s j") auto
  then obtain sub where sub: "os_Sub strm = Some sub" using assms by (cases "os_Sub strm") auto
  obtain r b where r: "receive sub (sys_broker s) = (r, b)" by fastforce
  then obtain ev where "r = Received ev" using assms strm sub by (cases r) auto
  with assms strm sub r that show thesis by auto
qed

lemma sys_step_flows:
  assumes "sys_inv s" and "handler_grows st" and "sys_step cd st l s = Some s'"
    and "sy_streams s i = Some strm" and "os_Sub strm = Some sub" and "l \<noteq> CancelStream i"
  shows "\<exists>strm'. sy_streams s' i = Some strm' \<and>
    flows (clusterRef (st_service st)) (if l = AuditTurn i then 1 else 0) strm (pending (sys_broker s) sub)
      strm' (pending (sys_broker s') sub)"
proof (cases l)
  case (Request r)
  then have "audit_grows (ap_world (sy_app s)) (ap_world (sy_app s'))" "sy_streams s' = sy_streams s"
    using assms(2,3) sys_invD(1) [OF assms(1)] by (auto simp: handler_grows_def)
  then show ?thesis using assms(4) Request by (auto simp: audit_grows_def intro: flows_grow)
next
  case (OpenStream j req)
  show ?thesis
  proof (cases "EventStream_open cd (st_service st) req (ap_world (sy_app s))")
    case (Inl e)
    then show ?thesis using assms(3,4) OpenStream by (auto intro: flows_refl split: if_splits)
  next
    case (Inr x)
    obtain state sub' w where x: "x = (state, sub', w)" by (cases x)
    have "b_chans (w_audit w) sub = b_chans (sys_broker s) sub"
      using EventStream_open_cases(4) [OF sys_invD(1) [OF assms(1)] Inr [unfolded x]] sys_invD(2) [OF assms(1,4,5)] by blast
    moreover have "sy_streams s j = None"
      "s' = with_world (\<lambda>_. w) (s\<lparr>sy_streams := (sy_streams s)(j \<mapsto> \<lparr>os_Req = req, os_State = state, os_Sub = sub', os_Sent = []\<rparr>)\<rparr>)"
      using assms(3) OpenStream Inr x by (auto split: if_splits)
    moreover from this have "j \<noteq> i" using assms(4) by auto
    ultimately show ?thesis using assms(4) OpenStream by (auto intro: flows_refl)
  qed
next
  case (AuditTurn j)
  obtain strm1 sub1 ev b strm2 where j: "sy_streams s j = Some strm1" "os_Sub strm1 = Some sub1"
    "receive sub1 (sys_broker s) = (Received ev, b)" "stream_turn (clusterRef (st_service st)) (EvAudit ev) strm1 = Some strm2"
    "s' = with_world (\<lambda>w. w\<lparr>w_audit := b\<rparr>) (s\<lparr>sy_streams := (sy_streams s)(j \<mapsto> strm2)\<rparr>)"
    using sys_audit_turn [OF assms(3) [unfolded AuditTurn]] by blast
  note eff = receive_effect [OF sys_invD(1) [OF assms(1)] j(3)]
  show ?thesis
  proof (cases "j = i")
    case True
    then have "strm1 = strm" "sub1 = sub" using j(1,2) assms(4,5) by auto
    moreover have "es_auditCh (os_State strm)" using sys_invD(2) [OF assms(1,4,5)] by blast
    from stream_turn_audit [OF this, of "clusterRef (st_service st)" ev]
    have "flows (clusterRef (st_service st)) 1 strm (ev # pending b sub) strm2 (pending b sub)"
      using j(4) calculation by (auto simp: flows_def intro: exI [of _ "[]"])
    ultimately show ?thesis using eff(3) True AuditTurn j(5) by auto
  next
    case False
    then have "sub1 \<noteq> sub" using sys_invD(3) [OF assms(1) j(1) assms(4) j(2)] assms(5) by blast
    then show ?thesis using eff(4) [of sub] False AuditTurn j(5) assms(4) by (auto intro: flows_refl)
  qed
next
  case (K8sTurn j ev)
  then obtain strm1 strm2 where j: "sy_streams s j = Some strm1"
    "stream_turn (clusterRef (st_service st)) (EvK8s ev) strm1 = Some strm2" "s' = s\<lparr>sy_streams := (sy_streams s)(j \<mapsto> strm2)\<rparr>"
    using assms(3) by (auto simp: bind_eq_Some_conv)
  show ?thesis
  proof (cases "j = i")
    case True
    then show ?thesis
      using j K8sTurn assms(4) stream_turn_k8s [OF j(2)] by (auto simp: flows_def intro: exI [of _ "[]"])
  qed (use j K8sTurn assms(4) in \<open>auto intro: flows_refl\<close>)
next
  case (CancelStream j)
  then obtain strm1 w where j: "sy_streams s j = Some strm1" "EventStream_close (os_Sub strm1) (ap_world (sy_app s)) = Some w"
    "s' = with_world (\<lambda>_. w) (s\<lparr>sy_streams := (sy_streams s)(j := None)\<rparr>)"
    using assms(3) by (auto simp: bind_eq_Some_conv)
  have "j \<noteq> i" using CancelStream assms(6) by auto
  then have "Some sub \<noteq> os_Sub strm1" using sys_invD(3) [OF assms(1) j(1) assms(4)] assms(5) by (cases "os_Sub strm1") auto
  then have "b_chans (w_audit w) sub = b_chans (sys_broker s) sub"
    using EventStream_close_cases(2) [OF sys_invD(1) [OF assms(1)] j(2)] sys_invD(2) [OF assms(1,4,5)] by blast
  then show ?thesis using j(3) \<open>j \<noteq> i\<close> CancelStream assms(4) by (auto intro: flows_refl)
next
  case (Tick t)
  then show ?thesis using assms(3,4) by (auto intro: flows_refl)
qed

lemma sys_step_inv:
  assumes "sys_inv s" and "handler_grows st" and "sys_step cd st l s = Some s'"
  shows "sys_inv s'"
proof (cases l)
  case (Request r)
  then have "audit_grows (ap_world (sy_app s)) (ap_world (sy_app s'))" "sy_streams s' = sy_streams s"
    using assms(2,3) sys_invD(1) [OF assms(1)] by (auto simp: handler_grows_def)
  then show ?thesis using assms(1) by (simp add: sys_inv_def audit_grows_def)
next
  case (OpenStream j req)
  show ?thesis
  proof (cases "EventStream_open cd (st_service st) req (ap_world (sy_app s))")
    case (Inl e)
    then show ?thesis using assms(1,3) OpenStream by (auto split: if_splits)
  next
    case (Inr x)
    obtain state sub' w where x: "x = (state, sub', w)" by (cases x)
    note op = EventStream_open_cases [OF sys_invD(1) [OF assms(1)] Inr [unfolded x]]
    have s': "sy_streams s j = None"
      "s' = with_world (\<lambda>_. w) (s\<lparr>sy_streams := (sy_streams s)(j \<mapsto> \<lparr>os_Req = req, os_State = state, os_Sub = sub', os_Sent = []\<rparr>)\<rparr>)"
      using assms(3) OpenStream Inr x by (auto split: if_splits)
    show ?thesis
      by (rule sys_inv_update [OF assms(1), of s' j]) (use op sys_invD(2) [OF assms(1)] s' in \<open>auto split: if_splits\<close>)
  qed
next
  case (AuditTurn j)
  obtain strm1 sub1 ev b strm2 where j: "sy_streams s j = Some strm1" "os_Sub strm1 = Some sub1"
    "receive sub1 (sys_broker s) = (Received ev, b)" "stream_turn (clusterRef (st_service st)) (EvAudit ev) strm1 = Some strm2"
    "s' = with_world (\<lambda>w. w\<lparr>w_audit := b\<rparr>) (s\<lparr>sy_streams := (sy_streams s)(j \<mapsto> strm2)\<rparr>)"
    using sys_audit_turn [OF assms(3) [unfolded AuditTurn]] by blast
  note eff = receive_effect [OF sys_invD(1) [OF assms(1)] j(3)]
  have live: "sub1 \<in> set (b_subs (sys_broker s)) \<and> es_auditCh (os_State strm1)" by (rule sys_invD(2) [OF assms(1) j(1,2)])
  with stream_turn_audit j(4) have strm2: "os_Sub strm2 = os_Sub strm1" "os_State strm2 = os_State strm1"
    by (metis option.inject)+
  show ?thesis
    by (rule sys_inv_update [OF assms(1), of s' j])
      (use eff(1,2) live strm2 j sys_invD(2,3) [OF assms(1)] in \<open>auto\<close>)
next
  case (K8sTurn j ev)
  then obtain strm1 strm2 where j: "sy_streams s j = Some strm1"
    "stream_turn (clusterRef (st_service st)) (EvK8s ev) strm1 = Some strm2" "s' = s\<lparr>sy_streams := (sy_streams s)(j \<mapsto> strm2)\<rparr>"
    using assms(3) by (auto simp: bind_eq_Some_conv)
  show ?thesis
  proof (rule sys_inv_update [OF assms(1), of s' j])
    fix strm sub assume "sy_streams s' j = Some strm" "os_Sub strm = Some sub"
    then have "os_Sub strm1 = Some sub" "os_State strm = os_State strm1" using j(3) stream_turn_k8s [OF j(2)] by auto
    with sys_invD(2,3) [OF assms(1) j(1)] j(3)
    show "sub \<in> set (b_subs (sys_broker s')) \<and> es_auditCh (os_State strm) \<and>
      (\<forall>k strm'. k \<noteq> j \<longrightarrow> sy_streams s k = Some strm' \<longrightarrow> os_Sub strm' \<noteq> Some sub)" by auto
  qed (use j(3) sys_invD(1,2) [OF assms(1)] in auto)
next
  case (CancelStream j)
  then obtain strm1 w where j: "sy_streams s j = Some strm1" "EventStream_close (os_Sub strm1) (ap_world (sy_app s)) = Some w"
    "s' = with_world (\<lambda>_. w) (s\<lparr>sy_streams := (sy_streams s)(j := None)\<rparr>)"
    using assms(3) by (auto simp: bind_eq_Some_conv)
  note cl = EventStream_close_cases [OF sys_invD(1) [OF assms(1)] j(2)]
  show ?thesis
  proof (rule sys_inv_update [OF assms(1), of s' j])
    fix k strm sub
    assume k: "k \<noteq> j" "sy_streams s k = Some strm" "os_Sub strm = Some sub"
    then have "Some sub \<noteq> os_Sub strm1" using sys_invD(3) [OF assms(1) k(2) j(1)] by (cases "os_Sub strm1") auto
    then show "sub \<in> set (b_subs (sys_broker s'))"
      using cl(2) sys_invD(2) [OF assms(1) k(2,3)] j(3) by auto
  qed (use cl(1) j(3) in auto)
next
  case (Tick t)
  then show ?thesis using assms(1,3) by (auto simp: sys_inv_def)
qed

lemma sys_run_flows:
  assumes "sys_inv s" and "handler_grows st" and "sys_run cd st ls s = Some s'"
    and "sy_streams s i = Some strm" and "os_Sub strm = Some sub" and "CancelStream i \<notin> set ls"
  shows "\<exists>strm'. sy_streams s' i = Some strm' \<and>
    flows (clusterRef (st_service st)) (count_list ls (AuditTurn i)) strm (pending (sys_broker s) sub)
      strm' (pending (sys_broker s') sub)"
  using assms(1,3-6)
proof (induction ls arbitrary: s strm)
  case (Cons l ls)
  obtain s1 where 1: "sys_step cd st l s = Some s1" "sys_run cd st ls s1 = Some s'"
    using Cons.prems(2) by (auto simp: bind_eq_Some_conv)
  obtain strm1 where strm1: "sy_streams s1 i = Some strm1"
    "flows (clusterRef (st_service st)) (if l = AuditTurn i then 1 else 0) strm (pending (sys_broker s) sub)
      strm1 (pending (sys_broker s1) sub)"
    using sys_step_flows [OF Cons.prems(1) assms(2) 1(1) Cons.prems(3,4)] Cons.prems(5) by auto
  then have "os_Sub strm1 = Some sub" using Cons.prems(4) by (simp add: flows_def)
  moreover have "CancelStream i \<notin> set ls" using Cons.prems(5) by simp
  ultimately obtain strm' where "sy_streams s' i = Some strm'"
    "flows (clusterRef (st_service st)) (count_list ls (AuditTurn i)) strm1 (pending (sys_broker s1) sub)
      strm' (pending (sys_broker s') sub)"
    using Cons.IH [OF sys_step_inv [OF Cons.prems(1) assms(2) 1(1)] 1(2) strm1(1)] by blast
  with flows_trans [OF strm1(2) this(2)] show ?case by (simp add: add.commute split: if_splits)
qed (auto intro: flows_refl)

lemma sys_run_inv:
  assumes "handler_grows st" and "sys_inv s" and "sys_run cd st ls s = Some s'"
  shows "sys_inv s'"
  using assms(2,3)
proof (induction ls arbitrary: s)
  case (Cons l ls)
  then obtain s1 where "sys_step cd st l s = Some s1" "sys_run cd st ls s1 = Some s'" by (auto simp: bind_eq_Some_conv)
  with Cons.IH sys_step_inv [OF Cons.prems(1) assms(1)] show ?case by blast
qed simp

lemma sys_start_inv:
  assumes "run env httpListen grpcListen opts info = (err, Some st, ops)"
  shows "sys_inv (sys_start st)"
  by (simp add: sys_inv_def sys_start_def run_broker_New [OF assms])

section \<open>Properties\<close>

text \<open>
  C3. An apply of one client reaches the event streams of the others, whatever else goes on. In a process
  that \<open>run\<close> started, with any streams open, let a POST to \<open>/mcp\<close> carry an apply that succeeds, and let an
  audit stream whose filter passes its kind have room. However requests, stream openings, cancellations
  and turns interleave afterwards, once that stream has taken as many turns as its queue was long, and
  one, it has sent its client the event with the object of the response, or its client has cancelled.
\<close>

theorem apply_reaches_stream:
  assumes "run env httpListen grpcListen opts info = (err, Some st, ops)" and "New_Client (re_kube env) = Inr kube"
    and "sys_run cd st before (sys_start st) = Some s"
    and "sy_streams s i = Some strm" and "os_Sub strm = Some sub" and "0 < space (sys_broker s) sub"
    and "hr_path r = ''/mcp''" and "hr_method r = ''POST''"
    and "jc_request (re_codec env) (fst (capped_body (hr_body r))) (snd (capped_body (hr_body r))) = Inr req"
    and "rq_JSONRPC req = ''2.0''" and "rq_Method req = ''tools/call''"
    and "jc_call_params (re_codec env) (rq_Params req) = Inr p" and "cp_Name p = ''resource_apply''"
    and "cp_Arguments p \<noteq> []" and "aj_apply (te_args (re_tools env)) (cp_Arguments p) = Inr args"
    and "ResourceApply (k_codec (te_calls (re_tools env))) (k_ua (te_calls (re_tools env))) (st_service st)
       \<lparr>aq_Manifest = aa_Manifest args, aq_DryRun = aa_DryRun args, aq_Force = aa_Force args\<rparr> (ap_world (sy_app s))
      = Some (Inr answer, w)"
    and "eq_Kind (os_Req strm) \<in> {[], ar_Kind answer}"
    and "sys_run cd st (Request r # after) s = Some s'" and "CancelStream i \<notin> set after"
    and "length (pending (sys_broker s) sub) < count_list after (AuditTurn i)"
  shows "\<exists>strm'. sy_streams s' i = Some strm' \<and>
    (\<exists>x \<in> set (os_Sent strm'). er_Source x = ''audit'' \<and> er_Reason x = ''ResourceApply'' \<and>
       er_Cluster x = clusterRef (st_service st) \<and> er_InvolvedKind x = ar_Kind answer \<and>
       er_InvolvedName x = ar_Name answer \<and> er_InvolvedNamespace x = ar_Namespace answer)"
proof -
  let ?q = "pending (sys_broker s) sub"
  have grows: "handler_grows st" by (rule run_handler_grows [OF assms(1)])
  have inv: "sys_inv s" by (rule sys_run_inv [OF grows sys_start_inv [OF assms(1)] assms(3)])
  obtain page ev where step: "hv_Handler (st_http st) r (sy_app s) = (Served page, (sy_app s)\<lparr>ap_world := w\<rparr>)"
    and ev: "ae_Reason ev = ''ResourceApply''" "apply_event_ok (Inr answer) ev" "audited ev (ap_world (sy_app s)) w"
    using http_apply [OF sys_invD(1) [OF inv] assms(1,2,7-15)] assms(16) by auto
  define s1 where "s1 = s\<lparr>sy_app := (sy_app s)\<lparr>ap_world := w\<rparr>\<rparr>"
  have s1: "sys_step cd st (Request r) s = Some s1" by (simp add: step s1_def)
  then have run: "sys_run cd st after s1 = Some s'" using assms(18) by simp
  let ?ev = "stamp (w_now (ap_world (sy_app s))) ev"
  have queue: "pending (sys_broker s1) sub = ?q @ [?ev]"
    using ev(3) sys_invD(2) [OF inv assms(4,5)] assms(6) by (simp add: s1_def audited_def)
  have "sy_streams s1 i = Some strm" using assms(4) by (simp add: s1_def)
  from sys_run_flows [OF sys_step_inv [OF inv grows s1] grows run this assms(5,19)]
  obtain strm' new where strm': "sy_streams s' i = Some strm'" and sent:
    "audit_sent strm' = audit_sent strm @ map (buildAuditEvent (clusterRef (st_service st)))
       (filter (passes strm) (take (count_list after (AuditTurn i)) (?q @ ?ev # new)))"
    unfolding queue by (auto simp: flows_def)
  have "passes strm ?ev" using assms(17) ev(2) by (auto simp: passes_def stamp_def)
  moreover have "?ev \<in> set (take (count_list after (AuditTurn i)) (?q @ ?ev # new))"
    using assms(20) by (auto simp: take_Cons')
  ultimately have "buildAuditEvent (clusterRef (st_service st)) ?ev \<in> set (audit_sent strm')" unfolding sent by auto
  then have "buildAuditEvent (clusterRef (st_service st)) ?ev \<in> set (os_Sent strm')" by (simp add: audit_sent_def)
  with strm' ev(1,2) show ?thesis
    by (intro exI [of _ strm'] conjI bexI [of _ "buildAuditEvent (clusterRef (st_service st)) ?ev"])
      (simp_all add: buildAuditEvent_def stamp_def)
qed

section \<open>Witnesses\<close>

definition ex_post :: http_request where
  "ex_post = \<lparr>hr_method = ''POST'', hr_path = ''/mcp'', hr_body = ''R''\<rparr>"

definition ex_get :: http_request where
  "ex_get = \<lparr>hr_method = ''GET'', hr_path = ''/journey'', hr_body = []\<rparr>"

lemma ex_http_simps:
  "hr_path ex_post = ''/mcp''" "hr_method ex_post = ''POST''" "re_codec (ex_env listen) = ex_apply_codec"
  "jc_request ex_apply_codec b over = Inr ex_apply_request"
  "jc_call_params ex_apply_codec ps = Inr \<lparr>cp_Name = ''resource_apply'', cp_Arguments = ''a''\<rparr>"
  "rq_JSONRPC ex_apply_request = ''2.0''" "rq_Method ex_apply_request = ''tools/call''"
  "\<not> isNotification ex_apply_request" "re_tools (ex_env listen) = ex_tool_env"
  "aj_apply (te_args ex_tool_env) b = Inr \<lparr>aa_Manifest = b, aa_DryRun = False, aa_Force = False\<rparr>"
  "k_codec (te_calls ex_tool_env) = ex_codec_of" "k_ua (te_calls ex_tool_env) = ex_unstructured"
  by (simp_all add: ex_post_def ex_env_def ex_apply_codec_def ex_apply_request_def isNotification_def ex_tool_env_def
      ex_args_json_def)

lemma ex_process_inv:
  assumes "run (ex_env listen) a b c d = (err, Some st, ops)"
  shows "broker_inv (w_audit (ap_world (st_app st)))"
  by (simp add: run_broker_New [OF assms])

text \<open>An audit turn is enabled whenever the queue of the stream has an event.\<close>

lemma audit_turn_enabled:
  assumes "sys_inv s" and "sy_streams s i = Some strm" and "os_Sub strm = Some sub" and "pending (sys_broker s) sub \<noteq> []"
  shows "\<exists>s'. sys_step cd st (AuditTurn i) s = Some s'"
proof -
  obtain ev q where q: "pending (sys_broker s) sub = ev # q" using assms(4) by (cases "pending (sys_broker s) sub") auto
  have "es_auditCh (os_State strm)" using sys_invD(2) [OF assms(1-3)] by blast
  from stream_turn_audit [OF this, of "clusterRef (st_service st)" ev] show ?thesis
    using assms(2,3) by (auto simp: receive_def recv_chan_def q)
qed

lemma apply_reaches_stream_witness:
  "\<exists>err st ops s s' strm'.
     run (ex_env None) '':8080'' '':9443'' no_tls (''dev'', [], []) = (err, Some st, ops) \<and>
     sys_run ex_codec_of st [OpenStream 0 \<lparr>eq_Namespace = [], eq_Kind = [], eq_Source = ''audit''\<rparr>] (sys_start st) = Some s \<and>
     sys_run ex_codec_of st [Request ex_post, Tick zero_time, AuditTurn 0] s = Some s' \<and>
     sy_streams s' 0 = Some strm' \<and> (\<exists>x \<in> set (os_Sent strm'). er_Source x = ''audit'' \<and> er_Reason x = ''ResourceApply'')"
proof -
  let ?req = "\<lparr>eq_Namespace = [], eq_Kind = [], eq_Source = ''audit''\<rparr>"
  obtain err st ops where run: "run (ex_env None) '':8080'' '':9443'' no_tls (''dev'', [], []) = (err, Some st, ops)"
    and svc: "srv_dyn (st_service st) = Some ex_dyn" "w_cluster (ap_world (st_app st)) = []"
    by (rule ex_process)
  have grows: "handler_grows st" by (rule run_handler_grows [OF run])
  let ?w = "ap_world (st_app st)"
  obtain sub b where sub: "Subscribe 0 (w_audit ?w) = (sub, b)" by fastforce
  have "ToLower ex_codec_of ''audit'' = ''audit''" by (simp add: ToLower_def)
  then have op: "EventStream_open ex_codec_of (st_service st) ?req ?w =
      Inr (\<lparr>es_k8sCh = False, es_auditCh = True\<rparr>, Some sub, ?w\<lparr>w_audit := b\<rparr>)"
    by (simp add: EventStream_open_def sub)
  let ?strm = "\<lparr>os_Req = ?req, os_State = \<lparr>es_k8sCh = False, es_auditCh = True\<rparr>, os_Sub = Some sub, os_Sent = []\<rparr>"
  obtain s where s: "sys_run ex_codec_of st [OpenStream 0 ?req] (sys_start st) = Some s" "sy_streams s 0 = Some ?strm"
    "ap_world (sy_app s) = ?w\<lparr>w_audit := b\<rparr>"
    by (simp add: sys_start_def op)
  have inv: "sys_inv s" by (rule sys_run_inv [OF grows sys_start_inv [OF run] s(1)])
  have q: "pending b sub = []" "space b sub = 64"
    using sub by (auto simp: run_broker_New [OF run] Subscribe_def New_def defaultBufSize_def)
  obtain res w where res: "ResourceApply ex_codec_of ex_unstructured (st_service st) (ex_apply ''a'' False)
      (ap_world (sy_app s)) = Some (Inr res, w)"
    by (rule ex_apply_run [OF svc(1), of "ap_world (sy_app s)"]) (use sys_invD(1) [OF inv] s(3) svc(2) in simp_all)
  have args: "re_tools (ex_env None) = ex_tool_env" "k_codec (te_calls ex_tool_env) = ex_codec_of"
    "k_ua (te_calls ex_tool_env) = ex_unstructured" "isNotification ex_apply_request = False"
    using ex_http_simps by simp_all
  note request = ex_http_simps(1,2) ex_http_simps(4) [folded ex_http_simps(3) [of None]] ex_http_simps(6,7)
    ex_http_simps(5) [folded ex_http_simps(3) [of None]]
  let ?args = "\<lparr>aa_Manifest = ''a'', aa_DryRun = False, aa_Force = False\<rparr>"
  have call: "ResourceApply (k_codec (te_calls (re_tools (ex_env None)))) (k_ua (te_calls (re_tools (ex_env None))))
      (st_service st) \<lparr>aq_Manifest = aa_Manifest ?args, aq_DryRun = aa_DryRun ?args, aq_Force = aa_Force ?args\<rparr> (ap_world (sy_app s)) = Some (Inr res, w)"
    using res by (simp add: args ex_apply_def)
  obtain page ev where step: "hv_Handler (st_http st) ex_post (sy_app s) = (Served page, (sy_app s)\<lparr>ap_world := w\<rparr>)"
    and ev: "audited ev (ap_world (sy_app s)) w"
    using http_apply [OF sys_invD(1) [OF inv] run ex_client request, of ?args]
      call by (auto simp: ex_http_simps)
  define s1 where "s1 = with_world (\<lambda>w. w\<lparr>w_now := zero_time\<rparr>) (s\<lparr>sy_app := (sy_app s)\<lparr>ap_world := w\<rparr>\<rparr>)"
  have s1: "sys_run ex_codec_of st [Request ex_post, Tick zero_time] s = Some s1" by (simp add: step s1_def)
  have "pending (sys_broker s1) sub \<noteq> []" "sy_streams s1 0 = Some ?strm"
    using ev sys_invD(2) [OF inv s(2)] q s(2,3) by (simp_all add: s1_def audited_def)
  then obtain s' where "sys_step ex_codec_of st (AuditTurn 0) s1 = Some s'"
    using audit_turn_enabled [OF sys_run_inv [OF grows inv s1]] by fastforce
  then have s': "sys_run ex_codec_of st [Request ex_post, Tick zero_time, AuditTurn 0] s = Some s'" using s1 by simp
  have "\<exists>strm'. sy_streams s' 0 = Some strm' \<and>
    (\<exists>x \<in> set (os_Sent strm'). er_Source x = ''audit'' \<and> er_Reason x = ''ResourceApply'' \<and>
       er_Cluster x = clusterRef (st_service st) \<and> er_InvolvedKind x = ar_Kind res \<and>
       er_InvolvedName x = ar_Name res \<and> er_InvolvedNamespace x = ar_Namespace res)"
    by (rule apply_reaches_stream [OF run ex_client s(1,2) _ _ request _ _ _ call _ s'])
      (use s(3) q in \<open>simp_all add: ex_http_simps\<close>)
  with run s(1) s' show ?thesis by blast
qed

end
