(* ===== verification/JsonText.thy ===== *)
theory JsonText
  imports GoStrings
begin

text \<open>
  The syntax of \<open>encoding/json\<close>: its scanner, which reads a text byte by byte with a stack of the open
  containers, and the values it reads. A value keeps its own text, as \<open>json.RawMessage\<close> needs it. The
  grammar of JSON says which values are the reading of their text; the scanner accepts exactly that.
\<close>

section \<open>Values\<close>

text \<open>A literal or number, a string literal with its quotes, and the two containers with their text.\<close>

datatype jval =
    VLit string
  | VText string
  | VArr string "jval list"
  | VObj string "(string \<times> jval) list"

fun text_of :: "jval \<Rightarrow> string" where
  "text_of (VLit r) = r"
| "text_of (VText r) = r"
| "text_of (VArr r vs) = r"
| "text_of (VObj r ms) = r"

section \<open>Tokens\<close>

text \<open>The states inside a word, a string and a number; \<open>TkWord w rest\<close> still expects \<open>rest\<close>.\<close>

datatype tok =
    TkWord string string
  | TkStr | TkEsc | TkHex nat | TkClosed
  | TkNeg | TkZero | TkInt | TkDot | TkFrac | TkExp | TkSign | TkPow

definition is_dec :: "char \<Rightarrow> bool" where
  "is_dec c \<longleftrightarrow> 48 \<le> byte c \<and> byte c \<le> 57"

definition is_hexit :: "char \<Rightarrow> bool" where
  "is_hexit c \<longleftrightarrow> is_hex c \<or> (65 \<le> byte c \<and> byte c \<le> 70)"

definition is_ws :: "char \<Rightarrow> bool" where
  "is_ws c \<longleftrightarrow> c = CHR '' '' \<or> c = CHR 0x09 \<or> c = CHR 0x0A \<or> c = CHR 0x0D"

definition tok_start :: "char \<Rightarrow> tok option" where
  "tok_start c =
     (if c = CHR 0x22 then Some TkStr
      else if c = CHR ''-'' then Some TkNeg
      else if c = CHR ''0'' then Some TkZero
      else if is_dec c then Some TkInt
      else if c = CHR ''t'' then Some (TkWord ''true'' ''rue'')
      else if c = CHR ''f'' then Some (TkWord ''false'' ''alse'')
      else if c = CHR ''n'' then Some (TkWord ''null'' ''ull'')
      else None)"

definition exp_or :: "char \<Rightarrow> tok option \<Rightarrow> tok option" where
  "exp_or c other = (if c = CHR ''e'' \<or> c = CHR ''E'' then Some TkExp else other)"

fun tok_next :: "tok \<Rightarrow> char \<Rightarrow> tok option" where
  "tok_next (TkWord w []) c = None"
| "tok_next (TkWord w (x # xs)) c = (if c = x then Some (TkWord w xs) else None)"
| "tok_next TkStr c =
     (if c = CHR 0x22 then Some TkClosed else if c = CHR 0x5C then Some TkEsc
      else if byte c < 0x20 then None else Some TkStr)"
| "tok_next TkEsc c =
     (if c \<in> set ''bfnrt/'' \<union> {CHR 0x5C, CHR 0x22} then Some TkStr
      else if c = CHR ''u'' then Some (TkHex 0) else None)"
| "tok_next (TkHex n) c = (if is_hexit c then Some (if n < 3 then TkHex (Suc n) else TkStr) else None)"
| "tok_next TkClosed c = None"
| "tok_next TkNeg c = (if c = CHR ''0'' then Some TkZero else if is_dec c then Some TkInt else None)"
| "tok_next TkZero c = (if c = CHR ''.'' then Some TkDot else exp_or c None)"
| "tok_next TkInt c = (if is_dec c then Some TkInt else if c = CHR ''.'' then Some TkDot else exp_or c None)"
| "tok_next TkDot c = (if is_dec c then Some TkFrac else None)"
| "tok_next TkFrac c = (if is_dec c then Some TkFrac else exp_or c None)"
| "tok_next TkExp c =
     (if c = CHR ''+'' \<or> c = CHR ''-'' then Some TkSign else if is_dec c then Some TkPow else None)"
| "tok_next TkSign c = (if is_dec c then Some TkPow else None)"
| "tok_next TkPow c = (if is_dec c then Some TkPow else None)"

text \<open>A token that is complete whatever follows, and one that may end here.\<close>

fun tok_closed :: "tok \<Rightarrow> bool" where
  "tok_closed (TkWord w []) = True"
| "tok_closed TkClosed = True"
| "tok_closed _ = False"

definition tok_number :: "tok \<Rightarrow> bool" where
  "tok_number t \<longleftrightarrow> t \<in> {TkZero, TkInt, TkFrac, TkPow}"

definition tok_value :: "tok \<Rightarrow> string \<Rightarrow> jval" where
  "tok_value t text = (if t = TkClosed then VText text else VLit text)"

text \<open>The context named in the error for a byte that does not fit.\<close>

fun tok_context :: "tok \<Rightarrow> string" where
  "tok_context (TkWord w (x # xs)) = ''in literal '' @ w @ '' (expecting '' @ [CHR 0x27, x, CHR 0x27] @ '')''"
| "tok_context TkStr = ''in string literal''"
| "tok_context TkEsc = ''in string escape code''"
| "tok_context (TkHex n) = ''in '' @ [CHR 0x5C] @ ''u hexadecimal character escape''"
| "tok_context TkNeg = ''in numeric literal''"
| "tok_context TkDot = ''after decimal point in numeric literal''"
| "tok_context TkExp = ''in exponent of numeric literal''"
| "tok_context TkSign = ''in exponent of numeric literal''"
| "tok_context _ = []"

section \<open>The scanner\<close>

text \<open>
  The open containers, each with its text so far: an array, an object before a key or after a pair, an
  object with a key. The phase says what is expected next; \<open>PTop v\<close> is a scalar that is complete.
\<close>

datatype frame =
    FArr string "jval list"
  | FKey string "(string \<times> jval) list"
  | FVal string "(string \<times> jval) list" string

datatype phase = PValue | PValueOrEnd | PKey | PKeyOrEnd | PColon | PAfter | PTok tok string | PTop jval

fun add_text :: "string \<Rightarrow> frame list \<Rightarrow> frame list" where
  "add_text w [] = []"
| "add_text w (FArr r vs # stk) = FArr (r @ w) vs # stk"
| "add_text w (FKey r ms # stk) = FKey (r @ w) ms # stk"
| "add_text w (FVal r ms k # stk) = FVal (r @ w) ms k # stk"

fun put_value :: "jval \<Rightarrow> frame list \<Rightarrow> frame list" where
  "put_value v (FArr r vs # stk) = FArr (r @ text_of v) (vs @ [v]) # stk"
| "put_value v (FVal r ms k # stk) = FKey (r @ text_of v) (ms @ [(k, v)]) # stk"
| "put_value v stk = stk"

text \<open>
  What one byte does: go on, complete the text with this byte or before it, or a byte that is out of
  place, with the context of the error.
\<close>

datatype scan_step = GoOn phase "frame list" | Whole jval | WholeBefore jval | BadByte char string

definition maxNestingDepth :: nat where "maxNestingDepth = 10000"

definition close_value :: "jval \<Rightarrow> frame list \<Rightarrow> scan_step" where
  "close_value v stk = (if stk = [] then Whole v else GoOn PAfter (put_value v stk))"

definition open_frame :: "char \<Rightarrow> phase \<Rightarrow> frame \<Rightarrow> frame list \<Rightarrow> scan_step" where
  "open_frame c ph f stk =
     (if length stk < maxNestingDepth then GoOn ph (f # stk) else BadByte c ''exceeded max depth'')"

definition step_value :: "frame list \<Rightarrow> char \<Rightarrow> scan_step" where
  "step_value stk c =
     (if c = CHR ''{'' then open_frame c PKeyOrEnd (FKey ''{'' []) stk
      else if c = CHR ''['' then open_frame c PValueOrEnd (FArr ''['' []) stk
      else case tok_start c of
        Some t \<Rightarrow> GoOn (PTok t [c]) stk
      | None \<Rightarrow> BadByte c ''looking for beginning of value'')"

definition step_key :: "frame list \<Rightarrow> char \<Rightarrow> scan_step" where
  "step_key stk c =
     (if c = CHR 0x22 then GoOn (PTok TkStr [c]) stk
      else BadByte c ''looking for beginning of object key string'')"

fun step_after :: "frame list \<Rightarrow> char \<Rightarrow> scan_step" where
  "step_after (FArr r vs # stk) c =
     (if c = CHR '','' then GoOn PValue (FArr (r @ '','') vs # stk)
      else if c = CHR '']'' then close_value (VArr (r @ '']'') vs) stk
      else BadByte c ''after array element'')"
| "step_after (FKey r ms # stk) c =
     (if c = CHR '','' then GoOn PKey (FKey (r @ '','') ms # stk)
      else if c = CHR ''}'' then close_value (VObj (r @ ''}'') ms) stk
      else BadByte c ''after object key:value pair'')"
| "step_after stk c = BadByte c ''after top-level value''"

definition end_token :: "tok \<Rightarrow> string \<Rightarrow> frame list \<Rightarrow> phase \<times> frame list" where
  "end_token t text stk =
     (case stk of
        [] \<Rightarrow> (PTop (tok_value t text), [])
      | FKey r ms # stk' \<Rightarrow> (PColon, FVal (r @ text) ms text # stk')
      | _ \<Rightarrow> (PAfter, put_value (tok_value t text) stk))"

text \<open>A byte that is no white space, between tokens; a byte inside a token; any byte.\<close>

fun step_between :: "phase \<Rightarrow> frame list \<Rightarrow> char \<Rightarrow> scan_step" where
  "step_between PValue stk c = step_value stk c"
| "step_between PValueOrEnd stk c = (if c = CHR '']'' then step_after stk c else step_value stk c)"
| "step_between PKey stk c = step_key stk c"
| "step_between PKeyOrEnd stk c = (if c = CHR ''}'' then step_after stk c else step_key stk c)"
| "step_between PColon stk c =
     (if c = CHR '':'' then GoOn PValue (add_text [c] stk) else BadByte c ''after object key'')"
| "step_between _ stk c = step_after stk c"

definition step_space :: "phase \<Rightarrow> frame list \<Rightarrow> char \<Rightarrow> scan_step" where
  "step_space ph stk c = (if is_ws c then GoOn ph (add_text [c] stk) else step_between ph stk c)"

definition step_token :: "tok \<Rightarrow> string \<Rightarrow> frame list \<Rightarrow> char \<Rightarrow> scan_step" where
  "step_token t text stk c =
     (case tok_next t c of
        Some t' \<Rightarrow>
          if tok_closed t' then (case end_token t' (text @ [c]) stk of (ph, stk') \<Rightarrow> GoOn ph stk')
          else GoOn (PTok t' (text @ [c])) stk
      | None \<Rightarrow>
          if \<not> tok_number t then BadByte c (tok_context t)
          else if stk = [] then WholeBefore (tok_value t text)
          else step_space PAfter (put_value (tok_value t text) stk) c)"

definition json_step :: "phase \<Rightarrow> frame list \<Rightarrow> char \<Rightarrow> scan_step" where
  "json_step ph stk c =
     (case ph of PTop v \<Rightarrow> WholeBefore v | PTok t text \<Rightarrow> step_token t text stk c | _ \<Rightarrow> step_space ph stk c)"

text \<open>A whole text: the first value and what follows it, the error, or where the text stopped short.\<close>

datatype scan_result = Scanned jval string | BadText char string | ShortText phase "frame list"

fun json_scan :: "phase \<Rightarrow> frame list \<Rightarrow> string \<Rightarrow> scan_result" where
  "json_scan ph stk [] = ShortText ph stk"
| "json_scan ph stk (c # cs) =
     (case json_step ph stk c of
        GoOn ph' stk' \<Rightarrow> json_scan ph' stk' cs
      | Whole v \<Rightarrow> Scanned v cs
      | WholeBefore v \<Rightarrow> Scanned v (c # cs)
      | BadByte b ctx \<Rightarrow> BadText b ctx)"

declare json_scan.simps(2) [simp del]
lemmas scan_Cons = json_scan.simps(2)

text \<open>The end of the text completes a number or a scalar.\<close>

fun at_end :: "phase \<Rightarrow> frame list \<Rightarrow> jval option" where
  "at_end (PTop v) [] = Some v"
| "at_end (PTok t text) [] = (if tok_number t then Some (tok_value t text) else None)"
| "at_end _ _ = None"

section \<open>The grammar\<close>

text \<open>A literal or a number, and a string, by the automaton of tokens.\<close>

fun tok_run :: "tok \<Rightarrow> string \<Rightarrow> tok option" where
  "tok_run t [] = Some t"
| "tok_run t (c # cs) = (case tok_next t c of Some t' \<Rightarrow> tok_run t' cs | None \<Rightarrow> None)"

fun tok_of :: "string \<Rightarrow> tok option" where
  "tok_of [] = None"
| "tok_of (c # cs) = (case tok_start c of Some t \<Rightarrow> tok_run t cs | None \<Rightarrow> None)"

definition lit_text :: "string \<Rightarrow> bool" where
  "lit_text r \<longleftrightarrow> (\<exists>t. tok_of r = Some t \<and> t \<noteq> TkClosed \<and> (tok_number t \<or> tok_closed t))"

definition str_text :: "string \<Rightarrow> bool" where
  "str_text r \<longleftrightarrow> tok_of r = Some TkClosed"

text \<open>
  \<open>json_value d v\<close>: \<open>v\<close> is the reading of its text, a JSON value, inside \<open>d\<close> containers.
  \<open>open_text d ph f\<close>: the text of the frame \<open>f\<close> is the beginning of such a container, and phase \<open>ph\<close> says
  what may follow.
\<close>

inductive json_value :: "nat \<Rightarrow> jval \<Rightarrow> bool" and open_text :: "nat \<Rightarrow> phase \<Rightarrow> frame \<Rightarrow> bool" where
  Literal: "lit_text r \<Longrightarrow> json_value d (VLit r)"
| Text: "str_text r \<Longrightarrow> json_value d (VText r)"
| Array: "open_text d ph (FArr r vs) \<Longrightarrow> ph = PValueOrEnd \<or> ph = PAfter \<Longrightarrow> json_value d (VArr (r @ '']'') vs)"
| Object: "open_text d ph (FKey r ms) \<Longrightarrow> ph = PKeyOrEnd \<or> ph = PAfter \<Longrightarrow> json_value d (VObj (r @ ''}'') ms)"
| OpenArray: "d < maxNestingDepth \<Longrightarrow> open_text d PValueOrEnd (FArr ''['' [])"
| OpenObject: "d < maxNestingDepth \<Longrightarrow> open_text d PKeyOrEnd (FKey ''{'' [])"
| SpaceArr: "open_text d ph (FArr r vs) \<Longrightarrow> is_ws c \<Longrightarrow> open_text d ph (FArr (r @ [c]) vs)"
| SpaceKey: "open_text d ph (FKey r ms) \<Longrightarrow> is_ws c \<Longrightarrow> open_text d ph (FKey (r @ [c]) ms)"
| SpaceVal: "open_text d ph (FVal r ms k) \<Longrightarrow> is_ws c \<Longrightarrow> open_text d ph (FVal (r @ [c]) ms k)"
| Element: "open_text d ph (FArr r vs) \<Longrightarrow> ph = PValueOrEnd \<or> ph = PValue \<Longrightarrow> json_value (Suc d) v \<Longrightarrow>
            open_text d PAfter (FArr (r @ text_of v) (vs @ [v]))"
| NextElement: "open_text d PAfter (FArr r vs) \<Longrightarrow> open_text d PValue (FArr (r @ '','') vs)"
| Key: "open_text d ph (FKey r ms) \<Longrightarrow> ph = PKeyOrEnd \<or> ph = PKey \<Longrightarrow> str_text k \<Longrightarrow>
        open_text d PColon (FVal (r @ k) ms k)"
| Colon: "open_text d PColon (FVal r ms k) \<Longrightarrow> open_text d PValue (FVal (r @ '':'') ms k)"
| Member: "open_text d PValue (FVal r ms k) \<Longrightarrow> json_value (Suc d) v \<Longrightarrow>
           open_text d PAfter (FKey (r @ text_of v) (ms @ [(k, v)]))"
| NextMember: "open_text d PAfter (FKey r ms) \<Longrightarrow> open_text d PKey (FKey (r @ '','') ms)"

lemma Elements:
  "open_text d PValueOrEnd (FArr r vs) \<Longrightarrow> json_value (Suc d) v \<Longrightarrow> open_text d PAfter (FArr (r @ text_of v) (vs @ [v]))"
  "open_text d PValue (FArr r vs) \<Longrightarrow> json_value (Suc d) v \<Longrightarrow> open_text d PAfter (FArr (r @ text_of v) (vs @ [v]))"
  using Element [of d PValueOrEnd r vs v] Element [of d PValue r vs v] by simp_all

lemma Keys:
  "open_text d PKeyOrEnd (FKey r ms) \<Longrightarrow> str_text k \<Longrightarrow> open_text d PColon (FVal (r @ k) ms k)"
  "open_text d PKey (FKey r ms) \<Longrightarrow> str_text k \<Longrightarrow> open_text d PColon (FVal (r @ k) ms k)"
  using Key [of d PKeyOrEnd r ms k] Key [of d PKey r ms k] by simp_all

lemma json_value_weaken:
  "json_value d v \<Longrightarrow> d' \<le> d \<Longrightarrow> json_value d' v" "open_text d ph f \<Longrightarrow> d' \<le> d \<Longrightarrow> open_text d' ph f"
  by (induction arbitrary: d' and d' rule: json_value_open_text.inducts)
    (auto intro: json_value_open_text.intros Elements Keys)

section \<open>The scanner accepts the grammar\<close>

definition delimiter :: "char \<Rightarrow> bool" where
  "delimiter c \<longleftrightarrow> is_ws c \<or> c \<in> set '',]}''"

lemma tok_next_delimiter: "tok_number t \<Longrightarrow> delimiter c \<Longrightarrow> tok_next t c = None"
  by (auto simp: tok_number_def delimiter_def is_ws_def is_dec_def exp_or_def)

lemma tok_closed_next: "tok_closed t \<Longrightarrow> tok_next t c = None"
  by (cases t rule: tok_closed.cases) auto

lemma tok_start_open: "tok_start c = Some t \<Longrightarrow> \<not> tok_closed t"
  by (auto simp: tok_start_def split: if_splits)

lemma tok_number_open: "tok_number t \<Longrightarrow> \<not> tok_closed t"
  by (auto simp: tok_number_def)

text \<open>The states inside a string.\<close>

fun str_tok :: "tok \<Rightarrow> bool" where
  "str_tok TkStr = True"
| "str_tok TkEsc = True"
| "str_tok (TkHex n) = True"
| "str_tok TkClosed = True"
| "str_tok _ = False"

lemma str_tok_next: "tok_next t c = Some t' \<Longrightarrow> str_tok t' = str_tok t"
  by (cases "(t, c)" rule: tok_next.cases) (auto simp: exp_or_def split: if_splits)

lemma str_tok_run: "tok_run t cs = Some t' \<Longrightarrow> str_tok t' = str_tok t"
  by (induction t cs rule: tok_run.induct) (auto split: option.splits dest: str_tok_next)

lemma str_tok_start: "tok_start c = Some t \<Longrightarrow> str_tok t \<longleftrightarrow> t = TkStr \<and> c = CHR 0x22"
  by (auto simp: tok_start_def split: if_splits)

lemma str_text_iff: "str_text k \<longleftrightarrow> (\<exists>cs. k = CHR 0x22 # cs \<and> tok_run TkStr cs = Some TkClosed)"
proof
  assume "str_text k"
  then obtain c cs t where k: "k = c # cs" "tok_start c = Some t" "tok_run t cs = Some TkClosed"
    by (cases k) (auto simp: str_text_def split: option.splits)
  then have "t = TkStr \<and> c = CHR 0x22" using str_tok_run [OF k(3)] str_tok_start [OF k(2)] by simp
  then show "\<exists>cs. k = CHR 0x22 # cs \<and> tok_run TkStr cs = Some TkClosed" using k by simp
qed (auto simp: str_text_def tok_start_def)

lemma str_textE:
  assumes "str_text k" obtains cs where "k = CHR 0x22 # cs" "tok_run TkStr cs = Some TkClosed"
  using assms by (auto simp: str_text_iff)

lemma scan_token:
  assumes "tok_run t cs = Some t'" and "\<not> tok_closed t"
  shows "json_scan (PTok t r) stk (cs @ rest) =
     (if tok_closed t' then (case end_token t' (r @ cs) stk of (ph, stk') \<Rightarrow> json_scan ph stk' rest)
      else json_scan (PTok t' (r @ cs)) stk rest)"
  using assms
proof (induction cs arbitrary: t r)
  case (Cons c cs)
  then obtain t1 where t1: "tok_next t c = Some t1" "tok_run t1 cs = Some t'" by (auto split: option.splits)
  show ?case
  proof (cases "tok_closed t1")
    case True
    then have "cs = []" using t1(2) by (cases cs) (auto simp: tok_closed_next)
    then show ?thesis using t1 True by (auto simp: scan_Cons json_step_def step_token_def split: prod.splits)
  next
    case False
    then show ?thesis using Cons.IH [OF t1(2), of "r @ [c]"] t1(1) by (auto simp: scan_Cons json_step_def step_token_def)
  qed
qed simp

text \<open>Where a value may come, the first byte of a token starts it.\<close>

definition wants_value :: "phase \<Rightarrow> bool" where
  "wants_value ph \<longleftrightarrow> ph = PValue \<or> ph = PValueOrEnd"

lemma tok_start_chars:
  "tok_start c = Some t \<Longrightarrow> \<not> is_ws c \<and> c \<noteq> CHR ''{'' \<and> c \<noteq> CHR ''['' \<and> c \<noteq> CHR '']''"
  by (auto simp: tok_start_def is_ws_def is_dec_def split: if_splits)

lemma scan_tok_start:
  "wants_value ph \<Longrightarrow> tok_start c = Some t \<Longrightarrow> json_scan ph stk (c # cs) = json_scan (PTok t [c]) stk cs"
  using tok_start_chars [of c t]
  by (auto simp: scan_Cons wants_value_def json_step_def step_space_def step_value_def)

lemma scan_word:
  assumes "tok_of r = Some t" and "wants_value ph"
  shows "json_scan ph stk (r @ rest) =
     (if tok_closed t then (case end_token t r stk of (ph', stk') \<Rightarrow> json_scan ph' stk' rest)
      else json_scan (PTok t r) stk rest)"
proof -
  obtain c cs t0 where r: "r = c # cs" "tok_start c = Some t0" "tok_run t0 cs = Some t"
    using assms(1) by (cases r) (auto split: option.splits)
  show ?thesis using scan_token [OF r(3) tok_start_open [OF r(2)], of "[c]"] scan_tok_start [OF assms(2) r(2)] r(1)
    by simp
qed

text \<open>A value read where one may come is put into the innermost container.\<close>

definition in_container :: "frame list \<Rightarrow> bool" where
  "in_container stk \<longleftrightarrow> (\<exists>r vs stk'. stk = FArr r vs # stk') \<or> (\<exists>r ms k stk'. stk = FVal r ms k # stk')"

lemma scan_literal:
  assumes "lit_text r" and "wants_value ph" and "in_container stk" and "delimiter c"
  shows "json_scan ph stk (r @ c # rest) = json_scan PAfter (put_value (VLit r) stk) (c # rest)"
proof -
  obtain t where t: "tok_of r = Some t" "t \<noteq> TkClosed" "tok_number t \<or> tok_closed t"
    using assms(1) by (auto simp: lit_text_def)
  have v: "tok_value t r = VLit r" using t(2) by (simp add: tok_value_def)
  show ?thesis
  proof (cases "tok_closed t")
    case True
    then show ?thesis using scan_word [OF t(1) assms(2)] assms(3) v
      by (auto simp: end_token_def in_container_def)
  next
    case False
    then have num: "tok_number t" using t(3) by simp
    have "json_step (PTok t r) stk c = json_step PAfter (put_value (VLit r) stk) c"
      using assms(3) tok_next_delimiter [OF num assms(4)] num v
      by (auto simp: json_step_def step_token_def in_container_def)
    then show ?thesis using scan_word [OF t(1) assms(2)] False by (simp add: scan_Cons)
  qed
qed

lemma scan_string:
  assumes "str_text r" and "wants_value ph" and "in_container stk"
  shows "json_scan ph stk (r @ rest) = json_scan PAfter (put_value (VText r) stk) rest"
  using scan_word [of r TkClosed ph stk rest] assms
  by (auto simp: str_text_def end_token_def tok_value_def in_container_def)

fun frame_text :: "frame \<Rightarrow> string" where
  "frame_text (FArr r vs) = r"
| "frame_text (FKey r ms) = r"
| "frame_text (FVal r ms k) = r"

text \<open>What may follow the text of a container up to phase \<open>ph\<close>: after a value, a delimiter.\<close>

definition follows :: "phase \<Rightarrow> string \<Rightarrow> bool" where
  "follows ph rest \<longleftrightarrow> (ph = PAfter \<longrightarrow> (\<exists>c cs. rest = c # cs \<and> delimiter c))"

lemma follows_delimiter [simp]: "delimiter c \<Longrightarrow> follows ph (c # cs)"
  by (simp add: follows_def)

lemma follows_other [simp]: "ph \<noteq> PAfter \<Longrightarrow> follows ph rest"
  by (simp add: follows_def)

lemma delimiters [simp]:
  "is_ws c \<Longrightarrow> delimiter c" "delimiter (CHR '','')" "delimiter (CHR '']'')" "delimiter (CHR ''}'')"
  by (simp_all add: delimiter_def)

lemma no_ws [simp]:
  "\<not> is_ws (CHR '','')" "\<not> is_ws (CHR '']'')" "\<not> is_ws (CHR ''}'')" "\<not> is_ws (CHR '':'')"
  "\<not> is_ws (CHR ''['')" "\<not> is_ws (CHR ''{'')" "\<not> is_ws (CHR 0x22)"
  by (simp_all add: is_ws_def)

fun between :: "phase \<Rightarrow> bool" where
  "between (PTok t r) = False"
| "between (PTop v) = False"
| "between _ = True"

lemma scan_space: "is_ws c \<Longrightarrow> between ph \<Longrightarrow> json_scan ph stk (c # cs) = json_scan ph (add_text [c] stk) cs"
  by (cases ph) (simp_all add: scan_Cons json_step_def step_space_def)

lemma scan_between:
  "\<not> is_ws c \<Longrightarrow> between ph \<Longrightarrow> json_scan ph stk (c # cs) =
       (case step_between ph stk c of
          GoOn ph' stk' \<Rightarrow> json_scan ph' stk' cs
        | Whole v \<Rightarrow> Scanned v cs
        | WholeBefore v \<Rightarrow> Scanned v (c # cs)
        | BadByte b ctx \<Rightarrow> BadText b ctx)"
  by (cases ph) (simp_all add: scan_Cons json_step_def step_space_def)

lemma scan_key:
  assumes "str_text k" and "ph = PKeyOrEnd \<or> ph = PKey"
  shows "json_scan ph (FKey r ms # stk) (k @ rest) = json_scan PColon (FVal (r @ k) ms k # stk) rest"
proof -
  obtain cs where k: "k = CHR 0x22 # cs" "tok_run TkStr cs = Some TkClosed"
    using assms(1) by (rule str_textE)
  show ?thesis using scan_token [OF k(2), of "[CHR 0x22]" "FKey r ms # stk" rest] k(1) assms(2)
    by (auto simp: scan_between step_key_def end_token_def)
qed

lemma open_text_between: "json_value d v \<Longrightarrow> True" "open_text d ph f \<Longrightarrow> between ph"
  by (induction rule: json_value_open_text.inducts) auto

lemma scan_container:
  assumes "json_scan ph0 stk (frame_text f @ c # rest) = json_scan ph (f # stk) (c # rest)"
    and "(\<exists>r vs. f = FArr r vs \<and> c = CHR '']'' \<and> v = VArr (r @ '']'') vs \<and> (ph = PValueOrEnd \<or> ph = PAfter)) \<or>
         (\<exists>r ms. f = FKey r ms \<and> c = CHR ''}'' \<and> v = VObj (r @ ''}'') ms \<and> (ph = PKeyOrEnd \<or> ph = PAfter))"
  shows "json_scan ph0 stk (text_of v @ rest) =
           (if stk = [] then Scanned v rest else json_scan PAfter (put_value v stk) rest)"
  using assms by (auto simp: scan_between close_value_def)

lemma scan_grammar:
  "json_value d v \<Longrightarrow> length stk \<le> d \<Longrightarrow> wants_value ph0 \<Longrightarrow> in_container stk \<Longrightarrow> delimiter c \<Longrightarrow>
     json_scan ph0 stk (text_of v @ c # rest) = json_scan PAfter (put_value v stk) (c # rest)"
  "open_text d ph f \<Longrightarrow> length stk \<le> d \<Longrightarrow> wants_value ph0 \<Longrightarrow> follows ph rest \<Longrightarrow>
     json_scan ph0 stk (frame_text f @ rest) = json_scan ph (f # stk) rest"
proof (induction arbitrary: stk ph0 c rest and stk ph0 rest rule: json_value_open_text.inducts)
  case (Literal r d)
  then show ?case by (simp add: scan_literal)
next
  case (Text r d)
  then show ?case by (simp add: scan_string)
next
  case (Array d ph r vs)
  have "stk \<noteq> []" using Array.prems by (auto simp: in_container_def)
  then show ?case
    using scan_container [OF Array.IH, where v = "VArr (r @ '']'') vs" and rest = "c # rest"] Array.prems Array.hyps by simp
next
  case (Object d ph r ms)
  have "stk \<noteq> []" using Object.prems by (auto simp: in_container_def)
  then show ?case
    using scan_container [OF Object.IH, where v = "VObj (r @ ''}'') ms" and rest = "c # rest"] Object.prems Object.hyps by simp
next
  case (OpenArray d)
  then show ?case by (auto simp: wants_value_def scan_between step_value_def open_frame_def)
next
  case (OpenObject d)
  then show ?case by (auto simp: wants_value_def scan_between step_value_def open_frame_def)
next
  case (SpaceArr d ph r vs c)
  then show ?case using open_text_between(2) [OF SpaceArr.hyps(1)] by (simp add: scan_space)
next
  case (SpaceKey d ph r ms c)
  then show ?case using open_text_between(2) [OF SpaceKey.hyps(1)] by (simp add: scan_space)
next
  case (SpaceVal d ph r ms k c)
  then show ?case using open_text_between(2) [OF SpaceVal.hyps(1)] by (simp add: scan_space)
next
  case (Element d ph r vs v)
  then obtain c cs where "rest = c # cs" "delimiter c" by (auto simp: follows_def)
  then show ?case
    using Element.IH(1) [of stk ph0 "text_of v @ rest"] Element.IH(2) [of "FArr r vs # stk" ph c cs] Element.prems Element.hyps
    by (auto simp: wants_value_def in_container_def)
next
  case (NextElement d r vs)
  then show ?case by (simp add: scan_between)
next
  case (Key d ph r ms k)
  then show ?case using scan_key [of k ph r ms stk rest] by auto
next
  case (Colon d r ms k)
  then show ?case by (simp add: scan_between)
next
  case (Member d r ms k v)
  then obtain c cs where "rest = c # cs" "delimiter c" by (auto simp: follows_def)
  then show ?case
    using Member.IH(1) [of stk ph0 "text_of v @ rest"] Member.IH(2) [of "FVal r ms k # stk" PValue c cs] Member.prems
    by (auto simp: wants_value_def in_container_def)
next
  case (NextMember d r ms)
  then show ?case by (simp add: scan_between)
qed

section \<open>The scanner accepts nothing else\<close>

lemma open_text_shape: "json_value d v \<Longrightarrow> True"
  "open_text d ph f \<Longrightarrow>
     (case f of FArr r vs \<Rightarrow> ph = PValueOrEnd \<or> ph = PValue \<or> ph = PAfter
      | FKey r ms \<Rightarrow> ph = PKeyOrEnd \<or> ph = PKey \<or> ph = PAfter
      | FVal r ms k \<Rightarrow> ph = PColon \<or> ph = PValue)"
  by (induction rule: json_value_open_text.inducts) auto

lemma open_text_frame:
  "open_text d PColon f \<Longrightarrow> \<exists>r ms k. f = FVal r ms k"
  "open_text d PKey f \<Longrightarrow> \<exists>r ms. f = FKey r ms" "open_text d PKeyOrEnd f \<Longrightarrow> \<exists>r ms. f = FKey r ms"
  using open_text_shape(2) [of d _ f] by (force split: frame.splits)+

text \<open>The containers around a value that is being read: each waits for one.\<close>

fun waiting :: "frame list \<Rightarrow> bool" where
  "waiting [] \<longleftrightarrow> True"
| "waiting (f # stk) \<longleftrightarrow> (\<exists>ph. wants_value ph \<and> open_text (length stk) ph f) \<and> waiting stk"

fun reads_key :: "frame list \<Rightarrow> bool" where
  "reads_key [] \<longleftrightarrow> False"
| "reads_key (f # stk) \<longleftrightarrow>
     (\<exists>r ms ph. f = FKey r ms \<and> (ph = PKeyOrEnd \<or> ph = PKey) \<and> open_text (length stk) ph f) \<and> waiting stk"

fun scan_inv :: "phase \<Rightarrow> frame list \<Rightarrow> bool" where
  "scan_inv (PTop v) stk \<longleftrightarrow> stk = [] \<and> json_value 0 v"
| "scan_inv (PTok t r) stk \<longleftrightarrow> tok_of r = Some t \<and> \<not> tok_closed t \<and> (waiting stk \<or> str_tok t \<and> reads_key stk)"
| "scan_inv ph stk \<longleftrightarrow>
     (case stk of [] \<Rightarrow> ph = PValue | f # stk' \<Rightarrow> open_text (length stk') ph f \<and> waiting stk')"

text \<open>The text read so far.\<close>

fun text_read :: "phase \<Rightarrow> frame list \<Rightarrow> string" where
  "text_read (PTop v) stk = text_of v"
| "text_read (PTok t r) stk = concat (map frame_text (rev stk)) @ r"
| "text_read ph stk = concat (map frame_text (rev stk))"

definition step_ok :: "string \<Rightarrow> phase \<Rightarrow> frame list \<Rightarrow> char \<Rightarrow> scan_step \<Rightarrow> bool" where
  "step_ok r ph stk c st \<longleftrightarrow>
     (case st of
        GoOn ph' stk' \<Rightarrow> scan_inv ph' stk' \<and> (text_read ph' stk' = r @ [c] \<or> r = [] \<and> is_ws c \<and> text_read ph' stk' = [])
      | Whole v \<Rightarrow> json_value 0 v \<and> text_of v = r @ [c]
      | WholeBefore v \<Rightarrow> json_value 0 v \<and> text_of v = r
      | BadByte b ctx \<Rightarrow> True)"

lemma waiting_put:
  assumes "waiting stk" and "stk \<noteq> []" and "json_value (length stk) v"
  shows "scan_inv PAfter (put_value v stk) \<and> text_read PAfter (put_value v stk) = text_read PAfter stk @ text_of v"
proof -
  obtain f stk' ph where f: "stk = f # stk'" "wants_value ph" "open_text (length stk') ph f" "waiting stk'"
    using assms(1,2) by (cases stk) auto
  then show ?thesis using open_text_shape(2) [OF f(3)] assms(3)
    by (cases f) (auto simp: wants_value_def intro: Elements Member)
qed

lemma tok_run_snoc: "tok_run t (r @ [c]) = (case tok_run t r of Some t' \<Rightarrow> tok_next t' c | None \<Rightarrow> None)"
  by (induction t r rule: tok_run.induct) (auto split: option.splits)

lemma tok_of_snoc: "tok_of r = Some t \<Longrightarrow> tok_of (r @ [c]) = tok_next t c"
  by (cases r) (auto simp: tok_run_snoc split: option.splits)

lemma tok_value_ok:
  "tok_of r = Some t \<Longrightarrow> tok_number t \<or> tok_closed t \<Longrightarrow> json_value d (tok_value t r)"
  "text_of (tok_value t r) = r"
  by (auto simp: tok_value_def lit_text_def str_text_def intro: Literal Text)

lemma waiting_no_key: "waiting (FKey r ms # stk) \<longleftrightarrow> False"
  using open_text_shape(2) by (fastforce simp: wants_value_def)

lemma end_token_ok:
  assumes "tok_of r = Some t" "tok_closed t" "waiting stk \<or> str_tok t \<and> reads_key stk"
    and "end_token t r stk = (ph', stk')"
  shows "scan_inv ph' stk' \<and> text_read ph' stk' = text_read PAfter stk @ r"
proof (cases stk)
  case Nil
  then show ?thesis using assms tok_value_ok(1) [OF assms(1)] tok_value_ok(2) by (auto simp: end_token_def)
next
  case (Cons f stk1)
  show ?thesis
  proof (cases "waiting stk")
    case True
    then have "end_token t r stk = (PAfter, put_value (tok_value t r) stk)"
      using Cons waiting_no_key by (auto simp: end_token_def split: frame.splits)
    then show ?thesis using waiting_put [OF True, of "tok_value t r"] tok_value_ok(1) [OF assms(1)] tok_value_ok(2) assms(2,4) Cons by simp
  next
    case False
    then have key: "str_tok t" "reads_key stk" using assms(3) by auto
    then have "t = TkClosed" using assms(2) by (cases t rule: tok_closed.cases) auto
    then have "str_text r" using assms(1) by (simp add: str_text_def)
    then show ?thesis using \<open>t = TkClosed\<close> key Cons assms(1,4)
      by (auto simp: end_token_def) (rule Keys, assumption+)+
  qed
qed

lemma close_value_ok:
  assumes "waiting stk" and "json_value (length stk) v" and "r @ [c] = text_read PAfter stk @ text_of v"
  shows "step_ok r ph stk1 c (close_value v stk)"
  using assms waiting_put [OF assms(1) _ assms(2)] by (auto simp: close_value_def step_ok_def)

lemma step_after_ok:
  assumes "scan_inv ph stk" "between ph"
    and "ph = PAfter \<or> ph = PValueOrEnd \<and> c = CHR '']'' \<or> ph = PKeyOrEnd \<and> c = CHR ''}''"
  shows "step_ok (text_read PAfter stk) ph stk c (step_after stk c)"
proof (cases stk)
  case Nil
  then show ?thesis by (simp add: step_ok_def)
next
  case (Cons f stk')
  then have f: "open_text (length stk') ph f" "waiting stk'" using assms(1,2) by (cases ph; simp)+
  show ?thesis
  proof (cases f)
    case (FArr r vs)
    have "json_value (length stk') (VArr (r @ '']'') vs)" if "c = CHR '']''"
      using f(1) assms(3) that FArr json_value_open_text.Array [of "length stk'" ph r vs]
        open_text_shape(2) [OF f(1)] by auto
    then show ?thesis using Cons FArr f assms(3) open_text_shape(2) [OF f(1)]
      by (auto intro!: close_value_ok) (auto simp: step_ok_def intro: NextElement)
  next
    case (FKey r ms)
    have "json_value (length stk') (VObj (r @ ''}'') ms)" if "c = CHR ''}''"
      using f(1) assms(3) that FKey json_value_open_text.Object [of "length stk'" ph r ms]
        open_text_shape(2) [OF f(1)] by auto
    then show ?thesis using Cons FKey f assms(3) open_text_shape(2) [OF f(1)]
      by (auto intro!: close_value_ok) (auto simp: step_ok_def intro: NextMember)
  next
    case (FVal r ms k)
    then show ?thesis using Cons by (simp add: step_ok_def)
  qed
qed

lemma step_value_ok:
  assumes "wants_value ph" "scan_inv ph stk"
  shows "step_ok (text_read PAfter stk) ph stk c (step_value stk c)"
proof -
  have w: "waiting stk" using assms by (auto simp: wants_value_def split: list.splits)
  show ?thesis using w tok_start_open [of c]
    by (auto simp: step_value_def open_frame_def step_ok_def intro: OpenArray OpenObject split: option.splits)
qed

lemma step_key_ok:
  assumes "scan_inv ph stk" "ph = PKey \<or> ph = PKeyOrEnd"
  shows "step_ok (text_read PAfter stk) ph stk c (step_key stk c)"
proof -
  obtain f stk' where f: "stk = f # stk'" "open_text (length stk') ph f" "waiting stk'"
    using assms by (auto split: list.splits)
  then obtain r ms where "f = FKey r ms" using assms(2) open_text_frame(2,3) by blast
  then have "reads_key stk" using assms(2) f by auto
  then show ?thesis by (simp add: step_key_def step_ok_def tok_start_def)
qed

lemma step_colon_ok:
  assumes "scan_inv PColon stk"
  shows "step_ok (text_read PAfter stk) PColon stk c (step_between PColon stk c)"
proof -
  obtain f stk' where f: "stk = f # stk'" "open_text (length stk') PColon f" "waiting stk'"
    using assms by (auto split: list.splits)
  then obtain r ms k where "f = FVal r ms k" using open_text_frame(1) by blast
  then show ?thesis using f by (auto simp: step_ok_def intro: Colon)
qed

lemma step_between_ok:
  assumes "scan_inv ph stk" "between ph"
  shows "step_ok (text_read PAfter stk) ph stk c (step_between ph stk c)"
  using assms step_after_ok [OF assms, of c] step_value_ok [OF _ assms(1), of c] step_key_ok [OF assms(1), of c]
    step_colon_ok [of stk c]
  by (cases ph) (simp_all add: wants_value_def)

lemma space_ok:
  assumes "scan_inv ph stk" "between ph" "is_ws c"
  shows "scan_inv ph (add_text [c] stk) \<and>
    (text_read ph (add_text [c] stk) = text_read ph stk @ [c] \<or> text_read ph stk = [] \<and> text_read ph (add_text [c] stk) = [])"
proof (cases stk)
  case Nil
  then show ?thesis using assms by (cases ph) auto
next
  case (Cons f stk')
  then have "open_text (length stk') ph f \<and> waiting stk'" using assms by (cases ph) auto
  then show ?thesis using Cons assms
    by (cases f; cases ph) (auto intro: SpaceArr SpaceKey SpaceVal)
qed

lemma text_read_between: "between ph \<Longrightarrow> text_read ph stk = text_read PAfter stk"
  by (cases ph) auto

lemma step_space_ok:
  assumes "scan_inv ph stk" "between ph"
  shows "step_ok (text_read PAfter stk) ph stk c (step_space ph stk c)"
  using space_ok [OF assms, of c] step_between_ok [OF assms, of c] text_read_between [OF assms(2)]
  by (auto simp: step_space_def) (auto simp: step_ok_def)

lemma step_token_ok:
  assumes "scan_inv (PTok t r) stk"
  shows "step_ok (text_read (PTok t r) stk) (PTok t r) stk c (step_token t r stk c)"
proof (cases "tok_next t c")
  case (Some t')
  have next_tok: "tok_of (r @ [c]) = Some t'" "str_tok t' = str_tok t"
    using Some assms tok_of_snoc str_tok_next by auto
  obtain ph' stk' where e: "end_token t' (r @ [c]) stk = (ph', stk')" by fastforce
  show ?thesis using Some next_tok assms e end_token_ok [OF next_tok(1) _ _ e]
    by (auto simp: step_token_def step_ok_def)
next
  case None
  show ?thesis
  proof (cases "tok_number t")
    case True
    have v: "json_value d (tok_value t r)" for d using tok_value_ok(1) assms True by auto
    have "waiting stk" using assms True by (auto simp: tok_number_def)
    then have "step_ok (text_read (PTok t r) stk) PAfter (put_value (tok_value t r) stk) c
                 (step_space PAfter (put_value (tok_value t r) stk) c)" if "stk \<noteq> []"
      using step_space_ok [of PAfter "put_value (tok_value t r) stk" c] waiting_put [OF _ that v] tok_value_ok(2) by simp
    then show ?thesis using None True v tok_value_ok(2)
      by (auto simp: step_token_def) (auto simp: step_ok_def)
  next
    case False
    then show ?thesis using None by (simp add: step_token_def step_ok_def)
  qed
qed

lemma json_step_ok: "scan_inv ph stk \<Longrightarrow> step_ok (text_read ph stk) ph stk c (json_step ph stk c)"
  using step_token_ok step_space_ok [of ph stk c] text_read_between [of ph stk]
  by (cases ph) (auto simp: json_step_def step_ok_def)

definition scan_ok :: "string \<Rightarrow> scan_result \<Rightarrow> bool" where
  "scan_ok s res \<longleftrightarrow>
     (\<exists>ws. list_all is_ws ws \<and>
        (case res of
           Scanned v rest \<Rightarrow> json_value 0 v \<and> s = ws @ text_of v @ rest
         | ShortText ph stk \<Rightarrow> scan_inv ph stk \<and> s = ws @ text_read ph stk
         | BadText b ctx \<Rightarrow> True))"

lemma scan_ok_ws: "scan_ok s res \<Longrightarrow> is_ws c \<Longrightarrow> scan_ok (c # s) res"
  unfolding scan_ok_def by (auto split: scan_result.splits intro: exI [of _ "c # _"])

lemma json_scan_ok: "scan_inv ph stk \<Longrightarrow> scan_ok (text_read ph stk @ s) (json_scan ph stk s)"
proof (induction ph stk s rule: json_scan.induct)
  case (1 ph stk)
  then show ?case by (auto simp: scan_ok_def intro: exI [of _ "[]"])
next
  case (2 ph stk c cs)
  note ok = json_step_ok [OF "2.prems", of c]
  show ?case
  proof (cases "json_step ph stk c")
    case (GoOn ph' stk')
    then have "scan_ok (text_read ph' stk' @ cs) (json_scan ph' stk' cs)"
      and "text_read ph' stk' = text_read ph stk @ [c] \<or> text_read ph stk = [] \<and> is_ws c \<and> text_read ph' stk' = []"
      using ok "2.IH" by (auto simp: step_ok_def)
    then show ?thesis using GoOn by (auto simp: scan_Cons intro: scan_ok_ws)
  qed (use ok in \<open>auto simp: scan_Cons step_ok_def scan_ok_def intro: exI [of _ "[]"]\<close>)
qed

section \<open>Whole texts\<close>

text \<open>
  \<open>quoteChar\<close> and the text of a \<open>SyntaxError\<close>. The byte is shown as the code point of its number, which
  is at most 255.
\<close>

definition utf8_latin :: "char \<Rightarrow> string" where
  "utf8_latin c = (if byte c < 0x80 then [c] else [char_of (0xC0 + byte c div 64), char_of (0x80 + byte c mod 64)])"

definition quoteChar :: "char \<Rightarrow> string" where
  "quoteChar c =
     (if c = CHR 0x27 then [CHR 0x27, CHR 0x5C, CHR 0x27, CHR 0x27]
      else if c = CHR 0x22 then [CHR 0x27, CHR 0x22, CHR 0x27]
      else [CHR 0x27] @ quote_rune (\<lambda>_. False) (byte c, utf8_latin c) @ [CHR 0x27])"

definition bad_byte :: "char \<Rightarrow> string \<Rightarrow> string" where
  "bad_byte c ctx = ''invalid character '' @ quoteChar c @ '' '' @ ctx"

text \<open>\<open>json.Unmarshal\<close> checks a whole text, white space around it allowed, before it decodes it.\<close>

definition json_whole :: "string \<Rightarrow> string + jval" where
  "json_whole s =
     (case json_scan PValue [] s of
        Scanned v rest \<Rightarrow>
          (case dropWhile is_ws rest of [] \<Rightarrow> Inr v | c # _ \<Rightarrow> Inl (bad_byte c ''after top-level value''))
      | BadText c ctx \<Rightarrow> Inl (bad_byte c ctx)
      | ShortText ph stk \<Rightarrow>
          (case at_end ph stk of Some v \<Rightarrow> Inr v | None \<Rightarrow> Inl ''unexpected end of JSON input''))"

text \<open>
  \<open>Decoder.Decode\<close> takes the first value of what it reads and leaves the rest alone; \<open>rderr\<close> is the error
  with which the reading of the text ends, if it is not the end of the text.
\<close>

definition json_first :: "string option \<Rightarrow> string \<Rightarrow> string + jval" where
  "json_first rderr s =
     (case json_scan PValue [] s of
        Scanned v rest \<Rightarrow> Inr v
      | BadText c ctx \<Rightarrow> Inl (bad_byte c ctx)
      | ShortText ph stk \<Rightarrow>
          (case rderr of
             Some e \<Rightarrow> Inl e
           | None \<Rightarrow>
               (case at_end ph stk of
                  Some v \<Rightarrow> Inr v
                | None \<Rightarrow> Inl (if list_all is_ws s then ''EOF'' else ''unexpected EOF''))))"

lemma json_scan_top: "scan_ok s (json_scan PValue [] s)"
  using json_scan_ok [of PValue "[]" s] by simp

lemma at_end_ok: "scan_inv ph stk \<Longrightarrow> at_end ph stk = Some v \<Longrightarrow> json_value 0 v \<and> text_of v = text_read ph stk"
  by (cases "(ph, stk)" rule: at_end.cases) (auto split: if_splits intro: tok_value_ok(1) simp: tok_value_ok(2))

lemma json_whole_sound:
  assumes "json_whole s = Inr v"
  shows "json_value 0 v \<and> (\<exists>ws ws'. list_all is_ws ws \<and> list_all is_ws ws' \<and> s = ws @ text_of v @ ws')"
proof (cases "json_scan PValue [] s")
  case (Scanned v' rest)
  then have "v' = v" "dropWhile is_ws rest = []" using assms by (auto simp: json_whole_def split: list.splits)
  moreover from this have "list_all is_ws rest" by (simp add: list_all_iff)
  ultimately show ?thesis using json_scan_top [of s] Scanned by (auto simp: scan_ok_def)
next
  case (ShortText ph stk)
  then have "at_end ph stk = Some v" using assms by (auto simp: json_whole_def split: option.splits)
  then show ?thesis using json_scan_top [of s] ShortText at_end_ok [of ph stk v]
    by (fastforce simp: scan_ok_def intro: exI [of _ "[]"])
qed (use assms in \<open>simp add: json_whole_def\<close>)

lemma json_first_sound: "json_first rderr s = Inr v \<Longrightarrow> json_value 0 v"
  using json_scan_top [of s] at_end_ok
  by (auto simp: json_first_def scan_ok_def split: scan_result.splits option.splits)

text \<open>Reading back the text of a value.\<close>

lemma json_scan_text:
  assumes "json_value 0 v" and "rest = [] \<or> delimiter (hd rest)"
  shows "json_scan PValue [] (text_of v @ rest) = Scanned v rest \<or>
    (\<exists>ph. rest = [] \<and> json_scan PValue [] (text_of v) = ShortText ph [] \<and> at_end ph [] = Some v)"
proof -
  have v: "wants_value PValue" by (simp add: wants_value_def)
  show ?thesis using assms(1)
  proof (cases rule: json_value.cases)
    case (Literal r)
    then obtain t where t: "tok_of r = Some t" "t \<noteq> TkClosed" "tok_number t \<or> tok_closed t"
      by (auto simp: lit_text_def)
    show ?thesis using scan_word [OF t(1) v, of "[]" rest] Literal t(2,3) assms(2) tok_next_delimiter [of t "hd rest"]
      by (cases rest) (auto simp: end_token_def tok_value_def scan_Cons json_step_def step_token_def tok_number_open)
  next
    case (Text r)
    then show ?thesis using scan_word [of r TkClosed, OF _ v, of "[]" rest]
      by (cases rest) (auto simp: str_text_def end_token_def tok_value_def scan_Cons json_step_def)
  next
    case (Array ph r vs)
    then show ?thesis
      using scan_container [OF scan_grammar(2) [OF Array(2), of "[]" PValue], where v = v and c = "CHR '']''" and rest = rest] v
      by simp
  next
    case (Object ph r ms)
    then show ?thesis
      using scan_container [OF scan_grammar(2) [OF Object(2), of "[]" PValue], where v = v and c = "CHR ''}''" and rest = rest] v
      by simp
  qed
qed

lemma json_whole_text: "json_value 0 v \<Longrightarrow> json_whole (text_of v) = Inr v"
  using json_scan_text [of v "[]"] by (auto simp: json_whole_def)

lemma json_first_text:
  "json_value 0 v \<Longrightarrow> delimiter c \<Longrightarrow> json_first rderr (text_of v @ c # rest) = Inr v"
  "json_value 0 v \<Longrightarrow> json_first None (text_of v) = Inr v"
  using json_scan_text [of v "c # rest"] json_scan_text [of v "[]"] by (auto simp: json_first_def)

end
