(* ===== verification/GoJson.thy ===== *)
theory GoJson
  imports JsonText
begin

text \<open>
  The coder of \<open>encoding/json\<close> over its syntax: string literals both ways, the values the encoder writes,
  \<open>json.RawMessage\<close> (compacted when it is written), and the decoding of a value into the fields of a
  struct, which goes on after a field of the wrong type and reports the first.
\<close>

section \<open>UTF-8\<close>

text \<open>\<open>utf8.EncodeRune\<close>: a surrogate or a number too large is written as U+FFFD.\<close>

definition encode_rune :: "nat \<Rightarrow> string" where
  "encode_rune r =
     (if r < 0x80 then [char_of r]
      else if r < 0x800 then [char_of (0xC0 + r div 64), char_of (0x80 + r mod 64)]
      else if 0xD800 \<le> r \<and> r \<le> 0xDFFF \<or> 0x10FFFF < r then [CHR 0xEF, CHR 0xBF, CHR 0xBD]
      else if r < 0x10000 then
        [char_of (0xE0 + r div 4096), char_of (0x80 + r div 64 mod 64), char_of (0x80 + r mod 64)]
      else [char_of (0xF0 + r div 262144), char_of (0x80 + r div 4096 mod 64),
            char_of (0x80 + r div 64 mod 64), char_of (0x80 + r mod 64)])"

definition bad_rune :: "nat \<times> string \<Rightarrow> bool" where
  "bad_rune = (\<lambda>(r, bs). r = 0xFFFD \<and> length bs = 1)"

definition utf8_valid :: "string \<Rightarrow> bool" where
  "utf8_valid s \<longleftrightarrow> (\<forall>p \<in> set (runes s). \<not> bad_rune p)"

definition ToValidUTF8 :: "string \<Rightarrow> string" where
  "ToValidUTF8 s = concat (map (\<lambda>p. if bad_rune p then [CHR 0xEF, CHR 0xBF, CHR 0xBD] else snd p) (runes s))"

lemma ToValidUTF8_id: "utf8_valid s \<Longrightarrow> ToValidUTF8 s = s"
proof -
  assume "utf8_valid s"
  then have "map (\<lambda>p. if bad_rune p then [CHR 0xEF, CHR 0xBF, CHR 0xBD] else snd p) (runes s) = map snd (runes s)"
    unfolding utf8_valid_def by (intro map_cong) auto
  then show ?thesis using concat_runes [of s] by (simp only: ToValidUTF8_def)
qed

lemma decode_rune_cases:
  assumes "decode_rune s = (r, w)" and "s \<noteq> []" and "\<not> (r = 0xFFFD \<and> w = 1)"
  obtains (one) c0 t where "s = c0 # t" "byte c0 < 0x80" "r = byte c0" "w = 1"
  | (two) c0 c1 t where "s = c0 # c1 # t" "0xC2 \<le> byte c0" "byte c0 \<le> 0xDF" "cont 0x80 0xBF c1"
      "r = (byte c0 - 0xC0) * 64 + (byte c1 - 0x80)" "w = 2"
  | (three) c0 c1 c2 t where "s = c0 # c1 # c2 # t" "0xE0 \<le> byte c0" "byte c0 \<le> 0xEF"
      "cont (if byte c0 = 0xE0 then 0xA0 else 0x80) (if byte c0 = 0xED then 0x9F else 0xBF) c1" "cont 0x80 0xBF c2"
      "r = (byte c0 - 0xE0) * 4096 + (byte c1 - 0x80) * 64 + (byte c2 - 0x80)" "w = 3"
  | (four) c0 c1 c2 c3 t where "s = c0 # c1 # c2 # c3 # t" "0xF0 \<le> byte c0" "byte c0 \<le> 0xF4"
      "cont (if byte c0 = 0xF0 then 0x90 else 0x80) (if byte c0 = 0xF4 then 0x8F else 0xBF) c1"
      "cont 0x80 0xBF c2" "cont 0x80 0xBF c3"
      "r = (byte c0 - 0xF0) * 262144 + (byte c1 - 0x80) * 4096 + (byte c2 - 0x80) * 64 + (byte c3 - 0x80)" "w = 4"
proof -
  obtain c0 s1 where s: "s = c0 # s1" using assms(2) by (cases s) auto
  consider "byte c0 < 0x80" | "0xC2 \<le> byte c0" "byte c0 \<le> 0xDF" | "0xE0 \<le> byte c0" "byte c0 \<le> 0xEF"
    | "0xF0 \<le> byte c0" "byte c0 \<le> 0xF4"
    | "0x80 \<le> byte c0 \<and> byte c0 < 0xC2 \<or> 0xF4 < byte c0" by linarith
  then show ?thesis
  proof cases
    case 1
    then show ?thesis using assms(1) s one by (simp add: decode_rune_def)
  next
    case 2
    then have d: "decode_rune s = (case s1 of [] \<Rightarrow> (0xFFFD, 1) | c1 # _ \<Rightarrow>
        if cont 0x80 0xBF c1 then ((byte c0 - 0xC0) * 64 + (byte c1 - 0x80), 2) else (0xFFFD, 1))"
      unfolding decode_rune_def s Let_def by simp
    then obtain c1 t where c1: "s1 = c1 # t" "cont 0x80 0xBF c1" using assms(1,3) by (cases s1) (auto split: if_splits)
    then show ?thesis using two [of c0 c1 t] 2 s d assms(1) by simp
  next
    case 3
    let ?ok = "\<lambda>c1 c2. cont (if byte c0 = 0xE0 then 0xA0 else 0x80) (if byte c0 = 0xED then 0x9F else 0xBF) c1 \<and> cont 0x80 0xBF c2"
    have d: "decode_rune s = (case s1 of c1 # c2 # _ \<Rightarrow>
        if ?ok c1 c2 then ((byte c0 - 0xE0) * 4096 + (byte c1 - 0x80) * 64 + (byte c2 - 0x80), 3) else (0xFFFD, 1)
        | _ \<Rightarrow> (0xFFFD, 1))"
      using 3 unfolding decode_rune_def s Let_def by simp
    obtain c1 c2 t where c: "s1 = c1 # c2 # t" "?ok c1 c2"
      using assms(1,3) unfolding d by (cases s1; cases "tl s1") (auto split: if_splits)
    have "(r, w) = ((byte c0 - 0xE0) * 4096 + (byte c1 - 0x80) * 64 + (byte c2 - 0x80), 3)"
      using assms(1) unfolding d c(1) using c(2) by simp
    then show ?thesis using three [of c0 c1 c2 t] 3 s c by simp
  next
    case 4
    let ?ok = "\<lambda>c1 c2 c3. cont (if byte c0 = 0xF0 then 0x90 else 0x80) (if byte c0 = 0xF4 then 0x8F else 0xBF) c1
      \<and> cont 0x80 0xBF c2 \<and> cont 0x80 0xBF c3"
    have d: "decode_rune s = (case s1 of c1 # c2 # c3 # _ \<Rightarrow>
        if ?ok c1 c2 c3 then ((byte c0 - 0xF0) * 262144 + (byte c1 - 0x80) * 4096 + (byte c2 - 0x80) * 64 + (byte c3 - 0x80), 4)
        else (0xFFFD, 1) | _ \<Rightarrow> (0xFFFD, 1))"
      using 4 unfolding decode_rune_def s Let_def by simp
    obtain c1 c2 c3 t where c: "s1 = c1 # c2 # c3 # t" "?ok c1 c2 c3"
      using assms(1,3) unfolding d by (cases s1; cases "tl s1"; cases "tl (tl s1)") (auto split: if_splits)
    have "(r, w) = ((byte c0 - 0xF0) * 262144 + (byte c1 - 0x80) * 4096 + (byte c2 - 0x80) * 64 + (byte c3 - 0x80), 4)"
      using assms(1) unfolding d c(1) using c(2) by simp
    then show ?thesis using four [of c0 c1 c2 c3 t] 4 s c by simp
  next
    case 5
    then have "\<not> byte c0 < 0x80" "\<not> (0xC2 \<le> byte c0 \<and> byte c0 \<le> 0xDF)" "\<not> (0xE0 \<le> byte c0 \<and> byte c0 \<le> 0xEF)"
      "\<not> (0xF0 \<le> byte c0 \<and> byte c0 \<le> 0xF4)" by auto
    then have "decode_rune s = (0xFFFD, 1)" unfolding decode_rune_def s Let_def list.case by (simp only: if_False)
    then show ?thesis using assms by simp
  qed
qed

lemma encode_one: "byte c < 0x80 \<Longrightarrow> encode_rune (byte c) = [c]"
  by (simp add: encode_rune_def)

lemma digit64: "z < 64 \<Longrightarrow> (q * 64 + z) div 64 = q \<and> (q * 64 + z) mod 64 = (z::nat)"
  by simp

lemma div64_twice: "(n::nat) div 4096 = n div 64 div 64" "(n::nat) div 262144 = n div 64 div 64 div 64"
  by (simp_all flip: div_mult2_eq)

lemma encode_two:
  assumes "0xC2 \<le> byte c0" "byte c0 \<le> 0xDF" "cont 0x80 0xBF c1"
  shows "encode_rune ((byte c0 - 0xC0) * 64 + (byte c1 - 0x80)) = [c0, c1]"
proof -
  define x y where "x = byte c0 - 0xC0" and "y = byte c1 - 0x80"
  then have b: "byte c0 = 0xC0 + x" "byte c1 = 0x80 + y" "2 \<le> x" "x < 32" "y < 64"
    using assms by (auto simp: cont_def)
  then have "\<not> x * 64 + y < 0x80" "x * 64 + y < 0x800" "(x * 64 + y) div 64 = x" "(x * 64 + y) mod 64 = y" by auto
  then have "encode_rune (x * 64 + y) = [char_of (0xC0 + x), char_of (0x80 + y)]" by (simp add: encode_rune_def)
  also have "\<dots> = [c0, c1]" unfolding b(1,2) [symmetric] by simp
  finally show ?thesis by (simp add: x_def y_def)
qed

lemma encode_three:
  assumes "0xE0 \<le> byte c0" "byte c0 \<le> 0xEF"
    "cont (if byte c0 = 0xE0 then 0xA0 else 0x80) (if byte c0 = 0xED then 0x9F else 0xBF) c1" "cont 0x80 0xBF c2"
  shows "encode_rune ((byte c0 - 0xE0) * 4096 + (byte c1 - 0x80) * 64 + (byte c2 - 0x80)) = [c0, c1, c2]"
proof -
  define x y z where "x = byte c0 - 0xE0" and "y = byte c1 - 0x80" and "z = byte c2 - 0x80"
  then have b: "byte c0 = 0xE0 + x" "byte c1 = 0x80 + y" "byte c2 = 0x80 + z" "x < 16" "y < 64" "z < 64"
      "x = 0 \<Longrightarrow> 32 \<le> y" "x = 13 \<Longrightarrow> y < 32"
    using assms by (auto simp: cont_def split: if_splits)
  define r where "r = x * 4096 + y * 64 + z"
  have "\<not> r < 0x800" "r < 0x10000" "\<not> (0xD800 \<le> r \<and> r \<le> 0xDFFF)"
    using b(4-8) unfolding r_def by (cases "x = 0"; cases "x = 13"; linarith)+
  moreover have "r = (x * 64 + y) * 64 + z" by (simp add: r_def)
  then have "r div 4096 = x" "r div 64 mod 64 = y" "r mod 64 = z"
    using digit64 [OF b(6)] digit64 [OF b(5)] by (simp_all only: div64_twice)
  ultimately have "encode_rune r = [char_of (0xE0 + x), char_of (0x80 + y), char_of (0x80 + z)]"
    by (auto simp: encode_rune_def)
  also have "\<dots> = [c0, c1, c2]" unfolding b(1-3) [symmetric] by simp
  finally show ?thesis by (simp add: r_def x_def y_def z_def)
qed

lemma encode_four:
  assumes "0xF0 \<le> byte c0" "byte c0 \<le> 0xF4"
    "cont (if byte c0 = 0xF0 then 0x90 else 0x80) (if byte c0 = 0xF4 then 0x8F else 0xBF) c1"
    "cont 0x80 0xBF c2" "cont 0x80 0xBF c3"
  shows "encode_rune ((byte c0 - 0xF0) * 262144 + (byte c1 - 0x80) * 4096 + (byte c2 - 0x80) * 64 + (byte c3 - 0x80))
           = [c0, c1, c2, c3]"
proof -
  define x y z u where "x = byte c0 - 0xF0" and "y = byte c1 - 0x80" and "z = byte c2 - 0x80" and "u = byte c3 - 0x80"
  then have b: "byte c0 = 0xF0 + x" "byte c1 = 0x80 + y" "byte c2 = 0x80 + z" "byte c3 = 0x80 + u"
      "x < 5" "y < 64" "z < 64" "u < 64" "x = 0 \<Longrightarrow> 16 \<le> y" "x = 4 \<Longrightarrow> y < 16"
    using assms by (auto simp: cont_def split: if_splits)
  define r where "r = x * 262144 + y * 4096 + z * 64 + u"
  have "\<not> r < 0x10000" "\<not> 0x10FFFF < r"
    using b(5-10) unfolding r_def by (cases "x = 0"; cases "x = 4"; linarith)+
  moreover have "r = ((x * 64 + y) * 64 + z) * 64 + u" by (simp add: r_def)
  then have "r div 262144 = x" "r div 4096 mod 64 = y" "r div 64 mod 64 = z" "r mod 64 = u"
    using digit64 [OF b(8)] digit64 [OF b(7)] digit64 [OF b(6)] by (simp_all only: div64_twice)
  ultimately have "encode_rune r = [char_of (0xF0 + x), char_of (0x80 + y), char_of (0x80 + z), char_of (0x80 + u)]"
    by (simp add: encode_rune_def)
  also have "\<dots> = [c0, c1, c2, c3]" unfolding b(1-4) [symmetric] by simp
  finally show ?thesis by (simp add: r_def x_def y_def z_def u_def)
qed

lemma decode_rune_multi:
  assumes "decode_rune s = (r, w)" and "s \<noteq> []" and "\<not> (r = 0xFFFD \<and> w = 1)"
  shows "w \<le> length s \<and> decode_rune (take w s @ t) = (r, w) \<and> encode_rune r = take w s
         \<and> (0x80 \<le> r \<longrightarrow> (\<forall>c \<in> set (take w s). 0x80 \<le> byte c))
         \<and> (r < 0x80 \<longrightarrow> take w s = [hd s] \<and> byte (hd s) = r)"
  using assms
proof (cases rule: decode_rune_cases)
  case (one c0 t')
  then show ?thesis by (simp add: decode_rune_def encode_one)
next
  case (two c0 c1 t')
  have "0x80 \<le> r" using two(2,5) by linarith
  then show ?thesis using two encode_two [of c0 c1] by (simp add: decode_rune_def Let_def cont_def)
next
  case (three c0 c1 c2 t')
  have "decode_rune (take w s @ t) = (r, w)" using three unfolding decode_rune_def Let_def by simp
  moreover have "0x80 \<le> r" using three(2,4,6) by (cases "byte c0 = 0xE0") (simp_all add: cont_def, linarith+)
  ultimately show ?thesis using three encode_three [of c0 c1 c2] by (auto simp: cont_def split: if_splits)
next
  case (four c0 c1 c2 c3 t')
  have "decode_rune (take w s @ t) = (r, w)" using four unfolding decode_rune_def Let_def by simp
  moreover have "0x80 \<le> r" using four(2,4,7) by (cases "byte c0 = 0xF0") (simp_all add: cont_def, linarith+)
  ultimately show ?thesis using four encode_four [of c0 c1 c2 c3] by (auto simp: cont_def split: if_splits)
qed

section \<open>String literals\<close>

text \<open>
  Reading (\<open>unquoteBytes\<close>), on the text between the quotes. None is a text the scanner does not let
  through, on which the decoder panics. \<open>hex4\<close> is \<open>getu4\<close> after the letter u.
\<close>

definition hex_value :: "char \<Rightarrow> nat" where
  "hex_value c = (if byte c < 58 then byte c - 48 else if byte c < 71 then byte c - 55 else byte c - 87)"

fun hex4 :: "string \<Rightarrow> nat option" where
  "hex4 (a # b # c # d # rest) =
     (if list_all is_hexit [a, b, c, d]
      then Some (((hex_value a * 16 + hex_value b) * 16 + hex_value c) * 16 + hex_value d) else None)"
| "hex4 _ = None"

definition escaped_char :: "char \<Rightarrow> char option" where
  "escaped_char c =
     (if c \<in> {CHR 0x22, CHR 0x5C, CHR ''/'', CHR 0x27} then Some c
      else if c = CHR ''b'' then Some (CHR 0x08)
      else if c = CHR ''f'' then Some (CHR 0x0C)
      else if c = CHR ''n'' then Some (CHR 0x0A)
      else if c = CHR ''r'' then Some (CHR 0x0D)
      else if c = CHR ''t'' then Some (CHR 0x09)
      else None)"

text \<open>The code point of an escape, and how much of the text after the letter u it takes.\<close>

definition escaped_rune :: "string \<Rightarrow> (nat \<times> nat) option" where
  "escaped_rune s =
     (case hex4 s of
        None \<Rightarrow> None
      | Some r \<Rightarrow>
          if r < 0xD800 \<or> 0xDFFF < r then Some (r, 4)
          else
            (case (take 2 (drop 4 s) = [CHR 0x5C, CHR ''u''], hex4 (drop 6 s)) of
               (True, Some r1) \<Rightarrow>
                 if r < 0xDC00 \<and> 0xDC00 \<le> r1 \<and> r1 \<le> 0xDFFF
                 then Some ((r - 0xD800) * 1024 + (r1 - 0xDC00) + 0x10000, 10) else Some (0xFFFD, 4)
             | _ \<Rightarrow> Some (0xFFFD, 4)))"

function unquote_body :: "string \<Rightarrow> string option" where
  "unquote_body [] = Some []"
| "unquote_body (c # cs) =
     (if c = CHR 0x5C then
        (case cs of
           [] \<Rightarrow> None
         | e # es \<Rightarrow>
             if e = CHR ''u'' then
               (case escaped_rune es of
                  None \<Rightarrow> None
                | Some (r, n) \<Rightarrow> map_option ((@) (encode_rune r)) (unquote_body (drop n es)))
             else
               (case escaped_char e of
                  None \<Rightarrow> None
                | Some x \<Rightarrow> map_option ((#) x) (unquote_body es)))
      else if c = CHR 0x22 \<or> byte c < 0x20 then None
      else if byte c < 0x80 then map_option ((#) c) (unquote_body cs)
      else
        (case decode_rune (c # cs) of
           (r, w) \<Rightarrow> map_option ((@) (encode_rune r)) (unquote_body (drop w (c # cs)))))"
  by pat_completeness auto
termination
proof (relation "measure length")
  fix c cs r w assume "(r, w) = decode_rune (c # cs)"
  then have "0 < w" using decode_rune_width [of "c # cs"] by (simp add: prod_eq_iff)
  then show "(drop w (c # cs), c # cs) \<in> measure length" by simp
qed auto

declare unquote_body.simps(2) [simp del]

definition unquote :: "string \<Rightarrow> string option" where
  "unquote r =
     (if 2 \<le> length r \<and> hd r = CHR 0x22 \<and> last r = CHR 0x22 then unquote_body (butlast (tl r)) else None)"

text \<open>Writing (\<open>appendString\<close>): HTML characters and the line separators U+2028 and U+2029 are escaped.\<close>

definition unicode_escape :: "nat \<Rightarrow> string" where
  "unicode_escape r = CHR 0x5C # CHR ''u'' # hex_pad 4 r"

definition encode_char :: "nat \<times> string \<Rightarrow> string" where
  "encode_char = (\<lambda>(r, bs).
     if r = 0x22 \<or> r = 0x5C then CHR 0x5C # bs
     else if r = 0x08 then [CHR 0x5C, CHR ''b'']
     else if r = 0x0C then [CHR 0x5C, CHR ''f'']
     else if r = 0x0A then [CHR 0x5C, CHR ''n'']
     else if r = 0x0D then [CHR 0x5C, CHR ''r'']
     else if r = 0x09 then [CHR 0x5C, CHR ''t'']
     else if r < 0x20 \<or> r \<in> {0x3C, 0x3E, 0x26} \<or> r = 0x2028 \<or> r = 0x2029 then unicode_escape r
     else if bad_rune (r, bs) then unicode_escape 0xFFFD
     else bs)"

definition encode_body :: "string \<Rightarrow> string" where
  "encode_body s = concat (map encode_char (runes s))"

definition encode_string :: "string \<Rightarrow> string" where
  "encode_string s = [CHR 0x22] @ encode_body s @ [CHR 0x22]"

text \<open>The runes of a string, each with the bytes it was read from.\<close>

definition good_rune :: "nat \<times> string \<Rightarrow> bool" where
  "good_rune = (\<lambda>(r, bs).
     bs \<noteq> [] \<and> encode_rune r = bs \<and> (\<forall>t. decode_rune (bs @ t) = (r, length bs)) \<and>
     (r < 0x80 \<longrightarrow> (\<exists>c. bs = [c] \<and> byte c = r)) \<and> (0x80 \<le> r \<longrightarrow> (\<forall>c \<in> set bs. 0x80 \<le> byte c)))"

lemma decode_good:
  assumes "decode_rune s = (r, w)" and "s \<noteq> []"
  shows "bad_rune (r, take w s) \<or> good_rune (r, take w s)"
proof (cases "r = 0xFFFD \<and> w = 1")
  case True
  then show ?thesis using assms(2) by (simp add: bad_rune_def Suc_le_eq)
next
  case False
  note d = decode_rune_multi [OF assms False]
  have "\<exists>c. take w s = [c] \<and> byte c = r" if "r < 0x80" using d that by blast
  moreover have "0 < w" using decode_rune_width [OF assms(2)] assms(1) by simp
  ultimately show ?thesis using d assms(2) by (auto simp: good_rune_def min_def)
qed

lemma runes_good: "p \<in> set (runes s) \<Longrightarrow> bad_rune p \<or> good_rune p"
proof (induction s rule: runes.induct)
  case (1 s)
  show ?case
  proof (cases "s = []")
    case False
    obtain r w where d: "decode_rune s = (r, w)" by fastforce
    then have "p = (r, take w s) \<or> p \<in> set (runes (drop w s))"
      using "1.prems" False by (simp add: runes.simps [of s])
    then show ?thesis using decode_good [OF d False] "1.IH" [OF False _ refl] d by fastforce
  qed (use "1.prems" in simp)
qed

lemma hex_pad_4: "hex_pad 4 r =
   [hex_digit (r div 4096 mod 16), hex_digit (r div 256 mod 16), hex_digit (r div 16 mod 16), hex_digit (r mod 16)]"
proof -
  have "hex_pad (Suc (Suc (Suc (Suc 0)))) r = [hex_digit (r div 16 div 16 div 16 mod 16), hex_digit (r div 16 div 16 mod 16),
     hex_digit (r div 16 mod 16), hex_digit (r mod 16)]" by simp
  moreover have "r div 16 div 16 div 16 = r div 4096" "r div 16 div 16 = r div 256" by (simp_all flip: div_mult2_eq)
  moreover have "(4::nat) = Suc (Suc (Suc (Suc 0)))" by simp
  ultimately show ?thesis by (simp only:)
qed

lemma hex_digit_ok: "d < 16 \<Longrightarrow> is_hexit (hex_digit d) \<and> hex_value (hex_digit d) = d"
  by (auto simp: hex_digit_def is_hexit_def is_hex_def hex_value_def)

lemma base16:
  "r = q1 * 16 + m0 \<Longrightarrow> q1 = q2 * 16 + m1 \<Longrightarrow> q2 = q3 * 16 + m2 \<Longrightarrow> ((q3 * 16 + m2) * 16 + m1) * 16 + m0 = (r::nat)"
  by simp

lemma hex4_pad:
  assumes "r < 0x10000"
  shows "hex4 (hex_pad 4 r @ t) = Some r"
proof -
  have "r div 16 div 16 = r div 256" "r div 256 div 16 = r div 4096" by (simp_all flip: div_mult2_eq)
  then have "r div 16 = r div 256 * 16 + r div 16 mod 16" "r div 256 = r div 4096 * 16 + r div 256 mod 16"
    using div_mult_mod_eq [of "r div 16" 16] div_mult_mod_eq [of "r div 256" 16] by simp_all
  then have "((r div 4096 * 16 + r div 256 mod 16) * 16 + r div 16 mod 16) * 16 + r mod 16 = r"
    by (intro base16) simp_all
  moreover have "r div 4096 < 16" using assms by (simp add: less_mult_imp_div_less)
  ultimately show ?thesis unfolding hex_pad_4 by (simp add: hex_digit_ok)
qed

lemma tok_run_append: "tok_run t (a @ b) = (case tok_run t a of Some t' \<Rightarrow> tok_run t' b | None \<Rightarrow> None)"
  by (induction t a rule: tok_run.induct) (auto split: option.splits)

lemma run_escape: "tok_run TkStr (unicode_escape r) = Some TkStr"
  by (simp add: unicode_escape_def hex_pad_4 hex_digit_ok)

lemma run_high: "\<forall>c \<in> set bs. 0x80 \<le> byte c \<Longrightarrow> tok_run TkStr bs = Some TkStr"
  by (induction bs) auto

text \<open>What the encoder writes of a rune keeps the scanner inside the string, and is read as the rune.\<close>

lemma encode_char_cases:
  assumes "bad_rune p \<or> good_rune p"
  obtains (bad) "encode_char p = unicode_escape 0xFFFD" "bad_rune p"
  | (high) r bs where "p = (r, bs)" "encode_char p = bs" "good_rune p" "0x80 \<le> r"
  | (escape) r bs where "p = (r, bs)" "encode_char p = unicode_escape r" "good_rune p" "r < 0x80 \<or> r = 0x2028 \<or> r = 0x2029"
  | (short) c e where "p = (byte c, [c])" "encode_char p = [CHR 0x5C, e]" "escaped_char e = Some c" "e \<noteq> CHR 0x27" "byte c < 0x80"
  | (plain) c where "p = (byte c, [c])" "encode_char p = [c]" "c \<noteq> CHR 0x22" "c \<noteq> CHR 0x5C" "0x20 \<le> byte c" "byte c < 0x80"
proof -
  obtain r bs where p: "p = (r, bs)" by fastforce
  consider "bad_rune p" | "good_rune p" "\<not> bad_rune p" "0x80 \<le> r" | "good_rune p" "\<not> bad_rune p" "r < 0x80"
    using assms by linarith
  then show ?thesis
  proof cases
    case 1
    then show ?thesis using bad p by (auto simp: encode_char_def bad_rune_def)
  next
    case 2
    then show ?thesis using high [OF p] escape [OF p] p
      by (cases "r = 0x2028 \<or> r = 0x2029") (auto simp: encode_char_def)
  next
    case 3
    then obtain c where c: "bs = [c]" "byte c = r" using p by (auto simp: good_rune_def)
    have pc: "p = (byte c, [c])" using p c by simp
    consider "c = CHR 0x22 \<or> c = CHR 0x5C" | "c \<in> {CHR 0x08, CHR 0x0C, CHR 0x0A, CHR 0x0D, CHR 0x09}"
      | "c \<notin> {CHR 0x22, CHR 0x5C, CHR 0x08, CHR 0x0C, CHR 0x0A, CHR 0x0D, CHR 0x09}" by blast
    then show ?thesis
    proof cases
      case 1
      then show ?thesis using short [OF pc, of c] by (auto simp: pc encode_char_def escaped_char_def)
    next
      case 2
      then show ?thesis
        using short [OF pc, of "CHR ''b''"] short [OF pc, of "CHR ''f''"] short [OF pc, of "CHR ''n''"]
          short [OF pc, of "CHR ''r''"] short [OF pc, of "CHR ''t''"]
        by (auto simp: pc encode_char_def escaped_char_def)
    next
      case other: 3
      have "byte c \<notin> {0x22, 0x5C, 0x08, 0x0C, 0x0A, 0x0D, 0x09}"
      proof
        assume "byte c \<in> {0x22, 0x5C, 0x08, 0x0C, 0x0A, 0x0D, 0x09}"
        then have "byte c \<in> byte ` {CHR 0x22, CHR 0x5C, CHR 0x08, CHR 0x0C, CHR 0x0A, CHR 0x0D, CHR 0x09}" by simp
        then show False using other by (auto simp only: of_char_eq_iff)
      qed
      then have "encode_char p = (if byte c < 0x20 \<or> byte c \<in> {0x3C, 0x3E, 0x26} then unicode_escape (byte c) else [c])"
        using 3 c pc by (simp add: encode_char_def)
      then show ?thesis using escape [OF p] plain [OF pc] 3 c pc other by (auto split: if_splits)
    qed
  qed
qed

lemma run_encode_char:
  assumes "bad_rune p \<or> good_rune p"
  shows "tok_run TkStr (encode_char p) = Some TkStr"
  using assms
proof (cases rule: encode_char_cases)
  case (high r bs)
  then show ?thesis using run_high [of bs] by (simp add: good_rune_def)
next
  case (short c e)
  then show ?thesis by (auto simp: escaped_char_def split: if_splits)
qed (simp_all add: run_escape)

lemma unquote_escape:
  assumes "r < 0xD800 \<or> r = 0xFFFD"
  shows "unquote_body (unicode_escape r @ t) = map_option ((@) (encode_rune r)) (unquote_body t)"
proof -
  have "hex4 (hex_pad 4 r @ t) = Some r" using assms by (intro hex4_pad) auto
  then have "escaped_rune (hex_pad 4 r @ t) = Some (r, 4)" using assms by (auto simp: escaped_rune_def)
  moreover have "drop 4 (hex_pad 4 r @ t) = t" by (simp add: hex_pad_4)
  ultimately show ?thesis by (simp add: unicode_escape_def unquote_body.simps(2))
qed

lemma encode_FFFD: "encode_rune 0xFFFD = [CHR 0xEF, CHR 0xBF, CHR 0xBD]"
proof -
  have "char_of (0xEF::nat) = CHR 0xEF" "char_of (0xBF::nat) = CHR 0xBF" "char_of (0xBD::nat) = CHR 0xBD"
    using char_of_char [of "CHR 0xEF", where ?'a = nat] char_of_char [of "CHR 0xBF", where ?'a = nat]
      char_of_char [of "CHR 0xBD", where ?'a = nat] by (simp_all del: char_of_char)
  then show ?thesis by (simp add: encode_rune_def)
qed

lemma unquote_encode_char:
  assumes "bad_rune p \<or> good_rune p"
  shows "unquote_body (encode_char p @ t) =
     map_option ((@) (if bad_rune p then [CHR 0xEF, CHR 0xBF, CHR 0xBD] else snd p)) (unquote_body t)"
  using assms
proof (cases rule: encode_char_cases)
  case bad
  then show ?thesis using unquote_escape [of "0xFFFD" t] encode_FFFD by simp
next
  case (high r bs)
  then obtain c cs where bs: "bs = c # cs" by (cases bs) (auto simp: good_rune_def)
  have "0x80 \<le> byte c" "decode_rune (c # cs @ t) = (r, length bs)" "encode_rune r = bs"
    using high bs by (auto simp: good_rune_def)
  moreover from this have "\<not> bad_rune p" using high by (auto simp: bad_rune_def encode_rune_def)
  ultimately show ?thesis using bs high by (auto simp: unquote_body.simps(2))
next
  case (escape r bs)
  then have "\<not> bad_rune p" "encode_rune r = bs" by (auto simp: bad_rune_def good_rune_def)
  then show ?thesis using unquote_escape [of r t] escape by auto
next
  case (short c e)
  then have "\<not> bad_rune p" "e \<noteq> CHR ''u''" by (auto simp: bad_rune_def escaped_char_def split: if_splits)
  moreover have "(#) c = (@) [c]" by auto
  ultimately show ?thesis using short by (simp add: unquote_body.simps(2))
next
  case (plain c)
  moreover from this have "\<not> bad_rune p" by (auto simp: bad_rune_def)
  moreover have "(#) c = (@) [c]" by auto
  ultimately show ?thesis by (simp add: unquote_body.simps(2))
qed

lemma run_encode_body: "(\<forall>p \<in> set ps. bad_rune p \<or> good_rune p) \<Longrightarrow> tok_run TkStr (concat (map encode_char ps)) = Some TkStr"
  by (induction ps) (simp_all add: tok_run_append run_encode_char)

lemma str_text_encode: "str_text (encode_string s)"
  using run_encode_body [of "runes s"] runes_good [of _ s]
  by (auto simp: str_text_iff encode_string_def encode_body_def tok_run_append)

lemma unquote_encode_body:
  "(\<forall>p \<in> set ps. bad_rune p \<or> good_rune p) \<Longrightarrow> unquote_body (concat (map encode_char ps)) =
     Some (concat (map (\<lambda>p. if bad_rune p then [CHR 0xEF, CHR 0xBF, CHR 0xBD] else snd p) ps))"
proof (induction ps)
  case (Cons p ps)
  then show ?case using unquote_encode_char [of p "concat (map encode_char ps)"] by simp
qed simp

text \<open>A string that is written is read back with its invalid bytes replaced.\<close>

lemma unquote_encode: "unquote (encode_string s) = Some (ToValidUTF8 s)"
  using unquote_encode_body [of "runes s"] runes_good [of _ s]
  by (simp add: unquote_def encode_string_def encode_body_def ToValidUTF8_def butlast_append)

text \<open>What the scanner reads as a string can be unquoted.\<close>

lemma run_hex_step:
  assumes "tok_run (TkHex n) (es @ [CHR 0x22]) = Some TkClosed"
  obtains e es' where "es = e # es'" "is_hexit e"
    "tok_run (if n < 3 then TkHex (Suc n) else TkStr) (es' @ [CHR 0x22]) = Some TkClosed"
  using assms by (cases es) (auto simp: is_hexit_def is_hex_def split: if_splits)

lemma run_hex:
  assumes "tok_run (TkHex 0) (es @ [CHR 0x22]) = Some TkClosed"
  obtains a b c d rest where "es = a # b # c # d # rest" "list_all is_hexit [a, b, c, d]"
    "tok_run TkStr (rest @ [CHR 0x22]) = Some TkClosed"
proof -
  obtain a es1 where a: "es = a # es1" "is_hexit a" "tok_run (TkHex 1) (es1 @ [CHR 0x22]) = Some TkClosed"
    using assms by (rule run_hex_step) simp
  obtain b es2 where b: "es1 = b # es2" "is_hexit b" "tok_run (TkHex 2) (es2 @ [CHR 0x22]) = Some TkClosed"
    using a(3) by (rule run_hex_step) (simp add: numeral_2_eq_2)
  obtain c es3 where c: "es2 = c # es3" "is_hexit c" "tok_run (TkHex 3) (es3 @ [CHR 0x22]) = Some TkClosed"
    using b(3) by (rule run_hex_step) (simp add: numeral_3_eq_3)
  obtain d rest where "es3 = d # rest" "is_hexit d" "tok_run TkStr (rest @ [CHR 0x22]) = Some TkClosed"
    using c(3) by (rule run_hex_step) simp
  then show ?thesis using that a b c by simp
qed

text \<open>What an escape takes is again a whole number of characters of the string.\<close>

lemma escaped_rune_ok:
  assumes "tok_run (TkHex 0) (es @ [CHR 0x22]) = Some TkClosed"
  obtains r n where "escaped_rune es = Some (r, n)" "tok_run TkStr (drop n es @ [CHR 0x22]) = Some TkClosed"
proof -
  obtain a b c d rest where es: "es = a # b # c # d # rest" "list_all is_hexit [a, b, c, d]"
    "tok_run TkStr (rest @ [CHR 0x22]) = Some TkClosed" using assms by (rule run_hex)
  have drop4: "drop 4 es = rest" by (simp add: es(1))
  obtain x where x: "hex4 es = Some x" using es by simp
  have "\<exists>r n. escaped_rune es = Some (r, n) \<and> (n = 4 \<or> n = 10 \<and> take 2 rest = [CHR 0x5C, CHR ''u''])"
    by (simp add: escaped_rune_def x drop4 split: option.splits bool.splits)
  then obtain r n where rn: "escaped_rune es = Some (r, n)" "n = 4 \<or> n = 10 \<and> take 2 rest = [CHR 0x5C, CHR ''u'']"
    by blast
  show ?thesis
  proof (cases "n = 4")
    case True
    then show ?thesis using that [OF rn(1)] es(3) drop4 by simp
  next
    case False
    then have "take 2 rest = [CHR 0x5C, CHR ''u'']" using rn(2) by simp
    then obtain es' where rest: "rest = CHR 0x5C # CHR ''u'' # es'"
      by (cases rest; cases "tl rest") (auto simp: numeral_2_eq_2)
    then have "tok_run (TkHex 0) (es' @ [CHR 0x22]) = Some TkClosed" using es(3) by simp
    then obtain rest' where "drop 4 es' = rest'" "tok_run TkStr (rest' @ [CHR 0x22]) = Some TkClosed"
      by (rule run_hex) simp
    moreover have "drop 10 es = drop 4 es'" by (simp add: es(1) rest)
    ultimately show ?thesis using that [OF rn(1)] rn(2) False by simp
  qed
qed

lemma run_TkClosed: "tok_run TkClosed (s @ [c]) = None"
  by (cases s) auto

lemma run_drop_high:
  assumes "\<forall>c \<in> set (take w s). 0x80 \<le> byte c"
  shows "tok_run TkStr (s @ t) = tok_run TkStr (drop w s @ t)"
  using run_high [OF assms] tok_run_append [of TkStr "take w s" "drop w s @ t"]
  by (simp flip: append_assoc)

lemma decode_rune_high_bytes:
  assumes "decode_rune (c # cs) = (r, w)" and "\<not> byte c < 0x80"
  shows "\<forall>b \<in> set (take w (c # cs)). 0x80 \<le> byte b"
proof (cases "r = 0xFFFD \<and> w = 1")
  case True
  then show ?thesis using assms(2) by simp
next
  case False
  then show ?thesis using decode_rune_multi [OF assms(1) _ False] assms(2) by (cases "r < 0x80") auto
qed

lemma tok_next_closing: "tok_next t c = Some TkClosed \<Longrightarrow> c = CHR 0x22"
  by (cases "(t, c)" rule: tok_next.cases) (auto simp: exp_or_def split: if_splits)

lemma unquote_body_ok:
  "tok_run TkStr (s @ [CHR 0x22]) = Some TkClosed \<Longrightarrow> unquote_body s \<noteq> None"
proof (induction s rule: unquote_body.induct)
  case (2 c cs)
  consider "c = CHR 0x5C" | "c = CHR 0x22 \<or> byte c < 0x20" | "c \<noteq> CHR 0x5C" "c \<noteq> CHR 0x22" "\<not> byte c < 0x20" "byte c < 0x80"
    | "c \<noteq> CHR 0x5C" "c \<noteq> CHR 0x22" "\<not> byte c < 0x20" "\<not> byte c < 0x80" by blast
  then show ?case
  proof cases
    case 1
    then obtain e es where cs: "cs = e # es" using "2.prems" by (cases cs) auto
    show ?thesis
    proof (cases "e = CHR ''u''")
      case True
      then have "tok_run (TkHex 0) (es @ [CHR 0x22]) = Some TkClosed" using "2.prems" 1 cs by simp
      then obtain r n where rn: "escaped_rune es = Some (r, n)" "tok_run TkStr (drop n es @ [CHR 0x22]) = Some TkClosed"
        by (rule escaped_rune_ok)
      then show ?thesis using "2.IH"(1) [OF 1 cs True rn(1) refl rn(2)] 1 cs True by (simp add: unquote_body.simps(2))
    next
      case False
      then have "tok_next TkEsc e = Some TkStr" "tok_run TkStr (es @ [CHR 0x22]) = Some TkClosed"
        using "2.prems" 1 cs by (auto split: if_splits)
      moreover from this obtain x where x: "escaped_char e = Some x" by (auto simp: escaped_char_def split: if_splits)
      ultimately show ?thesis using "2.IH"(2) [OF 1 cs False x] 1 cs False by (simp add: unquote_body.simps(2))
    qed
  next
    case 2
    then show ?thesis using "2.prems" run_TkClosed [of cs "CHR 0x22"] by (auto split: if_splits)
  next
    case 3
    then show ?thesis using "2.IH"(3) "2.prems" by (simp add: unquote_body.simps(2))
  next
    case 4
    obtain r w where d: "decode_rune (c # cs) = (r, w)" by fastforce
    have "\<forall>b \<in> set (take w (c # cs)). 0x80 \<le> byte b"
      using decode_rune_high_bytes [OF d] 4 by simp
    then have "tok_run TkStr (drop w (c # cs) @ [CHR 0x22]) = Some TkClosed"
      using run_drop_high [of w "c # cs" "[CHR 0x22]"] "2.prems" by simp
    then show ?thesis using "2.IH"(4) d 4 by (simp add: unquote_body.simps(2))
  qed
qed simp

lemma unquote_ok: "str_text r \<Longrightarrow> unquote r \<noteq> None"
proof -
  assume "str_text r"
  then obtain cs where cs: "r = CHR 0x22 # cs" "tok_run TkStr cs = Some TkClosed" by (rule str_textE)
  then obtain s c where sc: "cs = s @ [c]" by (cases cs rule: rev_cases) auto
  then have "c = CHR 0x22" using cs(2) by (auto simp: tok_run_snoc dest!: tok_next_closing split: option.splits)
  then show ?thesis using unquote_body_ok [of s] cs sc by (simp add: unquote_def)
qed

section \<open>Values the encoder writes\<close>

definition mk_arr :: "jval list \<Rightarrow> jval" where
  "mk_arr vs = VArr (''['' @ join_with (CHR '','') (map text_of vs) @ '']'') vs"

definition mk_obj :: "(string \<times> jval) list \<Rightarrow> jval" where
  "mk_obj ms = VObj (''{'' @ join_with (CHR '','') (map (\<lambda>(k, v). k @ '':'' @ text_of v) ms) @ ''}'') ms"

lemma join_with_snoc: "join_with c (ps @ [p]) = (if ps = [] then p else join_with c ps @ c # p)"
  by (induction c ps rule: join_with.induct) auto

lemma mk_arr_ok:
  assumes "d < maxNestingDepth" and "\<forall>v \<in> set vs. json_value (Suc d) v"
  shows "json_value d (mk_arr vs)"
proof -
  have "open_text d (if vs = [] then PValueOrEnd else PAfter) (FArr (''['' @ join_with (CHR '','') (map text_of vs)) vs)"
    using assms(2)
  proof (induction vs rule: rev_induct)
    case Nil
    then show ?case using OpenArray [OF assms(1)] by simp
  next
    case (snoc v vs)
    show ?case
    proof (cases "vs = []")
      case True
      then show ?thesis using Elements(1) [OF OpenArray [OF assms(1)], of v] snoc.prems by simp
    next
      case False
      then have "open_text d PValue (FArr ((''['' @ join_with (CHR '','') (map text_of vs)) @ '','') vs)"
        using snoc by (intro NextElement) simp
      then show ?thesis using Elements(2) [of d _ vs v] snoc.prems False by (fastforce simp: join_with_snoc)
    qed
  qed
  from json_value_open_text.Array [OF this] show ?thesis by (simp add: mk_arr_def)
qed

lemma mk_obj_ok:
  assumes "d < maxNestingDepth" and "\<forall>(k, v) \<in> set ms. str_text k \<and> json_value (Suc d) v"
  shows "json_value d (mk_obj ms)"
proof -
  let ?m = "\<lambda>(k, v). k @ '':'' @ text_of v"
  have "open_text d (if ms = [] then PKeyOrEnd else PAfter) (FKey (''{'' @ join_with (CHR '','') (map ?m ms)) ms)"
    using assms(2)
  proof (induction ms rule: rev_induct)
    case Nil
    then show ?case using OpenObject [OF assms(1)] by simp
  next
    case (snoc m ms)
    obtain k v where m: "m = (k, v)" by fastforce
    have kv: "str_text k" "json_value (Suc d) v" using snoc.prems m by auto
    let ?r = "(''{'' @ join_with (CHR '','') (map ?m ms)) @ (if ms = [] then [] else '','')"
    have "open_text d (if ms = [] then PKeyOrEnd else PKey) (FKey ?r ms)"
      using snoc NextMember [of d "''{'' @ join_with (CHR '','') (map ?m ms)" ms] by (cases "ms = []") auto
    then have "open_text d PColon (FVal (?r @ k) ms k)" 
      by (rule Key [OF _ _ kv(1)]) simp
    then have "open_text d PAfter (FKey (((?r @ k) @ '':'') @ text_of v) (ms @ [(k, v)]))"
      using kv(2) by (intro Member Colon)
    then show ?case using m by (simp add: join_with_snoc split: if_splits)
  qed
  from json_value_open_text.Object [OF this] show ?thesis by (simp add: mk_obj_def)
qed

section \<open>Raw messages\<close>

text \<open>
  \<open>appendCompact\<close>: the white space between the tokens goes, and inside strings HTML characters and the
  line separators are escaped (they occur nowhere else).
\<close>

definition line_sep :: "string \<Rightarrow> nat option" where
  "line_sep s =
     (if s = [CHR 0xE2, CHR 0x80, CHR 0xA8] then Some 0x2028
      else if s = [CHR 0xE2, CHR 0x80, CHR 0xA9] then Some 0x2029 else None)"

fun escape_html :: "string \<Rightarrow> string" where
  "escape_html [] = []"
| "escape_html (c # cs) =
     (if c \<in> set ''<>&'' then unicode_escape (byte c) @ escape_html cs
      else case line_sep (c # take 2 cs) of
        Some r \<Rightarrow> unicode_escape r @ escape_html (drop 2 cs)
      | None \<Rightarrow> c # escape_html cs)"

fun compact_value :: "jval \<Rightarrow> jval" where
  "compact_value (VLit r) = VLit r"
| "compact_value (VText r) = VText (escape_html r)"
| "compact_value (VArr r vs) = mk_arr (map compact_value vs)"
| "compact_value (VObj r ms) = mk_obj (map (\<lambda>(k, v). (escape_html k, compact_value v)) ms)"

lemma str_plain_next:
  "str_tok t \<Longrightarrow> tok_next t c = Some t' \<Longrightarrow> c \<in> set ''<>&'' \<or> 0x80 \<le> byte c \<Longrightarrow> t = TkStr \<and> t' = TkStr"
  by (cases t rule: str_tok.cases) (auto simp: is_hexit_def is_hex_def split: if_splits)

lemma run_escape_html:
  "tok_run t r = Some t' \<Longrightarrow> str_tok t \<Longrightarrow> tok_run t (escape_html r) = Some t'"
proof (induction r arbitrary: t rule: escape_html.induct)
  case (2 c cs)
  obtain t1 where t1: "tok_next t c = Some t1" "tok_run t1 cs = Some t'" "str_tok t1"
    using "2.prems" str_tok_next by (auto split: option.splits)
  note plain = str_plain_next [OF "2.prems"(2) t1(1)]
  show ?case
  proof (cases "c \<in> set ''<>&''")
    case True
    then have "t = TkStr" "t1 = TkStr" using plain by auto
    then show ?thesis using True "2.IH"(1) [OF True t1(2,3)] by (simp add: tok_run_append run_escape)
  next
    case no: False
    show ?thesis
    proof (cases "line_sep (c # take 2 cs)")
      case None
      then show ?thesis using no t1 "2.IH"(2) [OF no None t1(2,3)] by simp
    next
      case (Some r)
      then obtain c2 rest where cs: "cs = CHR 0x80 # c2 # rest" "0x80 \<le> byte c2" "c = CHR 0xE2"
        by (cases cs; cases "tl cs") (auto simp: line_sep_def split: if_splits)
      then have "t = TkStr" "t1 = TkStr" using plain by auto
      then have "tok_run TkStr rest = Some t'" using t1(2) cs by (auto split: if_splits)
      then show ?thesis using no Some "2.IH"(3) [OF no Some, of TkStr] cs \<open>t = TkStr\<close>
        by (simp add: tok_run_append run_escape)
    qed
  qed
qed simp

lemma str_text_escape_html: "str_text r \<Longrightarrow> str_text (escape_html r)"
proof -
  assume "str_text r"
  then obtain cs where r: "r = CHR 0x22 # cs" "tok_run TkStr cs = Some TkClosed" by (rule str_textE)
  have "escape_html r = CHR 0x22 # escape_html cs" by (simp add: r(1) line_sep_def)
  then show ?thesis using run_escape_html [OF r(2)] by (simp add: str_text_iff)
qed

lemma open_text_children: "json_value d v \<Longrightarrow> True"
  "open_text d ph f \<Longrightarrow> d < maxNestingDepth \<and>
     (case f of FArr r vs \<Rightarrow> \<forall>v \<in> set vs. json_value (Suc d) v
      | FKey r ms \<Rightarrow> \<forall>(k, v) \<in> set ms. str_text k \<and> json_value (Suc d) v
      | FVal r ms k \<Rightarrow> str_text k \<and> (\<forall>(k, v) \<in> set ms. str_text k \<and> json_value (Suc d) v))"
  by (induction rule: json_value_open_text.inducts) auto

lemma json_value_children:
  "json_value d (VArr r vs) \<Longrightarrow> d < maxNestingDepth \<and> (\<forall>v \<in> set vs. json_value (Suc d) v)"
  "json_value d (VObj r ms) \<Longrightarrow> d < maxNestingDepth \<and> (\<forall>(k, v) \<in> set ms. str_text k \<and> json_value (Suc d) v)"
  "json_value d (VLit r) \<Longrightarrow> lit_text r" "json_value d (VText r) \<Longrightarrow> str_text r"
proof -
  assume "json_value d (VArr r vs)"
  then obtain ph r0 where "open_text d ph (FArr r0 vs)" by (cases rule: json_value.cases) auto
  from open_text_children(2) [OF this] show "d < maxNestingDepth \<and> (\<forall>v \<in> set vs. json_value (Suc d) v)" by simp
next
  assume "json_value d (VObj r ms)"
  then obtain ph r0 where "open_text d ph (FKey r0 ms)" by (cases rule: json_value.cases) auto
  from open_text_children(2) [OF this]
  show "d < maxNestingDepth \<and> (\<forall>(k, v) \<in> set ms. str_text k \<and> json_value (Suc d) v)" by simp
qed (cases rule: json_value.cases, simp_all)+

lemma compact_ok: "json_value d v \<Longrightarrow> json_value d (compact_value v)"
proof (induction v arbitrary: d rule: compact_value.induct)
  case (3 r vs)
  then show ?case using json_value_children(1) [OF "3.prems"] by (auto intro!: mk_arr_ok)
next
  case (4 r ms)
  then show ?case using json_value_children(2) [OF "4.prems"]
    by (fastforce intro!: mk_obj_ok str_text_escape_html)
qed (auto dest: json_value_children intro: Literal Text str_text_escape_html)

section \<open>Decoding\<close>

text \<open>
  The error of a value of the wrong type names the struct and the path of the field it was read into.
  A decoder takes that context, the value, and what the variable holds, and returns what it holds
  afterwards with the error, if there is one.
\<close>

type_synonym json_path = "string \<times> string list"

type_synonym 'a decoder = "json_path \<Rightarrow> jval \<Rightarrow> 'a \<Rightarrow> 'a \<times> string option"

definition UnmarshalTypeError :: "json_path \<Rightarrow> string \<Rightarrow> string \<Rightarrow> string" where
  "UnmarshalTypeError path what ty =
     (case path of (struct, names) \<Rightarrow>
        if names = [] then ''json: cannot unmarshal '' @ what @ '' into Go value of type '' @ ty
        else ''json: cannot unmarshal '' @ what @ '' into Go struct field '' @ struct @ ''.'' @
               join_with (CHR ''.'') names @ '' of type '' @ ty)"

fun kind_of :: "jval \<Rightarrow> string" where
  "kind_of (VLit r) = (if r = ''true'' \<or> r = ''false'' then ''bool'' else ''number'')"
| "kind_of (VText r) = ''string''"
| "kind_of (VArr r vs) = ''array''"
| "kind_of (VObj r ms) = ''object''"

text \<open>Into a variable of a basic type: a null leaves it alone.\<close>

definition unquoted :: "string \<Rightarrow> string" where
  "unquoted r = (case unquote r of Some s \<Rightarrow> s | None \<Rightarrow> [])"

definition json_null :: jval where "json_null = VLit ''null''"

definition dec_string :: "string decoder" where
  "dec_string path v x =
     (case v of
        VText r \<Rightarrow> (unquoted r, None)
      | _ \<Rightarrow> (x, if v = json_null then None else Some (UnmarshalTypeError path (kind_of v) ''string'')))"

definition dec_bool :: "bool decoder" where
  "dec_bool path v x =
     (if v = VLit ''true'' then (True, None)
      else if v = VLit ''false'' then (False, None)
      else (x, if v = json_null then None else Some (UnmarshalTypeError path (kind_of v) ''bool'')))"

text \<open>\<open>strconv.ParseInt\<close> on a number of JSON: no fraction, no exponent, and in the range of the type.\<close>

fun dec_digits :: "nat \<Rightarrow> string \<Rightarrow> nat option" where
  "dec_digits n [] = Some n"
| "dec_digits n (c # cs) = (if is_dec c then dec_digits (10 * n + (byte c - 48)) cs else None)"

definition ParseInt :: "string \<Rightarrow> int option" where
  "ParseInt r =
     (case r of
        CHR ''-'' # cs \<Rightarrow> map_option (\<lambda>n. - int n) (dec_digits 0 cs)
      | _ \<Rightarrow> map_option int (dec_digits 0 r))"

definition dec_integer :: "nat \<Rightarrow> string \<Rightarrow> (int \<Rightarrow> 'a) \<Rightarrow> 'a decoder" where
  "dec_integer bits ty conv path v x =
     (case v of
        VLit r \<Rightarrow>
          if v = json_null then (x, None)
          else if kind_of v = ''bool'' then (x, Some (UnmarshalTypeError path ''bool'' ty))
          else
            (case ParseInt r of
               Some i \<Rightarrow>
                 if - (2 ^ bits) \<le> i \<and> i < 2 ^ bits then (conv i, None)
                 else (x, Some (UnmarshalTypeError path (''number '' @ r) ty))
             | None \<Rightarrow> (x, Some (UnmarshalTypeError path (''number '' @ r) ty)))
      | _ \<Rightarrow> (x, Some (UnmarshalTypeError path (kind_of v) ty)))"

definition dec_int32 :: "i32 decoder" where
  "dec_int32 = dec_integer 31 ''int32'' word_of_int"

definition dec_int :: "(int \<Rightarrow> 'a) \<Rightarrow> 'a decoder" where
  "dec_int = dec_integer 63 ''int''"

text \<open>\<open>json.RawMessage\<close> keeps the text of any value, null included.\<close>

definition dec_raw :: "string decoder" where
  "dec_raw path v x = (text_of v, None)"

text \<open>
  A struct: each member of the object goes into the field of its name, or else of its name up to the
  case of letters (U+017F and U+212A fold to s and k); other members are skipped. Field names are ASCII.
\<close>

definition fold_rune :: "nat \<Rightarrow> nat" where
  "fold_rune r = (if 97 \<le> r \<and> r \<le> 122 then r - 32 else if r = 0x17F then 0x53 else if r = 0x212A then 0x4B else r)"

definition fold_name :: "string \<Rightarrow> nat list" where
  "fold_name s = map (\<lambda>(r, bs). fold_rune r) (runes s)"

definition find_field :: "(string \<times> 'f) list \<Rightarrow> string \<Rightarrow> (string \<times> 'f) option" where
  "find_field fs k =
     (case find (\<lambda>(n, f). n = k) fs of
        Some f \<Rightarrow> Some f
      | None \<Rightarrow> find (\<lambda>(n, f). fold_name n = fold_name k) fs)"

fun first_error :: "string option \<Rightarrow> string option \<Rightarrow> string option" where
  "first_error (Some e) e' = Some e"
| "first_error None e' = e'"

fun dec_members :: "string \<Rightarrow> (string \<times> 's decoder) list \<Rightarrow> string list \<Rightarrow> (string \<times> jval) list \<Rightarrow> 's \<Rightarrow> 's \<times> string option" where
  "dec_members struct fs path [] s = (s, None)"
| "dec_members struct fs path ((k, v) # ms) s =
     (case find_field fs (unquoted k) of
        None \<Rightarrow> dec_members struct fs path ms s
      | Some (n, d) \<Rightarrow>
          (case d (struct, path @ [n]) v s of (s1, e1) \<Rightarrow>
             (case dec_members struct fs path ms s1 of (s2, e2) \<Rightarrow> (s2, first_error e1 e2))))"

definition dec_struct :: "string \<Rightarrow> string \<Rightarrow> (string \<times> 's decoder) list \<Rightarrow> 's decoder" where
  "dec_struct ty struct fs path v s =
     (case v of
        VObj r ms \<Rightarrow> dec_members struct fs (snd path) ms s
      | _ \<Rightarrow> (s, if v = json_null then None else Some (UnmarshalTypeError path (kind_of v) ty)))"

text \<open>
  A slice: the elements are read into those the array of the slice holds, where it holds some (an
  earlier member of the same name may have left them), behind them into zero values. The state is the
  slice and what its array holds behind it.
\<close>

fun dec_elements :: "'a \<Rightarrow> 'a decoder \<Rightarrow> json_path \<Rightarrow> jval list \<Rightarrow> 'a list \<Rightarrow> ('a list \<times> 'a list) \<times> string option" where
  "dec_elements zero d path [] held = (([], held), None)"
| "dec_elements zero d path (v # vs) held =
     (case d path v (case held of [] \<Rightarrow> zero | y # _ \<Rightarrow> y) of (x, e1) \<Rightarrow>
        (case dec_elements zero d path vs (tl held) of ((xs, behind), e2) \<Rightarrow> ((x # xs, behind), first_error e1 e2)))"

definition dec_slice :: "string \<Rightarrow> 'a \<Rightarrow> 'a decoder \<Rightarrow> ('a list \<times> 'a list) decoder" where
  "dec_slice ty zero d path v s =
     (case v of
        VArr r vs \<Rightarrow> if vs = [] then (([], []), None) else dec_elements zero d path vs (fst s @ snd s)
      | _ \<Rightarrow> if v = json_null then (([], []), None) else (s, Some (UnmarshalTypeError path (kind_of v) ty)))"

text \<open>The type of a struct without a name, as an error shows it: its fields with their types and tags.\<close>

fun anon_fields :: "(string \<times> string \<times> string) list \<Rightarrow> string" where
  "anon_fields [] = []"
| "anon_fields ((field, ty, tag) # fs) =
     field @ '' '' @ ty @ [CHR 0x20, CHR 0x22] @ ''json:'' @ [CHR 0x5C, CHR 0x22] @ tag @ [CHR 0x5C, CHR 0x22, CHR 0x22] @
       (if fs = [] then [] else ''; '' @ anon_fields fs)"

definition anon_struct :: "(string \<times> string \<times> string) list \<Rightarrow> string" where
  "anon_struct fs = ''struct { '' @ anon_fields fs @ '' }''"

text \<open>A decoder of one field of a record.\<close>

definition at_field :: "('s \<Rightarrow> 'a) \<Rightarrow> (('a \<Rightarrow> 'a) \<Rightarrow> 's \<Rightarrow> 's) \<Rightarrow> 'a decoder \<Rightarrow> 's decoder" where
  "at_field get upd d path v s = (case d path v (get s) of (x, e) \<Rightarrow> (upd (\<lambda>_. x) s, e))"

definition unmarshal :: "'a decoder \<Rightarrow> 'a \<Rightarrow> jval \<Rightarrow> string + 'a" where
  "unmarshal d zero v = (case d ([], []) v zero of (x, None) \<Rightarrow> Inr x | (x, Some e) \<Rightarrow> Inl e)"

definition Unmarshal :: "'a decoder \<Rightarrow> 'a \<Rightarrow> string \<Rightarrow> string + 'a" where
  "Unmarshal d zero s = (case json_whole s of Inl e \<Rightarrow> Inl e | Inr v \<Rightarrow> unmarshal d zero v)"

section \<open>Lemmas: decoding what was encoded\<close>

lemma utf8_valid_ascii: "\<forall>c \<in> set s. byte c < 0x80 \<Longrightarrow> utf8_valid s"
proof (induction s)
  case (Cons c s)
  then show ?case by (simp add: utf8_valid_def runes_ascii bad_rune_def)
qed (simp add: utf8_valid_def)

lemma unquoted_encode: "unquoted (encode_string s) = ToValidUTF8 s"
  by (simp add: unquoted_def unquote_encode)

lemma unquoted_ascii: "list_all (\<lambda>c. byte c < 0x80) k \<Longrightarrow> unquoted (encode_string k) = k"
  by (simp add: unquoted_encode ToValidUTF8_id utf8_valid_ascii list_all_iff)

text \<open>Numbers are read as they are shown.\<close>

lemma dec_digits_append: "dec_digits k (s @ t) = Option.bind (dec_digits k s) (\<lambda>n. dec_digits n t)"
  by (induction k s rule: dec_digits.induct) auto

lemma dec_digits_show: "dec_digits 0 (show_nat n) = Some n"
proof (induction n rule: show_nat.induct)
  case (1 n)
  have digit: "dec_digits k [digit d] = Some (10 * k + d)" if "d < 10" for k d
    using that by (simp add: is_dec_def byte_digit)
  then show ?case using 1 by (simp add: show_nat.simps [of n] dec_digits_append)
qed

lemma ParseInt_show: "ParseInt (show_int i) = Some i"
proof (cases "i < 0")
  case False
  have "show_nat n \<noteq> CHR ''-'' # s" for n s
    using show_nat_digits [of "CHR ''-''" n] by (metis list.set_intros(1) not_hex_dash is_hex_def)
  then have "ParseInt (show_nat n) = map_option int (dec_digits 0 (show_nat n))" for n
    unfolding ParseInt_def by (auto simp del: dec_digits.simps split: list.split char.split bool.split)
  then show ?thesis using False by (simp add: show_int_def dec_digits_show)
qed (simp add: ParseInt_def show_int_def dec_digits_show)

lemma show_int_no_word: "show_int i \<noteq> ''null''" "show_int i \<noteq> ''true''" "show_int i \<noteq> ''false''"
  using not_in_show_int [of "CHR ''l''" i] not_in_show_int [of "CHR ''u''" i] by auto

lemma dec_integer_show:
  "- (2 ^ bits) \<le> i \<Longrightarrow> i < 2 ^ bits \<Longrightarrow> dec_integer bits ty conv path (VLit (show_int i)) x = (conv i, None)"
  by (simp add: dec_integer_def json_null_def show_int_no_word ParseInt_show)

text \<open>Objects as a client writes them, in the coding of the encoder.\<close>

definition client_obj :: "(string \<times> jval) list \<Rightarrow> jval" where
  "client_obj ms = mk_obj (map (\<lambda>(k, v). (encode_string k, v)) ms)"

definition client_text :: "string \<Rightarrow> jval" where
  "client_text s = VText (encode_string s)"

definition client_bool :: "bool \<Rightarrow> jval" where
  "client_bool b = VLit (if b then ''true'' else ''false'')"

lemma client_obj_ok:
  "d < maxNestingDepth \<Longrightarrow> \<forall>(k, v) \<in> set ms. json_value (Suc d) v \<Longrightarrow> json_value d (client_obj ms)"
  by (auto simp: client_obj_def str_text_encode intro!: mk_obj_ok)

lemma client_ok: "json_value d (client_text s)" "json_value d (client_bool b)"
  by (simp_all add: client_text_def client_bool_def str_text_encode json_value_open_text.Text
      json_value_open_text.Literal lit_text_def tok_start_def is_dec_def)

lemma dec_struct_obj:
  "dec_struct ty st fs path (client_obj ms) s = dec_members st fs (snd path) (map (\<lambda>(k, v). (encode_string k, v)) ms) s"
  by (simp add: dec_struct_def client_obj_def mk_obj_def)

lemma dec_client:
  "dec_string path (client_text s) x = (ToValidUTF8 s, None)" "dec_bool path (client_bool b) y = (b, None)"
  by (simp_all add: dec_string_def dec_bool_def client_text_def client_bool_def unquoted_encode)

lemma Unmarshal_text: "json_value d v \<Longrightarrow> Unmarshal dc zero (text_of v) = unmarshal dc zero v"
  using json_whole_text json_value_weaken(1) [of d v 0] by (simp add: Unmarshal_def)

lemmas decode_simps =
  dec_struct_obj dec_client unquoted_ascii find_field_def at_field_def unmarshal_def dec_raw_def

end
