(* ===== verification/McpJson.thy ===== *)
theory McpJson
  imports McpServer GoJson
begin

text \<open>
  The JSON text of the MCP messages: the structs of \<open>mcp/types.go\<close> with their tags, decoded and encoded by
  \<open>encoding/json\<close>, as the coding that the dispatcher and the HTTP handler take. The theorems are about
  the bytes a client sends and receives.
\<close>

section \<open>Decoding\<close>

definition no_request :: Request where
  "no_request = \<lparr>rq_JSONRPC = [], rq_ID = [], rq_Method = [], rq_Params = []\<rparr>"

definition dec_Request :: "Request decoder" where
  "dec_Request = dec_struct ''mcp.Request'' ''Request''
     [(''jsonrpc'', at_field rq_JSONRPC rq_JSONRPC_update dec_string),
      (''id'', at_field rq_ID rq_ID_update dec_raw),
      (''method'', at_field rq_Method rq_Method_update dec_string),
      (''params'', at_field rq_Params rq_Params_update dec_raw)]"

text \<open>The capabilities of the client are kept as text and not looked at.\<close>

definition dec_InitializeParams :: "InitializeParams decoder" where
  "dec_InitializeParams = dec_struct ''mcp.InitializeParams'' ''InitializeParams''
     [(''protocolVersion'', at_field ip_ProtocolVersion ip_ProtocolVersion_update dec_string),
      (''capabilities'', \<lambda>path v s. (s, None)),
      (''clientInfo'', dec_struct ''mcp.ClientInfo'' ''ClientInfo''
         [(''name'', at_field ip_ClientName ip_ClientName_update dec_string),
          (''version'', at_field ip_ClientVersion ip_ClientVersion_update dec_string)])]"

definition dec_CallToolParams :: "CallToolParams decoder" where
  "dec_CallToolParams = dec_struct ''mcp.CallToolParams'' ''CallToolParams''
     [(''name'', at_field cp_Name cp_Name_update dec_string),
      (''arguments'', at_field cp_Arguments cp_Arguments_update dec_raw)]"

section \<open>Encoding\<close>

text \<open>Strings, numbers, and structs; a field that is left out (\<open>omitempty\<close>) is None.\<close>

definition enc_text :: "string \<Rightarrow> jval" where "enc_text s = VText (encode_string s)"

definition enc_int :: "int \<Rightarrow> jval" where "enc_int i = VLit (show_int i)"

definition enc_struct :: "(string \<times> jval option) list \<Rightarrow> jval" where
  "enc_struct fs = mk_obj (List.map_filter (\<lambda>(n, v). map_option (Pair (encode_string n)) v) fs)"

text \<open>A raw message is checked and compacted.\<close>

definition enc_raw :: "string \<Rightarrow> string + jval" where
  "enc_raw r =
     (case json_whole r of
        Inl e \<Rightarrow> Inl (''json: error calling MarshalJSON for type json.RawMessage: '' @ e)
      | Inr v \<Rightarrow> Inr (compact_value v))"

definition enc_Content :: "Content \<Rightarrow> jval" where
  "enc_Content c = enc_struct
     [(''type'', Some (enc_text (ct_Type c))),
      (''text'', if ct_Text c = [] then None else Some (enc_text (ct_Text c)))]"

text \<open>A result without content is the zero value, with a nil slice.\<close>

definition enc_CallToolResult :: "CallToolResult \<Rightarrow> jval" where
  "enc_CallToolResult r = enc_struct
     [(''content'', Some (if cr_Content r = [] then json_null else mk_arr (map enc_Content (cr_Content r)))),
      (''isError'', if cr_IsError r then Some (VLit ''true'') else None)]"

definition enc_flag :: "bool \<Rightarrow> jval option" where
  "enc_flag b = (if b then Some (VLit ''true'') else None)"

definition enc_InitializeResult :: "InitializeResult \<Rightarrow> jval" where
  "enc_InitializeResult r = enc_struct
     [(''protocolVersion'', Some (enc_text (ir_ProtocolVersion r))),
      (''capabilities'', Some (enc_struct
         [(''tools'', map_option (\<lambda>changed. enc_struct [(''listChanged'', enc_flag changed)])
             (cap_Tools_ListChanged (ir_Capabilities r))),
          (''resources'', map_option (\<lambda>(changed, subscribe). enc_struct
                [(''listChanged'', enc_flag changed), (''subscribe'', enc_flag subscribe)])
             (cap_Resources (ir_Capabilities r)))])),
      (''serverInfo'', Some (enc_struct
         [(''name'', Some (enc_text (si_Name (ir_ServerInfo r)))),
          (''version'', Some (enc_text (si_Version (ir_ServerInfo r))))]))]"

definition enc_Tool :: "Tool \<Rightarrow> string + jval" where
  "enc_Tool t = map_sum id (\<lambda>schema. enc_struct
     [(''name'', Some (enc_text (tl_Name t))),
      (''description'', Some (enc_text (tl_Description t))),
      (''inputSchema'', Some schema)]) (enc_raw (tl_InputSchema t))"

fun enc_Tools :: "Tool list \<Rightarrow> string + jval list" where
  "enc_Tools [] = Inr []"
| "enc_Tools (t # ts) =
     (case enc_Tool t of Inl e \<Rightarrow> Inl e | Inr v \<Rightarrow> map_sum id ((#) v) (enc_Tools ts))"

fun enc_result :: "rpc_result \<Rightarrow> string + jval" where
  "enc_result (RInitialize r) = Inr (enc_InitializeResult r)"
| "enc_result (RTools ts) = map_sum id (\<lambda>vs. enc_struct [(''tools'', Some (mk_arr vs))]) (enc_Tools ts)"
| "enc_result (RCall r) = Inr (enc_CallToolResult r)"
| "enc_result RPing = Inr (mk_obj [])"

definition enc_Error :: "Error \<Rightarrow> jval" where
  "enc_Error e = enc_struct
     [(''code'', Some (enc_int (er_Code e))), (''message'', Some (enc_text (er_Message e)))]"

definition omit_or :: "'a option \<Rightarrow> ('a \<Rightarrow> string + jval) \<Rightarrow> string + jval option" where
  "omit_or x enc = (case x of None \<Rightarrow> Inr None | Some y \<Rightarrow> map_sum id Some (enc y))"

definition enc_Response :: "Response \<Rightarrow> string + jval" where
  "enc_Response r =
     (case omit_or (if rs_ID r = [] then None else Some (rs_ID r)) enc_raw of
        Inl e \<Rightarrow> Inl e
      | Inr idv \<Rightarrow>
          (case omit_or (rs_Result r) enc_result of
             Inl e \<Rightarrow> Inl e
           | Inr res \<Rightarrow> Inr (enc_struct
               [(''jsonrpc'', Some (enc_text (rs_JSONRPC r))), (''id'', idv), (''result'', res),
                (''error'', map_option enc_Error (rs_Error r))])))"

section \<open>The coding\<close>

definition too_large :: string where "too_large = ''http: request body too large''"

text \<open>\<open>Encoder.Encode\<close> ends the text with a line feed.\<close>

definition encode_line :: "jval \<Rightarrow> string" where
  "encode_line v = text_of v @ [CHR 0x0A]"

definition go_json :: json_codec where
  "go_json =
     \<lparr>jc_request = (\<lambda>body rderr.
        case json_first (if rderr then Some too_large else None) body of
          Inl e \<Rightarrow> Inl e | Inr v \<Rightarrow> unmarshal dec_Request no_request v),
      jc_init_params = Unmarshal dec_InitializeParams \<lparr>ip_ProtocolVersion = [], ip_ClientName = [], ip_ClientVersion = []\<rparr>,
      jc_call_params = Unmarshal dec_CallToolParams \<lparr>cp_Name = [], cp_Arguments = []\<rparr>,
      jc_encode = (\<lambda>r. map_sum id encode_line (enc_Response r))\<rparr>"

section \<open>Lemmas: what the encoder writes\<close>

text \<open>Text without control characters, so on one line; the tokens of JSON are such.\<close>

definition visible :: "string \<Rightarrow> bool" where
  "visible s \<longleftrightarrow> (\<forall>c \<in> set s. 0x20 \<le> byte c)"

lemma visible_simps [simp]:
  "visible []" "visible (c # s) \<longleftrightarrow> 0x20 \<le> byte c \<and> visible s" "visible (s @ t) \<longleftrightarrow> visible s \<and> visible t"
  by (auto simp: visible_def)

fun tok_left :: "tok \<Rightarrow> string" where
  "tok_left (TkWord w rest) = rest"
| "tok_left _ = []"

lemma tok_next_visible:
  "tok_next t c = Some t' \<Longrightarrow> visible (tok_left t) \<Longrightarrow> 0x20 \<le> byte c \<and> visible (tok_left t')"
  by (cases "(t, c)" rule: tok_next.cases)
    (auto simp: exp_or_def is_dec_def is_hexit_def is_hex_def split: if_splits)

lemma tok_run_visible: "tok_run t s = Some t' \<Longrightarrow> visible (tok_left t) \<Longrightarrow> visible s"
  by (induction t s rule: tok_run.induct) (auto split: option.splits dest: tok_next_visible)

lemma tok_of_visible: "tok_of s = Some t \<Longrightarrow> visible s"
proof (cases s)
  case (Cons c cs)
  assume "tok_of s = Some t"
  then obtain t0 where t0: "tok_start c = Some t0" "tok_run t0 cs = Some t"
    using Cons by (auto split: option.splits)
  have "0x20 \<le> byte c \<and> visible (tok_left t0)"
    using t0(1) by (auto simp: tok_start_def is_dec_def split: if_splits)
  then show ?thesis using tok_run_visible [OF t0(2)] Cons by simp
qed simp

lemma str_text_visible: "str_text s \<Longrightarrow> visible s"
  by (auto simp: str_text_def dest: tok_of_visible)

text \<open>Values that may be written: their text is on one line.\<close>

definition tidy :: "nat \<Rightarrow> jval \<Rightarrow> bool" where
  "tidy d v \<longleftrightarrow> json_value d v \<and> visible (text_of v)"

lemma visible_join: "visible (join_with (CHR '','') ps) \<longleftrightarrow> (\<forall>p \<in> set ps. visible p)"
  by (induction "CHR '',''" ps rule: join_with.induct) auto

lemma tidy_arr: "d < maxNestingDepth \<Longrightarrow> \<forall>v \<in> set vs. tidy (Suc d) v \<Longrightarrow> tidy d (mk_arr vs)"
  using mk_arr_ok [of d vs] by (auto simp: tidy_def mk_arr_def visible_join)

lemma tidy_obj: "d < maxNestingDepth \<Longrightarrow> \<forall>(k, v) \<in> set ms. str_text k \<and> tidy (Suc d) v \<Longrightarrow> tidy d (mk_obj ms)"
  using mk_obj_ok [of d ms] str_text_visible by (auto simp: tidy_def mk_obj_def visible_join)

lemma tidy_compact: "json_value d v \<Longrightarrow> tidy d (compact_value v)"
proof (induction v arbitrary: d rule: compact_value.induct)
  case (1 r)
  then have "lit_text r" by (rule json_value_children)
  then show ?case using "1" by (auto simp: tidy_def lit_text_def dest: tok_of_visible)
next
  case (2 r)
  then have "str_text (escape_html r)" by (intro str_text_escape_html json_value_children(4))
  then show ?case by (auto simp: tidy_def str_text_visible intro: json_value_open_text.Text)
next
  case (3 r vs)
  then show ?case using json_value_children(1) [OF "3.prems"] by (auto intro!: tidy_arr)
next
  case (4 r ms)
  then show ?case using json_value_children(2) [OF "4.prems"] by (fastforce intro!: tidy_obj str_text_escape_html)
qed

lemma tidy_text: "tidy d (enc_text s)"
  using str_text_encode [of s] by (simp add: tidy_def enc_text_def json_value_open_text.Text str_text_visible)

lemma tidy_word: "tidy d (VLit ''true'')" "tidy d json_null"
  by (simp_all add: tidy_def json_null_def lit_text_def tok_start_def is_dec_def json_value_open_text.Literal)

text \<open>Numbers are written without leading zeros.\<close>

lemma digit_char: "d < 10 \<Longrightarrow> digit d = c \<longleftrightarrow> 48 + d = byte c"
  using byte_digit [of d] of_char_eq_iff [of "digit d" c, where ?'a = nat] by metis

lemma tok_start_digit: "d < 10 \<Longrightarrow> tok_start (digit d) = Some (if d = 0 then TkZero else TkInt)"
  by (simp add: tok_start_def digit_char is_dec_def byte_digit)

lemma is_dec_digit: "d < 10 \<Longrightarrow> is_dec (digit d)"
  by (simp add: is_dec_def byte_digit)

lemma tok_show_nat:
  "tok_of (show_nat n) = Some (if n = 0 then TkZero else TkInt)"
  "tok_run TkNeg (show_nat n) = Some (if n = 0 then TkZero else TkInt)"
proof (induction n rule: show_nat.induct)
  case (1 n)
  {
    case 1
    show ?case
    proof (cases "n < 10")
      case False
      then have "n div 10 \<noteq> 0" by simp
      then show ?thesis using False "1.IH"(1) is_dec_digit [of "n mod 10"]
        by (simp add: show_nat.simps [of n] tok_of_snoc)
    qed (simp add: show_nat.simps [of n] tok_start_digit)
  next
    case 2
    show ?case
    proof (cases "n < 10")
      case False
      then have "n div 10 \<noteq> 0" by simp
      then show ?thesis using False "1.IH"(2) is_dec_digit [of "n mod 10"]
        by (simp add: show_nat.simps [of n] tok_run_snoc)
    qed (simp add: show_nat.simps [of n] digit_char is_dec_digit)
  }
qed

lemma lit_show_int: "lit_text (show_int i)"
proof (cases "i < 0")
  case True
  then show ?thesis using tok_show_nat(2) [of "nat (- i)"]
    by (simp add: lit_text_def show_int_def tok_start_def tok_number_def)
next
  case False
  then show ?thesis using tok_show_nat(1) [of "nat i"] by (auto simp: lit_text_def show_int_def tok_number_def)
qed

lemma tidy_lit: "lit_text r \<Longrightarrow> tidy d (VLit r)"
  by (auto simp: tidy_def lit_text_def intro: json_value_open_text.Literal dest: tok_of_visible)

lemma tidy_int: "tidy d (enc_int i)"
  by (simp add: enc_int_def tidy_lit lit_show_int)

text \<open>A struct whose fields are sound, those left out aside.\<close>

abbreviation tidy_field :: "nat \<Rightarrow> jval option \<Rightarrow> bool" where
  "tidy_field d \<equiv> pred_option (tidy d)"

lemma pred_option_if [simp]:
  "pred_option P (if b then x else y) \<longleftrightarrow> (if b then pred_option P x else pred_option P y)"
  by simp

lemma tidy_struct:
  assumes "d < maxNestingDepth" and "\<forall>(n, v) \<in> set fs. tidy_field (Suc d) v"
  shows "tidy d (enc_struct fs)"
  unfolding enc_struct_def
proof (rule tidy_obj [OF assms(1)])
  show "\<forall>(k, v) \<in> set (List.map_filter (\<lambda>(n, v). map_option (Pair (encode_string n)) v) fs). str_text k \<and> tidy (Suc d) v"
    using assms(2) str_text_encode by (fastforce simp: List.map_filter_def)
qed

text \<open>The nesting of the messages is far below the limit of the scanner.\<close>

lemma shallow [simp]: "d < 10 \<Longrightarrow> d < maxNestingDepth"
  by (simp add: maxNestingDepth_def)

lemma tidy_Content: "d < 9 \<Longrightarrow> tidy d (enc_Content c)"
  by (auto simp: enc_Content_def intro!: tidy_struct tidy_text)

lemma tidy_CallToolResult: "d < 7 \<Longrightarrow> tidy d (enc_CallToolResult r)"
  by (auto simp: enc_CallToolResult_def intro!: tidy_struct tidy_arr tidy_Content tidy_word)

lemma tidy_InitializeResult: "d < 6 \<Longrightarrow> tidy d (enc_InitializeResult r)"
  by (cases "cap_Tools_ListChanged (ir_Capabilities r)"; cases "cap_Resources (ir_Capabilities r)")
    (auto simp: enc_InitializeResult_def enc_flag_def intro!: tidy_struct tidy_text tidy_word)

lemma tidy_Error: "d < 9 \<Longrightarrow> tidy d (enc_Error e)"
  by (auto simp: enc_Error_def intro!: tidy_struct tidy_text tidy_int)

text \<open>Raw text that is a value: the encoder takes it.\<close>

definition raw_ok :: "nat \<Rightarrow> string \<Rightarrow> bool" where
  "raw_ok d s \<longleftrightarrow> (\<exists>v. json_value d v \<and> s = text_of v)"

lemma raw_ok_whole: "raw_ok d s \<Longrightarrow> \<exists>v. json_whole s = Inr v \<and> json_value d v"
  using json_whole_text json_value_weaken(1) [of d _ 0] by (fastforce simp: raw_ok_def)

lemma enc_raw_ok: "raw_ok d s \<Longrightarrow> \<exists>v. enc_raw s = Inr (compact_value v) \<and> json_whole s = Inr v \<and> tidy d (compact_value v)"
  using raw_ok_whole [of d s] tidy_compact by (auto simp: enc_raw_def)

lemma enc_Tools_ok:
  "d < 8 \<Longrightarrow> \<forall>t \<in> set ts. raw_ok (Suc d) (tl_InputSchema t) \<Longrightarrow> \<exists>vs. enc_Tools ts = Inr vs \<and> (\<forall>v \<in> set vs. tidy d v)"
proof (induction ts)
  case (Cons t ts)
  then obtain v where "enc_raw (tl_InputSchema t) = Inr (compact_value v)" "tidy (Suc d) (compact_value v)"
    using enc_raw_ok by fastforce
  then show ?case using Cons by (fastforce simp: enc_Tool_def intro!: tidy_struct tidy_text)
qed simp

lemma enc_result_ok:
  assumes "case res of RTools ts \<Rightarrow> \<forall>t \<in> set ts. raw_ok 4 (tl_InputSchema t) | _ \<Rightarrow> True"
  shows "\<exists>v. enc_result res = Inr v \<and> tidy 1 v"
proof (cases res)
  case (RTools ts)
  then obtain vs where "enc_Tools ts = Inr vs" "\<forall>v \<in> set vs. tidy 3 v" using enc_Tools_ok [of 3 ts] assms by auto
  then show ?thesis using RTools by (auto intro!: tidy_struct tidy_arr simp: numeral_eq_Suc)
qed (auto intro: tidy_InitializeResult tidy_CallToolResult tidy_obj)

text \<open>A response with a sound id is written, as an object with these members in this order.\<close>

definition response_members :: "Response \<Rightarrow> string list" where
  "response_members r = [''jsonrpc''] @ (if rs_ID r = [] then [] else [''id'']) @
     (if rs_Result r = None then [] else [''result'']) @ (if rs_Error r = None then [] else [''error''])"

lemma omit_or_ok:
  assumes "\<forall>y. x = Some y \<longrightarrow> (\<exists>v. enc y = Inr v \<and> tidy d v)"
  obtains res where "omit_or x enc = Inr res" "tidy_field d res" "res = None \<longleftrightarrow> x = None"
    "\<forall>y. x = Some y \<longrightarrow> (\<exists>v. enc y = Inr v \<and> res = Some v)"
  using assms that by (cases x) (auto simp: omit_or_def)

lemma enc_Response_ok:
  assumes "rs_ID r = [] \<or> raw_ok 1 (rs_ID r)"
    and "\<forall>ts. rs_Result r = Some (RTools ts) \<longrightarrow> (\<forall>t \<in> set ts. raw_ok 4 (tl_InputSchema t))"
  obtains ms where "enc_Response r = Inr (mk_obj ms)" "tidy 0 (mk_obj ms)"
    "map fst ms = map encode_string (response_members r)"
    "(encode_string ''jsonrpc'', enc_text (rs_JSONRPC r)) \<in> set ms"
    "rs_ID r \<noteq> [] \<longrightarrow> (\<exists>v. json_whole (rs_ID r) = Inr v \<and> (encode_string ''id'', compact_value v) \<in> set ms)"
proof -
  let ?id = "if rs_ID r = [] then None else Some (rs_ID r)"
  have "\<forall>y. ?id = Some y \<longrightarrow> (\<exists>v. enc_raw y = Inr v \<and> tidy 1 v)"
    using assms(1) enc_raw_ok [of 1 "rs_ID r"] by auto
  then obtain idv where idv: "omit_or ?id enc_raw = Inr idv" "tidy_field 1 idv" "idv = None \<longleftrightarrow> ?id = None"
    "\<forall>y. ?id = Some y \<longrightarrow> (\<exists>v. enc_raw y = Inr v \<and> idv = Some v)" by (rule omit_or_ok)
  have "\<forall>y. rs_Result r = Some y \<longrightarrow> (\<exists>v. enc_result y = Inr v \<and> tidy 1 v)"
    using enc_result_ok assms(2) by (auto split: rpc_result.splits)
  then obtain res where res: "omit_or (rs_Result r) enc_result = Inr res" "tidy_field 1 res" "res = None \<longleftrightarrow> rs_Result r = None"
    by (rule omit_or_ok)
  define fs where "fs = [(''jsonrpc'', Some (enc_text (rs_JSONRPC r))), (''id'', idv), (''result'', res),
    (''error'', map_option enc_Error (rs_Error r))]"
  have enc: "enc_Response r = Inr (enc_struct fs)" by (simp add: enc_Response_def idv(1) res(1) fs_def)
  define ms where "ms = List.map_filter (\<lambda>(n, v). map_option (Pair (encode_string n)) v) fs"
  have "tidy 0 (enc_struct fs)"
    using idv(2) res(2) tidy_Error [of 1]
    by (cases "rs_Error r") (auto simp: fs_def intro!: tidy_struct tidy_text)
  moreover have "map fst ms = map encode_string (response_members r)"
    unfolding ms_def fs_def response_members_def using idv(3) res(3)
    by (cases "rs_ID r = []"; cases idv; cases res; cases "rs_Error r"; simp)
  moreover have "\<exists>v. json_whole (rs_ID r) = Inr v \<and> (encode_string ''id'', compact_value v) \<in> set ms" if "rs_ID r \<noteq> []"
  proof -
    obtain v where "enc_raw (rs_ID r) = Inr v" "idv = Some v" using idv(4) \<open>rs_ID r \<noteq> []\<close> by auto
    then show ?thesis by (auto simp: ms_def fs_def enc_raw_def split: sum.splits)
  qed
  moreover have "(encode_string ''jsonrpc'', enc_text (rs_JSONRPC r)) \<in> set ms" by (simp add: ms_def fs_def)
  ultimately show thesis using that [of ms] enc by (simp add: enc_struct_def ms_def)
qed

section \<open>Lemmas: what the decoder reads\<close>

lemma find_field_set: "find_field fs k = Some f \<Longrightarrow> f \<in> set fs"
  unfolding find_field_def by (auto simp: find_Some_iff split: option.splits) (metis nth_mem)+

lemma fst_at_field: "fst (at_field get upd d path v s) = upd (\<lambda>_. fst (d path v (get s))) s"
  by (simp add: at_field_def split: prod.splits)

lemma dec_members_inv:
  assumes "P s" and "\<And>n d path v s. (n, d) \<in> set fs \<Longrightarrow> json_value dp v \<Longrightarrow> P s \<Longrightarrow> P (fst (d path v s))"
    and "\<forall>(k, v) \<in> set ms. json_value dp v"
  shows "P (fst (dec_members st fs path ms s))"
  using assms(1,3)
proof (induction ms arbitrary: s)
  case (Cons m ms)
  obtain k v where m: "m = (k, v)" by fastforce
  show ?case
  proof (cases "find_field fs (unquoted k)")
    case None
    then show ?thesis using Cons m by simp
  next
    case (Some nd)
    obtain n d where nd: "nd = (n, d)" by fastforce
    then have "(n, d) \<in> set fs" using Some find_field_set by blast
    then have "P (fst (d (st, path @ [n]) v s))" using Cons.prems m by (auto intro: assms(2))
    then have "P (fst (dec_members st fs path ms (fst (d (st, path @ [n]) v s))))" using Cons by simp
    then show ?thesis using Some nd m by (simp add: case_prod_beta)
  qed
qed simp

text \<open>The id and the parameters of a request are values of their own, inside one container.\<close>

definition raw_request :: "Request \<Rightarrow> bool" where
  "raw_request req \<longleftrightarrow> (rq_ID req = [] \<or> raw_ok 1 (rq_ID req)) \<and> (rq_Params req = [] \<or> raw_ok 1 (rq_Params req))"

lemma unmarshal_Request_raw:
  assumes "json_value 0 v" and "unmarshal dec_Request no_request v = Inr req"
  shows "raw_request req"
proof -
  have no: "raw_request no_request" by (simp add: raw_request_def no_request_def)
  have "raw_request (fst (dec_Request ([], []) v no_request))"
  proof (cases v)
    case (VObj r ms)
    have "\<forall>(k, x) \<in> set ms. json_value 1 x" using json_value_children(2) assms(1) VObj by fastforce
    moreover have "json_value 1 x \<Longrightarrow> raw_ok 1 (text_of x)" for x by (auto simp: raw_ok_def)
    ultimately show ?thesis unfolding VObj dec_Request_def dec_struct_def jval.case
      by (intro dec_members_inv [where P = raw_request and dp = 1] no)
        (auto simp: fst_at_field dec_raw_def raw_request_def)
  qed (simp_all add: dec_Request_def dec_struct_def no)
  then show ?thesis using assms(2) by (auto simp: unmarshal_def split: prod.splits option.splits)
qed

lemma go_request_raw:
  "jc_request go_json body rderr = Inr req \<Longrightarrow> raw_request req"
  using unmarshal_Request_raw json_first_sound by (fastforce simp: go_json_def split: sum.splits)

section \<open>Replies\<close>

text \<open>
  A reply to a request with this id (empty when it has none): one line that is the text of one object, its
  members the version, the id as it came (compacted), and exactly one of a result and an error.
\<close>

definition rpc_reply :: "string \<Rightarrow> string \<Rightarrow> bool" where
  "rpc_reply rid body \<longleftrightarrow>
     (\<exists>t ms. body = t @ [CHR 0x0A] \<and> CHR 0x0A \<notin> set t \<and> json_whole t = Inr (VObj t ms) \<and>
        (\<exists>res \<in> {''result'', ''error''}.
           map fst ms = map encode_string ([''jsonrpc''] @ (if rid = [] then [] else [''id'']) @ [res])) \<and>
        (encode_string ''jsonrpc'', enc_text ''2.0'') \<in> set ms \<and>
        (rid \<noteq> [] \<longrightarrow> (\<exists>v. json_whole rid = Inr v \<and> (encode_string ''id'', compact_value v) \<in> set ms)))"

lemma write_response_reply:
  assumes "rs_JSONRPC r = ''2.0''" "rs_ID r = [] \<or> raw_ok 1 (rs_ID r)"
    and "\<forall>ts. rs_Result r = Some (RTools ts) \<longrightarrow> (\<forall>t \<in> set ts. raw_ok 4 (tl_InputSchema t))"
    and "rs_Result r = None \<longleftrightarrow> rs_Error r \<noteq> None"
  shows "rpc_reply (rs_ID r) (hs_body (write_response go_json r))"
proof -
  obtain ms where ms: "enc_Response r = Inr (mk_obj ms)" "tidy 0 (mk_obj ms)"
    "map fst ms = map encode_string (response_members r)"
    "(encode_string ''jsonrpc'', enc_text (rs_JSONRPC r)) \<in> set ms"
    "rs_ID r \<noteq> [] \<longrightarrow> (\<exists>v. json_whole (rs_ID r) = Inr v \<and> (encode_string ''id'', compact_value v) \<in> set ms)"
    using assms(2,3) by (rule enc_Response_ok)
  let ?t = "text_of (mk_obj ms)"
  have "hs_body (write_response go_json r) = ?t @ [CHR 0x0A]"
    using ms(1) by (simp add: write_response_def go_json_def encode_line_def)
  moreover have "CHR 0x0A \<notin> set ?t" using ms(2) by (auto simp: tidy_def visible_def)
  moreover have "json_whole ?t = Inr (VObj ?t ms)" using json_whole_text [of "mk_obj ms"] ms(2) by (simp add: tidy_def mk_obj_def)
  moreover have "\<exists>res \<in> {''result'', ''error''}.
      map fst ms = map encode_string ([''jsonrpc''] @ (if rs_ID r = [] then [] else [''id'']) @ [res])"
    using ms(3) assms(4) by (cases "rs_Result r") (auto simp: response_members_def)
  ultimately show ?thesis using ms(4,5) assms(1) unfolding rpc_reply_def by metis
qed

text \<open>The id that a reply to a request over HTTP carries.\<close>

definition reply_id :: "http_request \<Rightarrow> string" where
  "reply_id r =
     (case jc_request go_json (fst (capped_body (hr_body r))) (snd (capped_body (hr_body r))) of
        Inl e \<Rightarrow> [] | Inr req \<Rightarrow> rq_ID req)"

lemma list_tools_schemas:
  assumes "slice_sort srt" and "\<forall>t \<in> ran (sv_tools s). raw_ok 4 (th_InputSchema t)"
    and "t \<in> set (list_tools srt ord s)"
  shows "raw_ok 4 (tl_InputSchema t)"
proof -
  obtain u where "u \<in> set (List.map_filter (sv_tools s) ord)" "tl_InputSchema t = th_InputSchema u"
    using assms(3) slice_sort.set_srt [OF assms(1)] by (auto simp: list_tools_def)
  then show ?thesis using assms(2) by (auto simp: List.map_filter_def ran_def)
qed

lemma Dispatch_lists:
  assumes "Dispatch jc srt ord s req w = (Replied resp send, w')" and "rs_Result resp = Some (RTools ts)"
  shows "ts = list_tools srt ord s"
  using assms by (auto simp: Dispatch_def Let_def split: dispatch_cases)

theorem ServeHTTP_reply:
  assumes "slice_sort srt" and "\<forall>t \<in> ran (sv_tools s). raw_ok 4 (th_InputSchema t)"
    and "ServeHTTP go_json srt ord s r w = (Served h, w')" and "hs_status h = 200"
  shows "rpc_reply (reply_id r) (hs_body h)"
proof (cases "jc_request go_json (fst (capped_body (hr_body r))) (snd (capped_body (hr_body r)))")
  case (Inl e)
  then have "h = write_response go_json \<lparr>rs_JSONRPC = ''2.0'', rs_ID = [], rs_Result = None,
      rs_Error = Some \<lparr>er_Code = ErrCodeParse, er_Message = ''parse error: '' @ e\<rparr>\<rparr>"
    using assms(3,4) by (auto simp: ServeHTTP_def writeJSONRPCError_def http_Error_def split: if_splits prod.splits)
  then show ?thesis using write_response_reply [of "\<lparr>rs_JSONRPC = ''2.0'', rs_ID = [], rs_Result = None,
      rs_Error = Some \<lparr>er_Code = ErrCodeParse, er_Message = ''parse error: '' @ e\<rparr>\<rparr>"] Inl
    by (simp add: reply_id_def)
next
  case (Inr req)
  have id: "reply_id r = rq_ID req" using Inr by (simp add: reply_id_def)
  have raw: "rq_ID req = [] \<or> raw_ok 1 (rq_ID req)" using go_request_raw [OF Inr] by (simp add: raw_request_def)
  have "\<exists>resp. h = write_response go_json resp \<and> rs_JSONRPC resp = ''2.0'' \<and> rs_ID resp = rq_ID req \<and>
    (rs_Result resp = None \<longleftrightarrow> rs_Error resp \<noteq> None) \<and> (\<forall>ts. rs_Result resp = Some (RTools ts) \<longrightarrow> ts = list_tools srt ord s)"
  proof (cases "rq_JSONRPC req \<noteq> ''2.0'' \<or> rq_Method req = []")
    case True
    then show ?thesis using assms(3,4) Inr
      by (auto simp: ServeHTTP_def writeJSONRPCError_def http_Error_def split: if_splits prod.splits)
  next
    case False
    then obtain resp w1 where d: "Dispatch go_json srt ord s req w = (Replied resp True, w1)" "h = write_response go_json resp"
      using assms(3,4) Inr
      by (auto simp: ServeHTTP_def http_Error_def split: if_splits prod.splits dispatch_outcome.splits)
    then have "reply_ok req resp True" using Dispatch_reply_ok [of go_json srt ord s req w resp True] by simp
    then show ?thesis using d Dispatch_lists [OF d(1)] by (auto simp: reply_ok_def)
  qed
  then show ?thesis using write_response_reply id raw list_tools_schemas [OF assms(1,2)] by metis
qed

end
