(* ===== verification/ToolsJson.thy ===== *)
theory ToolsJson
  imports Tools McpJson
begin

text \<open>
  The argument structs of the tools (\<open>tools/*.go\<close>) decoded by \<open>encoding/json\<close>, and the schemas the tools
  publish: every schema is JSON, and what the schema forbids the decoder lets pass.
\<close>

section \<open>Decoding the arguments\<close>

definition dec_resourceListArgs :: "resourceListArgs decoder" where
  "dec_resourceListArgs = dec_struct ''tools.resourceListArgs'' ''resourceListArgs''
     [(''kind'', at_field la_Kind la_Kind_update dec_string),
      (''apiGroup'', at_field la_APIGroup la_APIGroup_update dec_string),
      (''namespace'', at_field la_Namespace la_Namespace_update dec_string),
      (''labelSelector'', at_field la_LabelSelector la_LabelSelector_update dec_string)]"

definition dec_resourceGetArgs :: "resourceGetArgs decoder" where
  "dec_resourceGetArgs = dec_struct ''tools.resourceGetArgs'' ''resourceGetArgs''
     [(''kind'', at_field ga_Kind ga_Kind_update dec_string),
      (''apiGroup'', at_field ga_APIGroup ga_APIGroup_update dec_string),
      (''namespace'', at_field ga_Namespace ga_Namespace_update dec_string),
      (''name'', at_field ga_Name ga_Name_update dec_string)]"

definition dec_resourceApplyArgs :: "resourceApplyArgs decoder" where
  "dec_resourceApplyArgs = dec_struct ''tools.resourceApplyArgs'' ''resourceApplyArgs''
     [(''manifest'', at_field aa_Manifest aa_Manifest_update dec_string),
      (''dryRun'', at_field aa_DryRun aa_DryRun_update dec_bool),
      (''force'', at_field aa_Force aa_Force_update dec_bool)]"

definition dec_resourceDeleteArgs :: "resourceDeleteArgs decoder" where
  "dec_resourceDeleteArgs = dec_struct ''tools.resourceDeleteArgs'' ''resourceDeleteArgs''
     [(''kind'', at_field da_Kind da_Kind_update dec_string),
      (''apiGroup'', at_field da_APIGroup da_APIGroup_update dec_string),
      (''namespace'', at_field da_Namespace da_Namespace_update dec_string),
      (''name'', at_field da_Name da_Name_update dec_string)]"

definition dec_resourceSchemaArgs :: "resourceSchemaArgs decoder" where
  "dec_resourceSchemaArgs = dec_struct ''tools.resourceSchemaArgs'' ''resourceSchemaArgs''
     [(''kind'', at_field sa_Kind sa_Kind_update dec_string),
      (''apiGroup'', at_field sa_APIGroup sa_APIGroup_update dec_string)]"

definition dec_streamStatsArgs :: "streamStatsArgs decoder" where
  "dec_streamStatsArgs = dec_struct ''tools.streamStatsArgs'' ''streamStatsArgs''
     [(''name'', at_field ta_Name ta_Name_update dec_string),
      (''since'', at_field ta_Since ta_Since_update dec_string),
      (''until'', at_field ta_Until ta_Until_update dec_string)]"

definition dec_streamReadArgs :: "streamReadArgs decoder" where
  "dec_streamReadArgs = dec_struct ''tools.streamReadArgs'' ''streamReadArgs''
     [(''name'', at_field ra_Name ra_Name_update dec_string),
      (''since'', at_field ra_Since ra_Since_update dec_string),
      (''until'', at_field ra_Until ra_Until_update dec_string),
      (''limit'', at_field ra_Limit ra_Limit_update dec_int32),
      (''filter'', at_field ra_Filter ra_Filter_update dec_string)]"

definition dec_ewgArgs :: "ewgArgs decoder" where
  "dec_ewgArgs = dec_struct ''tools.ewgArgs'' ''ewgArgs''
     [(''window_seconds'', at_field wa_WindowSeconds wa_WindowSeconds_update dec_int32),
      (''max_edges'', at_field wa_MaxEdges wa_MaxEdges_update dec_int32)]"

text \<open>
  The end points are a slice of a struct without a name, which is read into the slice's elements; the
  state of the slice is its elements and what its array still holds behind them.
\<close>

definition endpoint_type :: string where
  "endpoint_type = anon_struct [(''IP'', ''string'', ''ip''), (''Port'', ''int32'', ''port'')]"

definition dec_endpoint :: "(string \<times> i32) decoder" where
  "dec_endpoint = dec_struct endpoint_type []
     [(''ip'', at_field fst apfst dec_string), (''port'', at_field snd apsnd dec_int32)]"

definition dec_resolveArgs :: "((string \<times> i32) list \<times> (string \<times> i32) list) decoder" where
  "dec_resolveArgs = dec_struct ''tools.resolveArgs'' ''resolveArgs''
     [(''endpoints'', dec_slice (''[]'' @ endpoint_type) ([], 0) dec_endpoint)]"

definition go_args :: args_json where
  "go_args =
     \<lparr>aj_list = Unmarshal dec_resourceListArgs \<lparr>la_Kind = [], la_APIGroup = [], la_Namespace = [], la_LabelSelector = []\<rparr>,
      aj_get = Unmarshal dec_resourceGetArgs \<lparr>ga_Kind = [], ga_APIGroup = [], ga_Namespace = [], ga_Name = []\<rparr>,
      aj_apply = Unmarshal dec_resourceApplyArgs \<lparr>aa_Manifest = [], aa_DryRun = False, aa_Force = False\<rparr>,
      aj_delete = Unmarshal dec_resourceDeleteArgs \<lparr>da_Kind = [], da_APIGroup = [], da_Namespace = [], da_Name = []\<rparr>,
      aj_schema = Unmarshal dec_resourceSchemaArgs \<lparr>sa_Kind = [], sa_APIGroup = []\<rparr>,
      aj_stats = Unmarshal dec_streamStatsArgs \<lparr>ta_Name = [], ta_Since = [], ta_Until = []\<rparr>,
      aj_read = Unmarshal dec_streamReadArgs \<lparr>ra_Name = [], ra_Since = [], ra_Until = [], ra_Limit = 0, ra_Filter = []\<rparr>,
      aj_resolve = (\<lambda>raw. map_sum id (\<lambda>(es, stale). \<lparr>va_Endpoints = es\<rparr>) (Unmarshal dec_resolveArgs ([], []) raw)),
      aj_ewg = Unmarshal dec_ewgArgs \<lparr>wa_WindowSeconds = 0, wa_MaxEdges = 0\<rparr>\<rparr>"

section \<open>The schemas\<close>

text \<open>The published schemas have one shape; here as values, with the text they were written as.\<close>

definition lit :: "string \<Rightarrow> string" where "lit s = [CHR 0x22] @ s @ [CHR 0x22]"

definition prop_tree :: "string \<times> string \<times> string option \<Rightarrow> string \<times> jval" where
  "prop_tree = (\<lambda>(name, ty, descr).
     (lit name, mk_obj ([(lit ''type'', VText (lit ty))] @
        (case descr of None \<Rightarrow> [] | Some d \<Rightarrow> [(lit ''description'', VText (lit d))]))))"

definition schema_tree :: "(string \<times> jval) list \<Rightarrow> string list \<Rightarrow> jval" where
  "schema_tree props required = mk_obj
     ([(lit ''type'', VText (lit ''object'')), (lit ''properties'', mk_obj props)] @
      (if required = [] then [] else [(lit ''required'', mk_arr (map (\<lambda>n. VText (lit n)) required))]) @
      [(lit ''additionalProperties'', VLit ''false'')])"

definition plain_text :: "string \<Rightarrow> bool" where
  "plain_text s \<longleftrightarrow> list_all (\<lambda>c. 0x20 \<le> byte c \<and> c \<noteq> CHR 0x22 \<and> c \<noteq> CHR 0x5C) s"

lemma run_plain: "plain_text s \<Longrightarrow> tok_run TkStr (s @ t) = tok_run TkStr t"
  by (induction s) (auto simp: plain_text_def)

lemma str_text_lit: "plain_text s \<Longrightarrow> str_text (lit s)"
  by (simp add: str_text_iff lit_def run_plain)

lemma json_lit: "plain_text s \<Longrightarrow> json_value d (VText (lit s))"
  by (simp add: str_text_lit json_value_open_text.Text)

lemma prop_tree_ok:
  assumes "plain_text n" "plain_text ty" "pred_option plain_text descr" "d < 10"
  shows "str_text (fst (prop_tree (n, ty, descr))) \<and> json_value d (snd (prop_tree (n, ty, descr)))"
  using assms str_text_lit [of "''type''"] str_text_lit [of "''description''"]
  by (cases descr) (auto simp: prop_tree_def str_text_lit plain_text_def intro!: mk_obj_ok json_lit)

text \<open>The words of the schemas.\<close>

lemma schema_words:
  "n \<in> {''type'', ''object'', ''properties'', ''required'', ''additionalProperties'', ''array'', ''items'', ''endpoints'', ''ip''}
     \<Longrightarrow> str_text (lit n) \<and> json_value d (VText (lit n))"
  using str_text_lit [of n] json_lit [of n d] by (auto simp: plain_text_def)

lemma schema_tree_ok:
  assumes "\<forall>(k, v) \<in> set props. str_text k \<and> json_value 6 v" and "\<forall>n \<in> set required. plain_text n"
  shows "json_value 4 (schema_tree props required)"
  unfolding schema_tree_def
proof (rule mk_obj_ok)
  have props: "json_value 5 (mk_obj props)" using assms(1) by (intro mk_obj_ok) auto
  have req: "json_value 5 (mk_arr (map (\<lambda>n. VText (lit n)) required))"
    using assms(2) by (intro mk_arr_ok) (auto intro: json_lit)
  have no: "json_value 5 (VLit ''false'')"
    by (simp add: json_value_open_text.Literal lit_text_def tok_start_def is_dec_def)
  show "\<forall>(k, v) \<in> set ([(lit ''type'', VText (lit ''object'')), (lit ''properties'', mk_obj props)] @
      (if required = [] then [] else [(lit ''required'', mk_arr (map (\<lambda>n. VText (lit n)) required))]) @
      [(lit ''additionalProperties'', VLit ''false'')]). str_text k \<and> json_value (Suc 4) v"
    using props req no by (simp add: schema_words)
qed simp

lemma plain_schema:
  assumes "s = text_of (schema_tree (map prop_tree ps) required)" and "\<forall>n \<in> set required. plain_text n"
    and "\<forall>(n, ty, d) \<in> set ps. plain_text n \<and> plain_text ty \<and> pred_option plain_text d"
  shows "raw_ok 4 s"
proof -
  have "\<forall>(k, v) \<in> set (map prop_tree ps). str_text k \<and> json_value 6 v"
  proof
    fix m assume "m \<in> set (map prop_tree ps)"
    then obtain n ty d where "m = prop_tree (n, ty, d)" "(n, ty, d) \<in> set ps" by auto
    then show "case m of (k, v) \<Rightarrow> str_text k \<and> json_value 6 v"
      using bspec [OF assms(3)] prop_tree_ok [of n ty d 6] by (auto simp: case_prod_beta)
  qed
  then show ?thesis using schema_tree_ok assms(1,2) unfolding raw_ok_def by blast
qed

lemmas schema_text = schema_tree_def prop_tree_def mk_obj_def mk_arr_def lit_def plain_text_def

text \<open>Every tool's schema is JSON.\<close>

lemma ResourceList_schema: "raw_ok 4 (th_InputSchema (NewResourceList k svc))"
  by (rule plain_schema [where required = "[''kind'']" and ps = "[(''kind'', ''string'', Some ''Kubernetes Kind, e.g. ClusterDirective, Dashboard''),
       (''apiGroup'', ''string'', Some ''API group; defaults to tawon.mantisnet.com''),
       (''namespace'', ''string'', Some ''Namespace; ignored for cluster-scoped resources, defaults to all namespaces for namespaced''),
       (''labelSelector'', ''string'', Some ''Standard k8s label selector'')]"])
    (simp_all add: NewResourceList_def schema_text)

lemma ResourceGet_schema: "raw_ok 4 (th_InputSchema (NewResourceGet k svc))"
  by (rule plain_schema [where required = "[''kind'', ''name'']" and ps = "[(''kind'', ''string'', None),
       (''apiGroup'', ''string'', None),
       (''namespace'', ''string'', None),
       (''name'', ''string'', None)]"])
    (simp_all add: NewResourceGet_def schema_text)

lemma ResourceApply_schema: "raw_ok 4 (th_InputSchema (NewResourceApply k svc))"
  by (rule plain_schema [where required = "[''manifest'']" and ps = "[(''manifest'', ''string'', Some ''Full resource manifest in YAML or JSON form''),
       (''dryRun'', ''boolean'', Some ''If true, validate via server-side dry-run only''),
       (''force'', ''boolean'', Some ''If true, take ownership of conflicting fields from other managers'')]"])
    (simp_all add: NewResourceApply_def schema_text)

lemma ResourceDelete_schema: "raw_ok 4 (th_InputSchema (NewResourceDelete k svc))"
  by (rule plain_schema [where required = "[''kind'', ''name'']" and ps = "[(''kind'', ''string'', None),
       (''apiGroup'', ''string'', None),
       (''namespace'', ''string'', None),
       (''name'', ''string'', None)]"])
    (simp_all add: NewResourceDelete_def schema_text)

lemma ResourceSchema_schema: "raw_ok 4 (th_InputSchema (NewResourceSchema k svc))"
  by (rule plain_schema [where required = "[''kind'']" and ps = "[(''kind'', ''string'', None),
       (''apiGroup'', ''string'', None)]"])
    (simp_all add: NewResourceSchema_def schema_text)

lemma StreamStats_schema: "raw_ok 4 (th_InputSchema (NewStreamStats k svc))"
  by (rule plain_schema [where required = "[''name'']" and ps = "[(''name'', ''string'', Some ''Stream name (see stream_list)''),
       (''since'', ''string'', Some ''Optional RFC3339 lower bound''),
       (''until'', ''string'', Some ''Optional RFC3339 upper bound'')]"])
    (simp_all add: NewStreamStats_def schema_text)

lemma StreamRead_schema: "raw_ok 4 (th_InputSchema (NewStreamRead k svc))"
  by (rule plain_schema [where required = "[''name'']" and ps = "[(''name'', ''string'', Some ''Stream name (see stream_list)''),
       (''since'', ''string'', Some ''Optional RFC3339 lower bound''),
       (''until'', ''string'', Some ''Optional RFC3339 upper bound''),
       (''limit'', ''integer'', Some ''Max messages to return (default 100, capped at 1000)''),
       (''filter'', ''string'', Some ''jq expression; only envelopes for which it yields truthy are returned'')]"])
    (simp_all add: NewStreamRead_def schema_text)

lemma EastWestGraph_schema: "raw_ok 4 (th_InputSchema (NewEastWestGraph k svc))"
  by (rule plain_schema [where required = "[]" and ps = "[(''window_seconds'', ''integer'', None),
       (''max_edges'', ''integer'', None)]"])
    (simp_all add: NewEastWestGraph_def schema_text)

lemma ClusterIdentity_schema: "raw_ok 4 (th_InputSchema (NewClusterIdentity k svc))"
  by (rule plain_schema [where required = "[]" and ps = "[]"])
    (simp_all add: NewClusterIdentity_def schema_text)

lemma EoBHealth_schema: "raw_ok 4 (th_InputSchema (NewEoBHealth k svc))"
  by (rule plain_schema [where required = "[]" and ps = "[]"])
    (simp_all add: NewEoBHealth_def schema_text)

lemma TraceHealth_schema: "raw_ok 4 (th_InputSchema (NewTraceHealth k svc))"
  by (rule plain_schema [where required = "[]" and ps = "[]"])
    (simp_all add: NewTraceHealth_def schema_text)

lemma StreamList_schema: "raw_ok 4 (th_InputSchema (NewStreamList k svc))"
  by (rule plain_schema [where required = "[]" and ps = "[]"])
    (simp_all add: NewStreamList_def schema_text)

lemma ResolveEndpoints_schema: "raw_ok 4 (th_InputSchema (NewResolveEndpoints k svc))"
proof -
  define item where "item = mk_obj [(lit ''type'', VText (lit ''object'')),
    (lit ''properties'', mk_obj (map prop_tree [(''ip'', ''string'', None), (''port'', ''integer'', None)])),
    (lit ''required'', mk_arr [VText (lit ''ip'')])]"
  define arr where "arr = mk_obj [(lit ''type'', VText (lit ''array'')), (lit ''items'', item)]"
  have ends: "str_text (fst (prop_tree (n, ty, None))) \<and> json_value 9 (snd (prop_tree (n, ty, None)))"
    if "(n, ty) \<in> {(''ip'', ''string''), (''port'', ''integer'')}" for n ty
    using that by (intro prop_tree_ok) (auto simp: plain_text_def)
  have "json_value 8 (mk_obj (map prop_tree [(''ip'', ''string'', None), (''port'', ''integer'', None)]))"
    using ends by (intro mk_obj_ok) (auto simp: case_prod_beta)
  moreover have "json_value 8 (mk_arr [VText (lit ''ip'')])" by (intro mk_arr_ok) (auto simp: schema_words)
  ultimately have "json_value 7 item" unfolding item_def by (intro mk_obj_ok) (auto simp: schema_words)
  then have "json_value 6 arr" unfolding arr_def by (intro mk_obj_ok) (auto simp: schema_words)
  then have "json_value 4 (schema_tree [(lit ''endpoints'', arr)] [''endpoints''])"
    by (intro schema_tree_ok) (auto simp: schema_words plain_text_def)
  moreover have "th_InputSchema (NewResolveEndpoints k svc) = text_of (schema_tree [(lit ''endpoints'', arr)] [''endpoints''])"
    by (simp add: NewResolveEndpoints_def schema_text arr_def item_def)
  ultimately show ?thesis unfolding raw_ok_def by blast
qed

section \<open>Arguments of an apply\<close>

text \<open>As a client writes them, by the names of the schema; and with a name that is not in the schema.\<close>

definition apply_object :: "string \<Rightarrow> bool \<Rightarrow> bool \<Rightarrow> jval" where
  "apply_object m dry force =
     client_obj [(''manifest'', client_text m), (''dryRun'', client_bool dry), (''force'', client_bool force)]"

lemma apply_object_ok: "d < 9 \<Longrightarrow> json_value d (apply_object m dry force)"
  by (auto simp: apply_object_def client_ok intro!: client_obj_ok)

lemma decode_apply:
  "aj_apply go_args (text_of (apply_object m dry force)) =
     Inr \<lparr>aa_Manifest = ToValidUTF8 m, aa_DryRun = dry, aa_Force = force\<rparr>"
  by (simp add: go_args_def Unmarshal_text [OF apply_object_ok [of 0]])
    (simp add: dec_resourceApplyArgs_def apply_object_def decode_simps)

lemma fold_ascii:
  "list_all (\<lambda>c. byte c < 0x80) s \<Longrightarrow> fold_name s = map (\<lambda>c. fold_rune (byte c)) s"
  by (induction s) (simp_all add: fold_name_def runes_ascii)

lemma dec_members_unknown:
  "\<forall>(k, v) \<in> set ms. find_field fs (unquoted k) = None \<Longrightarrow> dec_members st fs path ms s = (s, None)"
  by (induction ms) auto

text \<open>
  C9. Arguments that the schema forbids are dropped in silence: whatever members an apply carries beside its
  manifest, as long as their names are not, up to case, \<open>dryRun\<close> or \<open>force\<close>, it decodes without an error as
  an apply that is no dry run, although the schema says that there are no additional properties.
\<close>

theorem unknown_arguments_ignored:
  assumes "\<forall>(name, v) \<in> set extra. json_value 1 v \<and>
      fold_name (ToValidUTF8 name) \<notin> fold_name ` {''manifest'', ''dryRun'', ''force''}"
  shows "aj_apply go_args (text_of (client_obj ((''manifest'', client_text m) # extra))) =
     Inr \<lparr>aa_Manifest = ToValidUTF8 m, aa_DryRun = False, aa_Force = False\<rparr>"
proof -
  have ok: "json_value 0 (client_obj ((''manifest'', client_text m) # extra))"
    using assms by (auto simp: client_ok intro!: client_obj_ok)
  have unknown: "dec_members ''resourceApplyArgs'' [(''manifest'', d1), (''dryRun'', d2), (''force'', d3)] []
      (map (\<lambda>(k, v). (encode_string k, v)) extra) s = (s, None)" for d1 d2 d3 and s :: resourceApplyArgs
  proof (rule dec_members_unknown)
    have "find_field [(''manifest'', d1), (''dryRun'', d2), (''force'', d3)] (ToValidUTF8 name) = None"
      if "fold_name (ToValidUTF8 name) \<notin> fold_name ` {''manifest'', ''dryRun'', ''force''}" for name
      using that by (simp add: find_field_def) metis
    then show "\<forall>(k, v) \<in> set (map (\<lambda>(k, v). (encode_string k, v)) extra).
        find_field [(''manifest'', d1), (''dryRun'', d2), (''force'', d3)] (unquoted k) = None"
      using assms by (fastforce simp: unquoted_encode)
  qed
  show ?thesis
    by (simp add: go_args_def Unmarshal_text [OF ok])
      (simp add: dec_resourceApplyArgs_def decode_simps unknown)
qed

text \<open>The flag of a dry run, written in another style.\<close>

lemma unknown_arguments_ignored_witness:
  "aj_apply go_args (text_of (client_obj [(''manifest'', client_text ''a''), (''dry_run'', client_bool True)])) =
     Inr \<lparr>aa_Manifest = ''a'', aa_DryRun = False, aa_Force = False\<rparr>"
  using unknown_arguments_ignored [of "[(''dry_run'', client_bool True)]" "''a''"]
  by (simp add: client_ok ToValidUTF8_id utf8_valid_ascii fold_ascii fold_rune_def)

end
