(* ===== verification/Wire.thy ===== *)
theory Wire
  imports System ToolsJson
begin

text \<open>
  The process on the wire: with the coding of \<open>encoding/json\<close> in the place of the parameter, the bytes of a
  request and of its reply. Every reply is one line of JSON-RPC, and an apply that a client writes as JSON
  is carried out on exactly the manifest it wrote.
\<close>

section \<open>Lemmas\<close>

lemma tool_schemas:
  "t \<in> set (core_tools k svc) \<union> set (resource_tools k svc) \<union> set (stream_tools k svc) \<Longrightarrow> raw_ok 4 (th_InputSchema t)"
  using ClusterIdentity_schema EoBHealth_schema TraceHealth_schema ResolveEndpoints_schema EastWestGraph_schema
    ResourceList_schema ResourceGet_schema ResourceApply_schema ResourceDelete_schema ResourceSchema_schema
    StreamList_schema StreamStats_schema StreamRead_schema
  by (auto simp: core_tools_def resource_tools_def stream_tools_def)

lemma registered_schemas:
  assumes "buildMCPServer k version svc haveDyn haveStreams = Inr srv" and "t \<in> ran (sv_tools srv)"
  shows "raw_ok 4 (th_InputSchema t)"
proof -
  have tools: "sv_tools srv = by_name (core_tools k svc) ++ (if haveDyn then by_name (resource_tools k svc) else Map.empty) ++
       (if haveStreams then by_name (stream_tools k svc) else Map.empty)"
    by (rule buildMCPServer_ok [of k version svc haveDyn haveStreams]) (use assms(1) in simp)
  obtain n where "sv_tools srv n = Some t" using assms(2) by (auto simp: ran_def)
  then have "by_name (core_tools k svc) n = Some t \<or> by_name (resource_tools k svc) n = Some t \<or>
      by_name (stream_tools k svc) n = Some t"
    using tools by (auto split: if_splits)
  then show ?thesis using by_name_SomeD by (intro tool_schemas [of t k svc]) blast
qed

text \<open>The tools that a service has the clients for.\<close>

definition tools_of :: "('q, 'code) tool_env \<Rightarrow> 'c Service \<Rightarrow> 'c world ToolHandler list" where
  "tools_of k svc = core_tools k svc @ (if srv_dyn svc = None then [] else resource_tools k svc) @
     (if srv_streams svc = None then [] else stream_tools k svc)"

lemma by_name_iff: "distinct (map th_Name ts) \<Longrightarrow> by_name ts n = Some t \<longleftrightarrow> t \<in> set ts \<and> th_Name t = n"
  unfolding by_name_def by (subst map_of_eq_Some_iff) (auto simp: comp_def)

lemma registered_iff:
  assumes "buildMCPServer k version svc (srv_dyn svc \<noteq> None) (srv_streams svc \<noteq> None) = Inr srv"
  shows "sv_tools srv n = Some t \<longleftrightarrow> t \<in> set (tools_of k svc) \<and> th_Name t = n"
proof -
  let ?n1 = "map th_Name (core_tools k svc)" and ?n2 = "map th_Name (resource_tools k svc)"
    and ?n3 = "map th_Name (stream_tools k svc)"
  have "distinct (?n1 @ ?n2 @ ?n3)" unfolding core_names resource_names stream_names by simp
  then have distinct: "distinct ?n1" "distinct ?n2" "distinct ?n3"
    and apart: "\<And>t u. t \<in> set (core_tools k svc) \<Longrightarrow> u \<in> set (resource_tools k svc) \<Longrightarrow> th_Name t \<noteq> th_Name u"
      "\<And>t u. t \<in> set (core_tools k svc) \<Longrightarrow> u \<in> set (stream_tools k svc) \<Longrightarrow> th_Name t \<noteq> th_Name u"
      "\<And>t u. t \<in> set (resource_tools k svc) \<Longrightarrow> u \<in> set (stream_tools k svc) \<Longrightarrow> th_Name t \<noteq> th_Name u"
    by (auto simp: disjoint_iff)
  have tools: "sv_tools srv = by_name (core_tools k svc) ++ (if srv_dyn svc \<noteq> None then by_name (resource_tools k svc) else Map.empty) ++
       (if srv_streams svc \<noteq> None then by_name (stream_tools k svc) else Map.empty)"
    by (rule buildMCPServer_ok [of k version svc "srv_dyn svc \<noteq> None" "srv_streams svc \<noteq> None"]) (use assms(1) in simp)
  have none: "by_name ts n = None \<longleftrightarrow> n \<notin> th_Name ` set ts" for ts :: "'b world ToolHandler list"
    using dom_by_name [of ts] by (metis domIff list.set_map)
  show ?thesis
    by (cases "srv_dyn svc = None"; cases "srv_streams svc = None")
      (auto simp: tools tools_of_def map_add_Some_iff by_name_iff [OF distinct(1)] by_name_iff [OF distinct(2)]
        by_name_iff [OF distinct(3)] none dest: apart)
qed

lemma run_mcp:
  assumes "run env httpListen grpcListen opts info = (err, Some st, ops)"
  obtains srv where "\<And>r a. hr_path r = ''/mcp'' \<Longrightarrow> hv_Handler (st_http st) r a =
      (case ServeHTTP (re_codec env) (re_sortTools env) (re_toolOrder env) srv r (ap_world a) of
         (out, w') \<Rightarrow> (map_served (\<lambda>h. page_of h []) out, a\<lparr>ap_world := w'\<rparr>))"
    "\<forall>t \<in> ran (sv_tools srv). raw_ok 4 (th_InputSchema t)"
    "\<And>n t. sv_tools srv n = Some t \<longleftrightarrow> t \<in> set (tools_of (re_tools env) (st_service st)) \<and> th_Name t = n"
proof (rule run_started [OF assms(1)])
  fix kube w b reader srv tls
  assume service: "buildService (re_libs env) (FromEnv (re_getenv env) (re_resolvConf env) (fst info)) kube
      (re_cluster env) (re_now env) = Inr ((st_service st, w), b, reader)"
    and srv: "buildMCPServer (re_tools env) (fst info) (st_service st) (sb_haveDyn b) (sb_haveStreams b) = Inr srv"
    and http: "st_http st = buildHTTPServer httpListen (http_handlers env info (srv_cfg (st_service st)) srv)
      (start_journey (srv_cfg (st_service st)) (re_busConnect env) (re_busSubscribe env) \<noteq> None) tls"
  have "he_mcp (http_handlers env info (srv_cfg (st_service st)) srv) =
      mcpHandler (re_codec env) (re_sortTools env) (re_toolOrder env) srv"
    by (simp add: http_handlers_def)
  moreover have "sb_haveDyn b = (srv_dyn (st_service st) \<noteq> None)" "sb_haveStreams b = (srv_streams (st_service st) \<noteq> None)"
    using buildService_Inr [OF service] by blast+
  note registered_iff [OF srv [unfolded this]]
  ultimately show thesis using that mcp_route registered_schemas [OF srv] unfolding http by blast
qed

lemma serve_each_nth:
  "serve_each h rs a = (outs, a') \<Longrightarrow> i < length rs \<Longrightarrow> \<exists>a1. outs ! i = fst (h (rs ! i) a1)"
  by (induction rs arbitrary: a outs i) (auto simp: less_Suc_eq_0_disj split: prod.splits, metis fst_conv)

lemma page_of_simps [simp]: "hs_status (page_of h hs) = hs_status h" "hs_body (page_of h hs) = hs_body h"
  by (simp_all add: page_of_def)

text \<open>A reply that a handler of the running process makes at \<open>/mcp\<close>.\<close>

lemma mcp_page:
  assumes "run env httpListen grpcListen opts info = (err, Some st, ops)"
    and "re_codec env = go_json" and "slice_sort (re_sortTools env)"
    and "hr_path r = ''/mcp''" and "fst (hv_Handler (st_http st) r a) = Served page" and "hs_status page = 200"
  shows "rpc_reply (reply_id r) (hs_body page)"
proof (rule run_mcp [OF assms(1)])
  fix srv
  assume route: "\<And>r a. hr_path r = ''/mcp'' \<Longrightarrow> hv_Handler (st_http st) r a =
      (case ServeHTTP (re_codec env) (re_sortTools env) (re_toolOrder env) srv r (ap_world a) of
         (out, w') \<Rightarrow> (map_served (\<lambda>h. page_of h []) out, a\<lparr>ap_world := w'\<rparr>))"
    and schemas: "\<forall>t \<in> ran (sv_tools srv). raw_ok 4 (th_InputSchema t)"
  obtain out w' where out: "ServeHTTP go_json (re_sortTools env) (re_toolOrder env) srv r (ap_world a) = (out, w')"
    by fastforce
  then obtain h where h: "out = Served h" "page = page_of h []"
    using assms(5) unfolding route [OF assms(4)] assms(2) by (cases out) auto
  then show ?thesis using ServeHTTP_reply [OF assms(3) schemas out [unfolded h(1)]] assms(6) by simp
qed

section \<open>The bytes of a call\<close>

text \<open>A call of a tool as a client writes it.\<close>

definition call_object :: "int \<Rightarrow> string \<Rightarrow> jval \<Rightarrow> jval" where
  "call_object n tool args = client_obj
     [(''jsonrpc'', client_text ''2.0''), (''id'', VLit (show_int n)), (''method'', client_text ''tools/call''),
      (''params'', client_obj [(''name'', client_text tool), (''arguments'', args)])]"

definition call_request :: "int \<Rightarrow> string \<Rightarrow> jval \<Rightarrow> Request" where
  "call_request n tool args = \<lparr>rq_JSONRPC = ''2.0'', rq_ID = show_int n, rq_Method = ''tools/call'',
     rq_Params = text_of (client_obj [(''name'', client_text tool), (''arguments'', args)])\<rparr>"

lemma call_params_ok: "json_value 2 args \<Longrightarrow> json_value 1 (client_obj [(''name'', client_text tool), (''arguments'', args)])"
  by (auto simp: client_ok numeral_2_eq_2 intro!: client_obj_ok)

lemma call_object_ok: "json_value 2 args \<Longrightarrow> json_value 0 (call_object n tool args)"
  using call_params_ok [of args tool]
  by (auto simp: call_object_def client_ok lit_show_int intro!: client_obj_ok Literal)

lemma decode_call:
  assumes "json_value 2 args"
  shows "jc_request go_json (text_of (call_object n tool args)) False = Inr (call_request n tool args)"
    and "jc_call_params go_json (rq_Params (call_request n tool args)) = Inr \<lparr>cp_Name = ToValidUTF8 tool, cp_Arguments = text_of args\<rparr>"
proof -
  have "ToValidUTF8 ''2.0'' = ''2.0''" "ToValidUTF8 ''tools/call'' = ''tools/call''"
    by (simp_all add: ToValidUTF8_id utf8_valid_ascii)
  then show "jc_request go_json (text_of (call_object n tool args)) False = Inr (call_request n tool args)"
    by (simp add: go_json_def json_first_text(2) [OF call_object_ok [OF assms]])
      (simp add: dec_Request_def no_request_def call_object_def call_request_def decode_simps)
  show "jc_call_params go_json (rq_Params (call_request n tool args)) = Inr \<lparr>cp_Name = ToValidUTF8 tool, cp_Arguments = text_of args\<rparr>"
    by (simp add: go_json_def call_request_def Unmarshal_text [OF call_params_ok [OF assms]])
      (simp add: dec_CallToolParams_def decode_simps)
qed

text \<open>A number is no null: the call is not a notification.\<close>

lemma call_not_notification: "\<not> isNotification (call_request n tool args)"
proof -
  have "rq_ID (call_request n tool args) = show_int n" by (simp add: call_request_def)
  moreover have "CHR ''n'' \<notin> set (show_int n)" by (rule not_in_show_int) simp
  moreover have "show_int n \<noteq> []" by (simp add: show_int_def)
  ultimately show ?thesis by (auto simp: isNotification_iff)
qed

section \<open>The bytes of a reply\<close>

text \<open>The reply to the call \<open>n\<close> as a client reads it, and what a tool hands back in it.\<close>

definition reply_line :: "int \<Rightarrow> string \<Rightarrow> jval \<Rightarrow> string" where
  "reply_line n member v = text_of (client_obj
     [(''jsonrpc'', client_text ''2.0''), (''id'', VLit (show_int n)), (member, v)]) @ [CHR 0x0A]"

definition error_object :: "int \<Rightarrow> string \<Rightarrow> jval" where
  "error_object code msg = client_obj [(''code'', VLit (show_int code)), (''message'', client_text msg)]"

definition tool_answer :: "string \<Rightarrow> bool \<Rightarrow> jval" where
  "tool_answer t failed = client_obj
     ((''content'', mk_arr [client_obj ((''type'', client_text ''text'') # (if t = [] then [] else [(''text'', client_text t)]))])
      # (if failed then [(''isError'', VLit ''true'')] else []))"

lemma enc_raw_int: "enc_raw (show_int n) = Inr (VLit (show_int n))"
  using json_whole_text [of "VLit (show_int n)"] by (simp add: enc_raw_def lit_show_int json_value_open_text.Literal)

lemma show_int_not_nil: "show_int n \<noteq> []"
  by (simp add: show_int_def)

lemma enc_answer:
  "enc_CallToolResult (text_result t) = tool_answer t False"
  "enc_CallToolResult ((text_result t)\<lparr>cr_IsError := True\<rparr>) = tool_answer t True"
  by (simp_all add: enc_CallToolResult_def tool_answer_def text_result_def enc_Content_def enc_struct_def
      client_obj_def client_text_def enc_text_def map_filter_simps)

lemma write_reply:
  "hs_body (write_response go_json \<lparr>rs_JSONRPC = ''2.0'', rs_ID = show_int n, rs_Result = None,
     rs_Error = Some \<lparr>er_Code = code, er_Message = msg\<rparr>\<rparr>) = reply_line n ''error'' (error_object code msg)"
  "hs_body (write_response go_json \<lparr>rs_JSONRPC = ''2.0'', rs_ID = show_int n, rs_Result = Some (RCall r), rs_Error = None\<rparr>) =
     reply_line n ''result'' (enc_CallToolResult r)"
  by (simp_all add: write_response_def go_json_def enc_Response_def omit_or_def show_int_not_nil enc_raw_int encode_line_def
      reply_line_def error_object_def enc_Error_def enc_int_def enc_struct_def client_obj_def client_text_def enc_text_def map_filter_simps)

text \<open>A tool that returns hands back one text.\<close>

lemma emitProto_text: "emitProto m r = CallOk x \<Longrightarrow> \<exists>t. x = text_result t"
  by (auto simp: emitProto_def split: sum.splits)

lemmas call_defs =
  ClusterIdentity_Call_def EoBHealth_Call_def TraceHealth_Call_def ResolveEndpoints_Call_def EastWestGraph_Call_def
  ResourceList_Call_def ResourceGet_Call_def ResourceApply_Call_def ResourceDelete_Call_def ResourceSchema_Call_def
  StreamList_Call_def StreamStats_Call_def StreamRead_Call_def

lemmas handler_defs =
  NewClusterIdentity_def NewEoBHealth_def NewTraceHealth_def NewResolveEndpoints_def NewEastWestGraph_def
  NewResourceList_def NewResourceGet_def NewResourceApply_def NewResourceDelete_def NewResourceSchema_def
  NewStreamList_def NewStreamStats_def NewStreamRead_def

lemma tools_of_cases:
  assumes "t \<in> set (tools_of k svc)"
  shows "t \<in> set (core_tools k svc) \<or> t \<in> set (resource_tools k svc) \<or> t \<in> set (stream_tools k svc)"
  using assms by (auto simp: tools_of_def split: if_splits)

lemma tool_text:
  assumes "t \<in> set (tools_of k svc)" and "th_Call t raw w = (CallOk r, w')"
  shows "\<exists>msg. r = text_result msg"
  using tools_of_cases [OF assms(1)] assms(2)
  unfolding core_tools_def resource_tools_def stream_tools_def
  by (auto simp: handler_defs call_defs split: sum.splits option.splits prod.splits dest: emitProto_text)

section \<open>The version\<close>

text \<open>What \<open>/version\<close> writes: a struct of three texts.\<close>

definition enc_version :: "string \<times> string \<times> string \<Rightarrow> string" where
  "enc_version = (\<lambda>(version, commit, date). encode_line (enc_struct
     [(''version'', Some (enc_text version)), (''commit'', Some (enc_text commit)), (''date'', Some (enc_text date))]))"

lemma version_is_json:
  "\<exists>page t. versionHandler enc_version (version, commit, date) r a = (Served page, a) \<and>
     hs_body page = t @ [CHR 0x0A] \<and> CHR 0x0A \<notin> set t \<and>
     json_whole t = Inr (VObj t [(encode_string ''version'', enc_text version),
       (encode_string ''commit'', enc_text commit), (encode_string ''date'', enc_text date)])"
proof -
  let ?v = "enc_struct [(''version'', Some (enc_text version)), (''commit'', Some (enc_text commit)), (''date'', Some (enc_text date))]"
  have "tidy 0 ?v" by (auto intro!: tidy_struct tidy_text)
  then have "json_whole (text_of ?v) = Inr ?v" "CHR 0x0A \<notin> set (text_of ?v)"
    using json_whole_text by (auto simp: tidy_def visible_def)
  then show ?thesis
    by (intro exI [of _ "page_of \<lparr>hs_status = 200, hs_ctype = ''application/json; charset=utf-8'',
        hs_body = enc_version (version, commit, date)\<rparr> []"] exI [of _ "text_of ?v"])
      (simp add: versionHandler_def enc_version_def encode_line_def enc_struct_def mk_obj_def)
qed

section \<open>Properties\<close>

text \<open>
  C8. Whatever arrives at \<open>/mcp\<close>, a reply with status 200 is one line of JSON: an object with the version
  2.0, the id of the request just as it came (no id when the request has none or does not parse), and
  exactly one of a result and an error.
\<close>

theorem mcp_replies_are_rpc:
  assumes "run env httpListen grpcListen opts info = (err, Some st, ops)"
    and "serve_each (hv_Handler (st_http st)) rs (st_app st) = (outs, a)"
    and "re_codec env = go_json" and "slice_sort (re_sortTools env)"
    and "i < length rs" and "hr_path (rs ! i) = ''/mcp''" and "outs ! i = Served page" and "hs_status page = 200"
  shows "rpc_reply (reply_id (rs ! i)) (hs_body page)"
proof -
  obtain a1 where "Served page = fst (hv_Handler (st_http st) (rs ! i) a1)"
    using serve_each_nth [OF assms(2,5)] assms(7) by auto
  then show ?thesis using mcp_page [OF assms(1,3,4,6)] assms(8) by metis
qed

lemma apply_object_text: "text_of (apply_object m dry force) \<noteq> []"
  by (simp add: apply_object_def client_obj_def mk_obj_def)

text \<open>
  C7. An apply on the wire: a client that writes an apply of a manifest as JSON, with either flag, and posts it
  to \<open>/mcp\<close> within the size limit, has exactly this manifest and these flags carried out, once, by
  \<open>ResourceApply\<close>; the apply is audited exactly when it reaches the apiserver, and the answer, with
  status 200, is one line of JSON-RPC with the id of the call.
\<close>

theorem posted_apply:
  assumes "run env httpListen grpcListen opts info = (err, Some st, ops)" and "New_Client (re_kube env) = Inr kube"
    and "serve_each (hv_Handler (st_http st)) rs (st_app st) = (outs, a)"
    and "re_codec env = go_json" and "te_args (re_tools env) = go_args" and "slice_sort (re_sortTools env)"
    and "body = text_of (call_object n ''resource_apply'' (apply_object m dry force))"
    and "length body \<le> MaxRequestBytes" and "utf8_valid m"
  shows "\<exists>res w' page.
    ResourceApply (k_codec (te_calls (re_tools env))) (k_ua (te_calls (re_tools env))) (st_service st)
       \<lparr>aq_Manifest = m, aq_DryRun = dry, aq_Force = force\<rparr> (ap_world a) = Some (res, w') \<and>
    hv_Handler (st_http st) \<lparr>hr_method = ''POST'', hr_path = ''/mcp'', hr_body = body\<rparr> a =
      (Served page, a\<lparr>ap_world := w'\<rparr>) \<and>
    hs_status page = 200 \<and> rpc_reply (show_int n) (hs_body page) \<and>
    (if apply_reached res then \<exists>ev. ae_Reason ev = ''ResourceApply'' \<and> apply_event_ok res ev \<and> audited ev (ap_world a) w'
     else isl res \<and> w' = ap_world a)"
proof -
  let ?r = "\<lparr>hr_method = ''POST'', hr_path = ''/mcp'', hr_body = body\<rparr>"
  let ?req = "call_request n ''resource_apply'' (apply_object m dry force)"
  let ?p = "\<lparr>cp_Name = ''resource_apply'', cp_Arguments = text_of (apply_object m dry force)\<rparr>"
  have args_ok: "json_value 2 (apply_object m dry force)" by (simp add: apply_object_ok)
  have body: "capped_body body = (body, False)" using assms(8) by (simp add: capped_body_def)
  then have req: "jc_request (re_codec env) (fst (capped_body (hr_body ?r))) (snd (capped_body (hr_body ?r))) = Inr ?req"
    using decode_call(1) [OF args_ok] assms(4,7) by simp
  have params: "jc_call_params (re_codec env) (rq_Params ?req) = Inr ?p"
    using decode_call(2) [OF args_ok] assms(4) by (simp add: ToValidUTF8_id utf8_valid_ascii)
  have id: "reply_id ?r = show_int n"
    using req assms(4) by (simp add: reply_id_def call_request_def)
  have args: "aj_apply (te_args (re_tools env)) (cp_Arguments ?p) =
      Inr \<lparr>aa_Manifest = m, aa_DryRun = dry, aa_Force = force\<rparr>"
    using decode_apply assms(5,9) by (simp add: ToValidUTF8_id)
  have "\<exists>res w' page.
    ResourceApply (k_codec (te_calls (re_tools env))) (k_ua (te_calls (re_tools env))) (st_service st)
       \<lparr>aq_Manifest = m, aq_DryRun = dry, aq_Force = force\<rparr> (ap_world a) = Some (res, w') \<and>
    hv_Handler (st_http st) ?r a = (Served page, a\<lparr>ap_world := w'\<rparr>) \<and> hs_status page = 200 \<and>
    (if apply_reached res then \<exists>ev. ae_Reason ev = ''ResourceApply'' \<and> apply_event_ok res ev \<and> audited ev (ap_world a) w'
     else isl res \<and> w' = ap_world a)"
    using http_apply [OF run_state_inv [OF assms(1,3)] assms(1,2) _ _ req _ _ params _ _ args] call_not_notification
    by (simp add: call_request_def apply_object_text)
  moreover have "rpc_reply (show_int n) (hs_body page)"
    if "hv_Handler (st_http st) ?r a = (Served page, a\<lparr>ap_world := w'\<rparr>)" "hs_status page = 200" for page w'
    using mcp_page [OF assms(1,4,6), of ?r a page] that id by simp
  ultimately show ?thesis by blast
qed

text \<open>An answer with status 200 and this line, and the world it leaves.\<close>

definition answers :: "'c handler \<Rightarrow> http_request \<Rightarrow> 'c app \<Rightarrow> string \<Rightarrow> 'c world \<Rightarrow> bool" where
  "answers h r a line w' \<longleftrightarrow> (\<exists>page. h r a = (Served page, a\<lparr>ap_world := w'\<rparr>) \<and> hs_status page = 200 \<and> hs_body page = line)"

text \<open>
  C15. A call of a tool on the wire: a client that posts a call, within the size limit, is told apart what went
  wrong. A name that is none of the tools of the running service is a JSON-RPC error -32601 that names it, and
  nothing is called; a tool is called once, on exactly the bytes of the arguments, and whether it succeeds
  or fails the reply is a JSON-RPC result with the text the tool gave, flagged as an error exactly when it
  failed. Only \<open>stream_read\<close> can stay without an answer.
\<close>

theorem posted_call_outcome:
  assumes "run env httpListen grpcListen opts info = (err, Some st, ops)"
    and "serve_each (hv_Handler (st_http st)) rs (st_app st) = (outs, a)" and "re_codec env = go_json"
    and "json_value 2 args" and "utf8_valid tool"
    and "r = \<lparr>hr_method = ''POST'', hr_path = ''/mcp'', hr_body = text_of (call_object n tool args)\<rparr>"
    and "length (hr_body r) \<le> MaxRequestBytes"
  shows "(tool \<notin> th_Name ` set (tools_of (re_tools env) (st_service st)) \<longrightarrow>
      answers (hv_Handler (st_http st)) r a
        (reply_line n ''error'' (error_object (- 32601) (''tool not found: '' @ tool))) (ap_world a)) \<and>
    (\<forall>t out w'. t \<in> set (tools_of (re_tools env) (st_service st)) \<and> th_Name t = tool \<and>
        th_Call t (text_of args) (ap_world a) = (out, w') \<longrightarrow>
      (if out = CallHang then tool = ''stream_read'' \<and> fst (hv_Handler (st_http st) r a) = ServeHang
       else \<exists>msg. out \<in> {CallOk (text_result msg), CallErr msg} \<and>
         answers (hv_Handler (st_http st)) r a (reply_line n ''result'' (tool_answer msg (out = CallErr msg))) w'))"
proof -
  obtain srv where route: "hv_Handler (st_http st) r a =
      (case ServeHTTP go_json (re_sortTools env) (re_toolOrder env) srv r (ap_world a) of
         (out, w') \<Rightarrow> (map_served (\<lambda>h. page_of h []) out, a\<lparr>ap_world := w'\<rparr>))"
    and tools: "\<And>n t. sv_tools srv n = Some t \<longleftrightarrow> t \<in> set (tools_of (re_tools env) (st_service st)) \<and> th_Name t = n"
    by (rule run_mcp [OF assms(1)]) (simp add: assms(3,6))
  let ?req = "call_request n tool args" and ?p = "\<lparr>cp_Name = tool, cp_Arguments = text_of args\<rparr>"
  have req: "jc_request go_json (fst (capped_body (hr_body r))) (snd (capped_body (hr_body r))) = Inr ?req"
    using decode_call(1) [OF assms(4)] assms(6,7) by (simp add: capped_body_def)
  have params: "jc_call_params go_json (rq_Params ?req) = Inr ?p"
    using decode_call(2) [OF assms(4)] assms(5) by (simp add: ToValidUTF8_id)
  have fields: "rq_JSONRPC ?req = ''2.0''" "rq_ID ?req = show_int n" "rq_Method ?req = ''tools/call''"
    by (simp_all add: call_request_def)
  have post: "hr_method r = ''POST''" by (simp add: assms(6))
  note serve = ServeHTTP_def [of go_json _ _ srv r] Dispatch_def [of go_json _ _ srv ?req]
  note simps = serve post case_prod_beta req fields params call_not_notification Let_def
  have "answers (hv_Handler (st_http st)) r a
        (reply_line n ''error'' (error_object (- 32601) (''tool not found: '' @ tool))) (ap_world a)"
    if "tool \<notin> th_Name ` set (tools_of (re_tools env) (st_service st))"
  proof -
    have "sv_tools srv tool = None" using tools that by (metis imageI not_None_eq)
    then show ?thesis
      unfolding answers_def route by (simp add: simps ErrCodeMethodNotFound_def write_reply) (simp add: write_response_def)
  qed
  moreover have "if out = CallHang then tool = ''stream_read'' \<and> fst (hv_Handler (st_http st) r a) = ServeHang
       else \<exists>msg. out \<in> {CallOk (text_result msg), CallErr msg} \<and>
         answers (hv_Handler (st_http st)) r a (reply_line n ''result'' (tool_answer msg (out = CallErr msg))) w'"
    if t: "t \<in> set (tools_of (re_tools env) (st_service st))" "th_Name t = tool"
      and call: "th_Call t (text_of args) (ap_world a) = (out, w')" for t out w'
  proof -
    have lookup: "sv_tools srv tool = Some t" using t tools by blast
    have "tool_ok t" using tools_of_cases [OF t(1)] by (rule all_tools_ok)
    then have ok: "out \<noteq> CallPanic" "out = CallHang \<longrightarrow> tool = ''stream_read''"
      using run_state_inv [OF assms(1,2)] call t(2) unfolding tool_ok_def by (metis fst_conv)+
    show ?thesis
    proof (cases out)
      case (CallOk res)
      then obtain msg where "res = text_result msg" using tool_text [OF t(1)] call by blast
      then show ?thesis using CallOk call lookup unfolding answers_def route
        by (simp add: simps write_reply enc_answer) (auto simp: write_response_def)
    next
      case (CallErr e)
      then show ?thesis using call lookup unfolding answers_def route
        by (simp add: simps write_reply enc_answer) (simp add: write_response_def)
    next
      case CallHang
      then have "fst (hv_Handler (st_http st) r a) = ServeHang" using call lookup unfolding route by (simp add: simps)
      then show ?thesis using CallHang ok by simp
    qed (use ok in simp)
  qed
  ultimately show ?thesis by blast
qed

section \<open>Witnesses\<close>

definition json_env where
  "json_env = (ex_env None)\<lparr>re_codec := go_json, re_tools := ex_tool_env\<lparr>te_args := go_args\<rparr>\<rparr>"

lemma json_env_simps [simp]:
  "re_codec json_env = go_json" "re_tools json_env = ex_tool_env\<lparr>te_args := go_args\<rparr>" "re_sortTools json_env = sort_by"
  "re_kube json_env = re_kube (ex_env None)"
  by (simp_all add: json_env_def ex_env_def)

lemma json_process:
  obtains err st ops where "run json_env '':8080'' '':9443'' no_tls (''dev'', [], []) = (err, Some st, ops)"
    "srv_dyn (st_service st) = Some ex_dyn" "w_cluster (ap_world (st_app st)) = []"
  unfolding json_env_def by (rule ex_process_with [where listen = None])

text \<open>A ping, and an apply without effect on the cluster.\<close>

definition ping_post :: http_request where
  "ping_post = \<lparr>hr_method = ''POST'', hr_path = ''/mcp'', hr_body = text_of (client_obj
     [(''jsonrpc'', client_text ''2.0''), (''id'', VLit ''7''), (''method'', client_text ''ping'')])\<rparr>"

text \<open>Plain ASCII text is written as it is.\<close>

definition plain_ascii :: "string \<Rightarrow> bool" where
  "plain_ascii s \<longleftrightarrow> list_all (\<lambda>c. 0x20 \<le> byte c \<and> byte c < 0x80 \<and> byte c \<notin> {0x22, 0x26, 0x3C, 0x3E, 0x5C}) s"

lemma encode_plain: "plain_ascii s \<Longrightarrow> encode_body s = s"
  unfolding encode_body_def
  by (induction s) (auto simp: plain_ascii_def runes_ascii encode_char_def bad_rune_def)

lemma ping_decoded:
  "jc_request go_json (fst (capped_body (hr_body ping_post))) (snd (capped_body (hr_body ping_post))) =
     Inr \<lparr>rq_JSONRPC = ''2.0'', rq_ID = ''7'', rq_Method = ''ping'', rq_Params = []\<rparr>"
proof -
  let ?v = "client_obj [(''jsonrpc'', client_text ''2.0''), (''id'', VLit ''7''), (''method'', client_text ''ping'')]"
  have ok: "json_value 0 ?v" by (auto simp: client_ok lit_text_def tok_start_def is_dec_def tok_number_def intro!: client_obj_ok Literal)
  have "length (text_of ?v) \<le> MaxRequestBytes"
    by (simp add: client_obj_def client_text_def mk_obj_def encode_string_def MaxRequestBytes_def encode_plain plain_ascii_def)
  then have "capped_body (hr_body ping_post) = (text_of ?v, False)" by (simp add: capped_body_def ping_post_def)
  moreover have "ToValidUTF8 ''2.0'' = ''2.0''" "ToValidUTF8 ''ping'' = ''ping''"
    by (simp_all add: ToValidUTF8_id utf8_valid_ascii)
  ultimately show ?thesis
    by (simp add: go_json_def json_first_text(2) [OF ok]) (simp add: dec_Request_def no_request_def decode_simps)
qed

definition pong :: http_response where
  "pong = write_response go_json \<lparr>rs_JSONRPC = ''2.0'', rs_ID = ''7'', rs_Result = Some RPing, rs_Error = None\<rparr>"

lemma ping_pong: "ServeHTTP go_json srt ord srv ping_post w = (Served pong, w)"
  using ping_decoded
  by (simp add: ServeHTTP_def case_prod_beta Dispatch_def Let_def isNotification_def ping_post_def pong_def)

lemma ping_served:
  assumes "run json_env httpListen grpcListen opts info = (err, Some st, ops)"
  obtains page where "hv_Handler (st_http st) ping_post a = (Served page, a)" "hs_status page = 200"
proof (rule run_mcp [OF assms])
  fix srv
  have path: "hr_path ping_post = ''/mcp''" by (simp add: ping_post_def)
  assume "\<And>r a. hr_path r = ''/mcp'' \<Longrightarrow> hv_Handler (st_http st) r a =
      (case ServeHTTP (re_codec json_env) (re_sortTools json_env) (re_toolOrder json_env) srv r (ap_world a) of
         (out, w') \<Rightarrow> (map_served (\<lambda>h. page_of h []) out, a\<lparr>ap_world := w'\<rparr>))"
  from this [OF path] have "hv_Handler (st_http st) ping_post a = (Served (page_of pong []), a)" by (simp add: ping_pong)
  then show thesis by (rule that) (simp add: pong_def write_response_def)
qed

lemma mcp_replies_are_rpc_witness:
  "\<exists>err st ops page a. run json_env '':8080'' '':9443'' no_tls (''dev'', [], []) = (err, Some st, ops) \<and>
     serve_each (hv_Handler (st_http st)) [ping_post] (st_app st) = ([Served page], a) \<and>
     hs_status page = 200 \<and> rpc_reply ''7'' (hs_body page)"
proof -
  obtain err st ops where run: "run json_env '':8080'' '':9443'' no_tls (''dev'', [], []) = (err, Some st, ops)"
    by (rule json_process)
  obtain page where page: "hv_Handler (st_http st) ping_post (st_app st) = (Served page, st_app st)" "hs_status page = 200"
    by (rule ping_served [OF run])
  have sort: "slice_sort (re_sortTools json_env)" by (simp add: isort.slice_sort_axioms)
  have served: "serve_each (hv_Handler (st_http st)) [ping_post] (st_app st) = ([Served page], st_app st)"
    using page(1) by simp
  have "rpc_reply (reply_id ([ping_post] ! 0)) (hs_body page)"
    by (rule mcp_replies_are_rpc [OF run served _ sort]) (simp_all add: page(2) ping_post_def)
  then have "rpc_reply ''7'' (hs_body page)" by (simp add: reply_id_def ping_decoded)
  with run served page(2) show ?thesis by blast
qed

lemma posted_apply_witness:
  "\<exists>err st ops res w' page. run json_env '':8080'' '':9443'' no_tls (''dev'', [], []) = (err, Some st, ops) \<and>
     ResourceApply ex_codec_of ex_unstructured (st_service st)
       \<lparr>aq_Manifest = ''a'', aq_DryRun = True, aq_Force = False\<rparr> (ap_world (st_app st)) = Some (res, w') \<and>
     hv_Handler (st_http st) \<lparr>hr_method = ''POST'', hr_path = ''/mcp'',
       hr_body = text_of (call_object 7 ''resource_apply'' (apply_object ''a'' True False))\<rparr> (st_app st) =
       (Served page, (st_app st)\<lparr>ap_world := w'\<rparr>) \<and>
     hs_status page = 200 \<and> rpc_reply (show_int 7) (hs_body page)"
proof -
  obtain err st ops where run: "run json_env '':8080'' '':9443'' no_tls (''dev'', [], []) = (err, Some st, ops)"
    by (rule json_process)
  have none: "serve_each (hv_Handler (st_http st)) [] (st_app st) = ([], st_app st)" by simp
  have client: "New_Client (re_kube json_env) = Inr (ex_kube [] [], ())" by (simp add: ex_client)
  have sort: "slice_sort (re_sortTools json_env)" by (simp add: isort.slice_sort_axioms)
  have small: "length (text_of (call_object 7 ''resource_apply'' (apply_object ''a'' True False))) \<le> MaxRequestBytes"
    by (simp add: call_object_def apply_object_def client_obj_def client_text_def client_bool_def mk_obj_def
        encode_string_def MaxRequestBytes_def encode_plain plain_ascii_def show_int_def show_nat.simps)
  from posted_apply [OF run client none _ _ sort refl small] run show ?thesis
    by (simp add: ex_http_simps utf8_valid_ascii) metis
qed

lemma call_small: "length tool \<le> 100 \<Longrightarrow> plain_ascii tool \<Longrightarrow> length (text_of (call_object 7 tool (client_obj []))) \<le> MaxRequestBytes"
  by (simp add: call_object_def client_obj_def client_text_def mk_obj_def encode_string_def MaxRequestBytes_def
      encode_plain plain_ascii_def show_int_def show_nat.simps)

lemma posted_call_outcome_witness:
  "\<exists>err st ops. run json_env '':8080'' '':9443'' no_tls (''dev'', [], []) = (err, Some st, ops) \<and>
     answers (hv_Handler (st_http st))
       \<lparr>hr_method = ''POST'', hr_path = ''/mcp'', hr_body = text_of (call_object 7 ''nope'' (client_obj []))\<rparr> (st_app st)
       (reply_line 7 ''error'' (error_object (- 32601) ''tool not found: nope'')) (ap_world (st_app st)) \<and>
     answers (hv_Handler (st_http st))
       \<lparr>hr_method = ''POST'', hr_path = ''/mcp'', hr_body = text_of (call_object 7 ''cluster_identity'' (client_obj []))\<rparr>
       (st_app st) (reply_line 7 ''result'' (tool_answer ''identity'' False)) (ap_world (st_app st))"
proof -
  obtain err st ops where run: "run json_env '':8080'' '':9443'' no_tls (''dev'', [], []) = (err, Some st, ops)"
    by (rule json_process)
  have none: "serve_each (hv_Handler (st_http st)) [] (st_app st) = ([], st_app st)" by simp
  have codec: "re_codec json_env = go_json" by simp
  have args: "json_value 2 (client_obj [])" by (auto intro!: client_obj_ok)
  have small: "length (text_of (call_object 7 tool (client_obj []))) \<le> MaxRequestBytes" "utf8_valid tool"
    if "tool \<in> {''nope'', ''cluster_identity''}" for tool
    using that call_small [of tool] by (auto simp: plain_ascii_def utf8_valid_ascii)
  note outcome = posted_call_outcome [OF run none codec args small(2) refl, of _ 7]
  let ?tools = "tools_of (re_tools json_env) (st_service st)"
  have "''nope'' \<notin> th_Name ` set ?tools"
  proof
    assume "''nope'' \<in> th_Name ` set ?tools"
    then obtain t where "t \<in> set ?tools" "th_Name t = ''nope''" by auto
    then have "''nope'' \<in> set (map th_Name (core_tools (re_tools json_env) (st_service st))) \<union>
        set (map th_Name (resource_tools (re_tools json_env) (st_service st))) \<union>
        set (map th_Name (stream_tools (re_tools json_env) (st_service st)))"
      using tools_of_cases [OF \<open>t \<in> set ?tools\<close>] by force
    then show False unfolding core_names resource_names stream_names by simp
  qed
  moreover have "NewClusterIdentity (re_tools json_env) (st_service st) \<in> set ?tools"
    by (simp add: tools_of_def core_tools_def)
  moreover have "th_Name (NewClusterIdentity (re_tools json_env) (st_service st)) = ''cluster_identity''"
    by (simp add: NewClusterIdentity_def)
  moreover have "th_Call (NewClusterIdentity (re_tools json_env) (st_service st)) (text_of (client_obj [])) (ap_world (st_app st)) =
      (CallOk (text_result ''identity''), ap_world (st_app st))"
    by (simp add: NewClusterIdentity_def ClusterIdentity_Call_def emitProto_def ex_tool_env_def ex_proto_json_def)
  ultimately show ?thesis using run outcome [of "''nope''"] outcome [of "''cluster_identity''"] small
    by (fastforce simp: text_result_def)
qed

end
