(* ===== verification/EventJson.thy ===== *)
theory EventJson
  imports Endpoints Journey McpJson
begin

text \<open>
  The events of the defense bus as JSON: the structs that \<open>journey.go\<close> and \<open>east_west_graph.go\<close> read a message
  into, decoded by \<open>encoding/json\<close>. An event written with the names of these structs is read back as it was,
  so that the dashboard and the graph count it.
\<close>

section \<open>Decoding\<close>

definition go_error :: "string \<Rightarrow> ext_err" where
  "go_error e = \<lparr>ee_not_found = False, ee_msg = e\<rparr>"

definition dec_probeEnvelope :: "probeEnvelope decoder" where
  "dec_probeEnvelope = dec_struct ''service.probeEnvelope'' ''probeEnvelope''
     [(''cluster'', at_field pe_Cluster pe_Cluster_update dec_string),
      (''site_id'', at_field pe_SiteID pe_SiteID_update dec_string),
      (''event'', dec_struct
         (anon_struct [(''ChannelID'', ''int'', ''channel_id''), (''Decision'', ''string'', ''decision''),
            (''Prober'', ''string'', ''prober''), (''Responder'', ''string'', ''responder''),
            (''Substitute'', ''string'', ''substitute'')]) []
         [(''channel_id'', at_field pe_ChannelID pe_ChannelID_update (dec_int word_of_int)),
          (''decision'', at_field pe_Decision pe_Decision_update dec_string),
          (''prober'', at_field pe_Prober pe_Prober_update dec_string),
          (''responder'', at_field pe_Responder pe_Responder_update dec_string),
          (''substitute'', at_field pe_Substitute pe_Substitute_update dec_string)])]"

definition no_probe :: probeEnvelope where
  "no_probe = \<lparr>pe_Cluster = [], pe_SiteID = [], pe_ChannelID = 0, pe_Decision = [], pe_Prober = [], pe_Responder = [],
     pe_Substitute = []\<rparr>"

text \<open>Beside the envelope stands what the array of the destination address holds behind it.\<close>

definition rec_type :: string where
  "rec_type = anon_struct [(''Comm'', ''string'', ''comm'')]"

definition endpoint_struct :: string where
  "endpoint_struct = anon_struct [(''DstAddr'', ''[]int'', ''dst_addr''), (''DstPort'', ''int32'', ''dst_port'')]"

definition at_envelope ::
  "(traceEnvelope \<Rightarrow> 'a) \<Rightarrow> (('a \<Rightarrow> 'a) \<Rightarrow> traceEnvelope \<Rightarrow> traceEnvelope) \<Rightarrow> 'a decoder \<Rightarrow> (traceEnvelope \<times> int list) decoder" where
  "at_envelope get upd = at_field (\<lambda>s. get (fst s)) (\<lambda>f. apfst (upd f))"

definition dec_traceEnvelope :: "(traceEnvelope \<times> int list) decoder" where
  "dec_traceEnvelope = dec_struct ''service.traceEnvelope'' ''traceEnvelope''
     [(''k8s_namespace'', at_envelope te_K8sNamespace te_K8sNamespace_update dec_string),
      (''pod_name'', at_envelope te_PodName te_PodName_update dec_string),
      (''event'', dec_struct
         (anon_struct [(''Kind'', ''string'', ''kind''), (''Rec'', rec_type, ''rec''), (''Endpoint'', endpoint_struct, ''endpoint'')]) []
         [(''kind'', at_envelope te_Kind te_Kind_update dec_string),
          (''rec'', dec_struct rec_type [] [(''comm'', at_envelope te_Comm te_Comm_update dec_string)]),
          (''endpoint'', dec_struct endpoint_struct []
             [(''dst_addr'', at_field (\<lambda>(e, behind). (te_DstAddr e, behind))
                 (\<lambda>f (e, behind). (case f (te_DstAddr e, behind) of (xs, behind') \<Rightarrow> (e\<lparr>te_DstAddr := xs\<rparr>, behind')))
                 (dec_slice ''[]int'' 0 (dec_int id))),
              (''dst_port'', at_envelope te_DstPort te_DstPort_update dec_int32)])])]"

definition no_trace :: traceEnvelope where
  "no_trace = \<lparr>te_K8sNamespace = [], te_PodName = [], te_Kind = [], te_Comm = [], te_DstAddr = [], te_DstPort = 0\<rparr>"

definition go_probe :: "string \<Rightarrow> ext_err + probeEnvelope" where
  "go_probe msg = map_sum go_error id (Unmarshal dec_probeEnvelope no_probe msg)"

definition go_trace :: "string \<Rightarrow> ext_err + traceEnvelope" where
  "go_trace msg = map_sum go_error fst (Unmarshal dec_traceEnvelope (no_trace, []) msg)"

section \<open>Events as they are written\<close>

definition client_int :: "int \<Rightarrow> jval" where "client_int i = VLit (show_int i)"

definition probe_object :: "probeEnvelope \<Rightarrow> jval" where
  "probe_object e = client_obj
     [(''cluster'', client_text (pe_Cluster e)), (''site_id'', client_text (pe_SiteID e)),
      (''event'', client_obj
         [(''channel_id'', client_int (sint (pe_ChannelID e))), (''decision'', client_text (pe_Decision e)),
          (''prober'', client_text (pe_Prober e)), (''responder'', client_text (pe_Responder e)),
          (''substitute'', client_text (pe_Substitute e))])]"

definition trace_object :: "traceEnvelope \<Rightarrow> jval" where
  "trace_object e = client_obj
     [(''k8s_namespace'', client_text (te_K8sNamespace e)), (''pod_name'', client_text (te_PodName e)),
      (''event'', client_obj
         [(''kind'', client_text (te_Kind e)), (''rec'', client_obj [(''comm'', client_text (te_Comm e))]),
          (''endpoint'', client_obj
             [(''dst_addr'', mk_arr (map client_int (te_DstAddr e))), (''dst_port'', client_int (sint (te_DstPort e)))])])]"

lemma client_int_ok: "json_value d (client_int i)"
  by (simp add: client_int_def lit_show_int Literal)

lemma probe_object_ok: "json_value 0 (probe_object e)"
  by (auto simp: probe_object_def client_ok client_int_ok intro!: client_obj_ok)

lemma trace_object_ok: "json_value 0 (trace_object e)"
  by (auto simp: trace_object_def client_ok client_int_ok intro!: client_obj_ok mk_arr_ok)

lemma dec_client_int:
  "dec_int word_of_int path (client_int (sint (i :: i64))) x = (i, None)"
  "dec_int32 path (client_int (sint (j :: i32))) y = (j, None)"
  using sint_ge [of i] sint_lt [of i] sint_ge [of j] sint_lt [of j]
  by (simp_all add: dec_int_def dec_int32_def client_int_def dec_integer_show)

lemma dec_addresses:
  "\<forall>i \<in> set is. - (2 ^ 63) \<le> i \<and> i < 2 ^ 63 \<Longrightarrow>
     dec_elements 0 (dec_int id) path (map client_int is) [] = ((is, []), None)"
  by (induction "is") (simp_all add: dec_int_def client_int_def dec_integer_show)

section \<open>Reading them back\<close>

definition probe_ok :: "probeEnvelope \<Rightarrow> bool" where
  "probe_ok e \<longleftrightarrow> (\<forall>s \<in> {pe_Cluster e, pe_SiteID e, pe_Decision e, pe_Prober e, pe_Responder e, pe_Substitute e}. utf8_valid s)"

lemma probe_roundtrip:
  assumes "probe_ok e"
  shows "go_probe (text_of (probe_object e)) = Inr e"
  using assms unfolding probe_ok_def
  by (simp add: go_probe_def Unmarshal_text [OF probe_object_ok])
    (simp add: dec_probeEnvelope_def no_probe_def probe_object_def decode_simps dec_client_int ToValidUTF8_id)

lemma trace_roundtrip:
  assumes "\<forall>s \<in> {te_K8sNamespace e, te_PodName e, te_Kind e, te_Comm e}. utf8_valid s"
    and "\<forall>i \<in> set (te_DstAddr e). - (2 ^ 63) \<le> i \<and> i < 2 ^ 63"
  shows "go_trace (text_of (trace_object e)) = Inr e"
proof -
  have "dec_slice ''[]int'' 0 (dec_int id) path (mk_arr (map client_int (te_DstAddr e))) ([], []) = ((te_DstAddr e, []), None)" for path
    using dec_addresses [OF assms(2)] by (auto simp: dec_slice_def mk_arr_def)
  then show ?thesis using assms(1)
    by (simp add: go_trace_def Unmarshal_text [OF trace_object_ok])
      (simp add: dec_traceEnvelope_def no_trace_def trace_object_def decode_simps at_envelope_def dec_client_int ToValidUTF8_id)
qed

text \<open>So a history of written events is the history of the events to the dashboard and the graph.\<close>

lemma written_probes:
  assumes "\<forall>(e, now) \<in> set es. probe_ok e"
  shows "probes go_probe (map (\<lambda>(e, now). JMsg probesSubject (text_of (probe_object e)) now) es) =
     filter (\<lambda>(e, now). pe_ChannelID e \<noteq> 0) es"
  using assms
  by (induction es) (auto simp: probes_def probe_of_def probe_roundtrip probesSubject_def threatsSubject_def)

end
