(* ===== verification/Spec2Isabelle.thy ===== *)
theory Spec2Isabelle
  imports Store System Wire EventJson
begin

text \<open>
  EoB MCP server: a model of the Go program under \<open>src/cmd\<close> and \<open>src/internal\<close>, with its correctness
  theorems.

  \<^bold>\<open>The program.\<close> One process serves a Kubernetes site to MCP clients (JSON-RPC over HTTP) and to a fleet
  console (gRPC). \<open>main.run\<close> reads the configuration, builds the Kubernetes clients and a reader of the
  NATS streams as far as they are there, puts them into one service object, registers a tool for every
  call whose backend is live, and listens. A tool call goes from \<open>/mcp\<close> through the request limits, the
  JSON-RPC server and the tool to a method of the service; a method that changes the cluster publishes an
  event on the audit broker, which the event streams of other clients deliver. A second subscriber, on the
  defense bus, feeds a dashboard (\<open>/journey\<close>).

  \<^bold>\<open>The theories, and the code they model.\<close>
    \<^item> \<open>Prelude\<close>, \<open>GoStrings\<close>, \<open>GoTime\<close>, \<open>GoChan\<close>: what the code uses of the language and its standard
      library. Integers of a width are words (\<open>i32\<close>, \<open>i64\<close>, \<open>u64\<close>), strings are bytes, times are
      nanoseconds with a zone offset, a buffered channel is a value whose misuse panics (None), a map visited
      by \<open>range\<close> comes with an arbitrary order of its keys, and \<open>sort.Slice\<close> is any function that meets the
      interface \<open>slice_sort\<close> (with an insertion sort as its instance).
    \<^item> \<open>Timestamps\<close>: \<open>time.Parse\<close> for RFC 3339, and that it reads what the program shows of a time.
    \<^item> \<open>Externals\<close>: the libraries the code calls (text codings, the jq engine, the accessors of
      unstructured objects) as records of functions; every definition that calls one takes it as an argument.
    \<^item> \<open>Config\<close> (\<open>config/config.go\<close>, \<open>discover.go\<close>): \<open>FromEnv\<close> and the identity in \<open>resolv.conf\<close>.
    \<^item> \<open>AuditBroker\<close> (\<open>audit/broker.go\<close>): the table of subscriber channels with \<open>Publish\<close>, \<open>Subscribe\<close> and
      \<open>cancel\<close>.
    \<^item> \<open>McpServer\<close> (\<open>mcp/types.go\<close>, \<open>server.go\<close>, \<open>http.go\<close>): the tool registry, \<open>Dispatch\<close>, \<open>ServeHTTP\<close>. A
      tool is a record whose call maps a world of any type to an outcome: a result, an error, a panic, or
      no return.
    \<^item> \<open>JqFilter\<close> (\<open>filter/filter.go\<close>): \<open>Compile\<close> and \<open>Match\<close> over a possibly infinite iterator.
    \<^item> \<open>Streams\<close> (\<open>streams/streams.go\<close>, \<open>nats.go\<close>): the interface \<open>Reader\<close> as a record of functions and the
      JetStream reader; the tail is a state machine of callbacks, cancellation and cleanup.
    \<^item> \<open>K8s\<close> (\<open>k8s/client.go\<close>, \<open>dynamic.go\<close>, \<open>streamstore.go\<close>): client construction, \<open>ResolveGVR\<close>, the
      discovery of the streamstore.
    \<^item> \<open>Service\<close> (\<open>service/service.go\<close>, \<open>resource_common.go\<close>): the service object, its world (the cluster,
      the audit broker, the clock) and the helpers and errors its calls share.
    \<^item> \<open>Resources\<close> (\<open>resource_*.go\<close>, \<open>batch_apply.go\<close>), \<open>StreamRpc\<close> (\<open>stream_*.go\<close>, \<open>tail_stream.go\<close>),
      \<open>Watches\<close> (\<open>watch_resources.go\<close>, \<open>event_stream.go\<close>) over the shared loop of \<open>Forwarding\<close>, \<open>Health\<close>
      (\<open>eob_health.go\<close>, \<open>trace_health.go\<close>, \<open>cluster_identity.go\<close>, \<open>heartbeat.go\<close>), \<open>Endpoints\<close>
      (\<open>resolve_endpoints.go\<close>, \<open>east_west_graph.go\<close>) and \<open>Journey\<close> (\<open>journey.go\<close>): the service's calls and
      the dashboard. \<open>Tally\<close> is counting into a map, which the last three share.
    \<^item> \<open>Tools\<close> (\<open>tools/*.go\<close>): the thirteen tools with their names, texts, schemas and calls.
    \<^item> \<open>MainServer\<close> (\<open>cmd/eob-mcp/main.go\<close>): backends, registration, TLS, routes, limits, both servers,
      \<open>run\<close> and \<open>main\<close>.
    \<^item> \<open>Store\<close>: the abstract view of the cluster, a map from keys to objects, and what a lawful apiserver does
      to it; the calls that write refine it. \<open>System\<close>: the running process with its event streams open, as a
      transition system of requests, openings, cancellations and turns of the streams' loops.
    \<^item> \<open>JsonText\<close> and \<open>GoJson\<close>: \<open>encoding/json\<close>, as far as the code uses it: the scanner against the grammar
      of JSON, strings with their escapes, structs decoded by the names of their fields. \<open>McpJson\<close> (\<open>mcp/types.go\<close>
      with its tags) and \<open>ToolsJson\<close> (the argument structs of \<open>tools/*.go\<close>) give with it the coding of the
      messages and of the arguments, \<open>go_json\<close> and \<open>go_args\<close>, that the other theories take as an argument;
      \<open>EventJson\<close> does so for the events that \<open>journey.go\<close> and \<open>east_west_graph.go\<close> read (\<open>go_probe\<close>, \<open>go_trace\<close>); \<open>Wire\<close>
      has the properties of the process with this coding, from bytes to bytes.
    \<^item> This theory: the properties that go through all of these, from the network to the cluster.

  \<^bold>\<open>Correspondence.\<close> A definition has the name of the function it models; where two packages use one name,
  or HOL has it, it is qualified by its theory or has a suffix (\<open>New_Service\<close>, \<open>Start_Journey\<close>,
  \<open>StreamInfoMsg\<close>). A struct is a record whose fields carry a short prefix. Loops are named after their function
  (\<open>batch_loop\<close>, \<open>read_loop\<close>, \<open>schema_loop\<close>). A method that changes state takes and returns the world; an
  error is a constructor of a datatype that holds the arguments of the Go error, turned into its text where
  the text is sent. Where goroutines interleave (the audit broker, the tail, the dashboard, the
  streams of the process) one critical section, request or turn of a loop is one step, and theorems are
  about all sequences of steps.

  \<^bold>\<open>Interfaces.\<close> \<open>slice_sort\<close> (what a sort promises), \<open>tool_registry\<close> (registering and looking up),
  \<open>pubsub\<close> (what a publication does to the queues), \<open>stream_reader\<close> (what a backend's \<open>Read\<close> promises),
  \<open>forwarder\<close> and \<open>lossless_forwarder\<close> (a select loop that sends what its events stand for), \<open>counting\<close> (a
  map of counters). Each is interpreted on the code's model, and the calls' properties rest on its facts.

  \<^bold>\<open>What is shown.\<close>
    \<^item> Changes of the cluster: an apply and a delete reach the apiserver at most once, are audited exactly when
      they do, and never panic; a batch is the sequence of its applies, a dry run changes nothing. End to
      end, an apply posted to \<open>/mcp\<close> has exactly these effects (\<open>http_apply_audited\<close>), and it reaches the
      event streams of other clients under any interleaving (\<open>apply_reaches_stream\<close>).
    \<^item> The object store: over a lawful apiserver any sequence of writes is a sequence of updates of single
      objects, each named by its audit event with kind, namespace and name (\<open>writes_refine_store\<close>); a get
      with what an apply reported returns the object (\<open>apply_get_roundtrip\<close>), except where the namespace
      (\<open>default_namespace_gap\<close>) or the group is left empty. One object may be served under several types,
      as Kubernetes does with the versions of a type.
    \<^item> The endpoint: whatever bytes arrive at \<open>/mcp\<close>, they are answered with 200, 202 or 405; the exception is
      a read with a jq filter that never ends on a message the read still needs (\<open>mcp_endpoint_answers\<close>,
      \<open>StreamRead_hangs_iff\<close>, \<open>Match_returns_iff\<close>). Replies with status 200 are one line of JSON-RPC each (\<open>mcp_replies_are_rpc\<close>), an apply written as
      JSON is carried out on the manifest that was written (\<open>posted_apply\<close>), members that the schema forbids
      are dropped (\<open>unknown_arguments_ignored\<close>), a tool that fails is told apart from a tool that is not there
      (\<open>posted_call_outcome\<close>), and the list of tools is that of the live backends.
    \<^item> Delivery: the audit broker, the tail, the watch and the event stream deliver in order, lose only what a
      full buffer drops, end only as stated, and show what they forward in full; a read agrees with a tail, and the timestamp of an envelope can be
      given back as the start of the next read (\<open>StreamRead_resumes\<close>).
    \<^item> Reports: the health of the agents, the per-node counts, the resolved end points, the edges of the
      east-west graph and the dashboard are exactly what the cluster and the messages say.
    \<^item> Configuration: the environment before discovery, discovery by the first match, TLS never weaker than
      asked for; what the process opens it releases, also when a later step of the start fails, with one exception
      (\<open>run_shutdown\<close>, over what there is to open: \<open>cluster_ok\<close>, \<open>streams_up\<close>, \<open>dashboard_up\<close>).

  \<^bold>\<open>Bounds and termination.\<close> No definition runs on fuel: loops recurse over the list they visit, and the one
  that may not end, a jq match, is a partial function to an option, with None for not returning. Events that
  a stream sees before its client goes away are a finite list, of any length; counters are words, and the
  theorems that equate them with a number say how many events they hold for (\<open>2 ^ 53\<close> for the dashboard's
  floats). Times are unbounded; a time that is shown and parsed back has a year from 1 to 9999 and a zone of
  whole minutes (\<open>shown_ok\<close>).

  \<^bold>\<open>Not modelled.\<close> Log output; the generated protobuf and gRPC code (a gRPC call is a call of the service's
  definition); the library's parsing of the flags; the dashboard page. Requests over HTTP are served one
  after the other, between the turns of the streams. Deadlines of contexts appear as errors of the
  calls they cut short, not as times. The Kubernetes, NATS, jq, protobuf and YAML libraries are arguments, and so is \<open>encoding/json\<close> where it
  decodes a payload into a map or writes the dashboard's snapshot: what a
  theorem relies on is among its hypotheses (\<open>js_ok\<close>, \<open>apiserver_ok\<close>, \<open>slice_sort\<close>), and a witness shows that it can hold. The
  typed Kubernetes client answers from one state of the cluster during a call; changes of other clients in
  between are not modelled.
\<close>

section \<open>Properties\<close>

text \<open>
  C6. The MCP endpoint answers: the HTTP server that \<open>run\<close> starts answers every request to \<open>/mcp\<close>, in any
  sequence of requests, with status 200, 202 or 405, never 500 and never a panic, whatever its bytes, and
  leaves the audit broker sound and the dashboard alone; the one request that may stay unanswered is a
  call of \<open>stream_read\<close>, whose jq filter need not end.
\<close>

theorem mcp_endpoint_answers:
  assumes "run env httpListen grpcListen opts info = (err, Some st, ops)"
    and "serve_each (hv_Handler (st_http st)) rs (st_app st) = (outs, a)"
  shows "length outs = length rs \<and> ap_journey a = ap_journey (st_app st) \<and> broker_inv (w_audit (ap_world a)) \<and>
    (\<forall>i < length rs. hr_path (rs ! i) = ''/mcp'' \<longrightarrow>
       (case outs ! i of
          Served p \<Rightarrow> hs_status p \<in> {200, 202, 405}
        | ServePanic \<Rightarrow> False
        | ServeHang \<Rightarrow> \<exists>req p.
            jc_request (re_codec env) (fst (capped_body (hr_body (rs ! i)))) (snd (capped_body (hr_body (rs ! i)))) = Inr req \<and>
            rq_Method req = ''tools/call'' \<and> jc_call_params (re_codec env) (rq_Params req) = Inr p \<and>
            cp_Name p = ''stream_read''))"
proof (rule run_answers [OF assms])
  assume outs: "list_all2 (answer_ok (re_codec env)) rs outs" and "ap_journey a = ap_journey (st_app st)"
    "audit_grows (ap_world (st_app st)) (ap_world a)"
  moreover from this have "broker_inv (w_audit (ap_world a))" by (simp add: audit_grows_def)
  moreover have "answer_ok (re_codec env) (rs ! i) (outs ! i)" if "i < length rs" for i
    using outs that by (rule list_all2_nthD)
  note mcp_answer [OF this]
  ultimately show ?thesis using list_all2_lengthD [OF outs] by simp
qed

text \<open>
  C2. An apply over the network is audited end to end: after any requests, a POST to \<open>/mcp\<close> of a process
  with a cluster, that calls \<open>resource_apply\<close>, runs the service's \<open>ResourceApply\<close> on the decoded arguments,
  once; when that reaches the apiserver, every audit subscriber with room has one more event at the end
  of its queue, and otherwise nothing changes; the reply has status 200, or 202 when the request is a
  notification, which is carried out all the same.
\<close>

theorem http_apply_audited:
  assumes "run env httpListen grpcListen opts info = (err, Some st, ops)" and "New_Client (re_kube env) = Inr kube"
    and "serve_each (hv_Handler (st_http st)) rs (st_app st) = (outs, a)"
    and "hr_path r = ''/mcp''" and "hr_method r = ''POST''"
    and "jc_request (re_codec env) (fst (capped_body (hr_body r))) (snd (capped_body (hr_body r))) = Inr req"
    and "rq_JSONRPC req = ''2.0''" and "rq_Method req = ''tools/call''"
    and "jc_call_params (re_codec env) (rq_Params req) = Inr p" and "cp_Name p = ''resource_apply''"
    and "cp_Arguments p \<noteq> []" and "aj_apply (te_args (re_tools env)) (cp_Arguments p) = Inr args"
  shows "\<exists>res w' page.
    ResourceApply (k_codec (te_calls (re_tools env))) (k_ua (te_calls (re_tools env))) (st_service st)
       \<lparr>aq_Manifest = aa_Manifest args, aq_DryRun = aa_DryRun args, aq_Force = aa_Force args\<rparr> (ap_world a)
      = Some (res, w') \<and>
    hv_Handler (st_http st) r a = (Served page, a\<lparr>ap_world := w'\<rparr>) \<and>
    hs_status page = (if isNotification req then 202 else 200) \<and>
    (if apply_reached res then \<exists>ev. ae_Reason ev = ''ResourceApply'' \<and> apply_event_ok res ev \<and> audited ev (ap_world a) w'
     else isl res \<and> w' = ap_world a)"
  by (rule http_apply [OF run_state_inv [OF assms(1,3)] assms(1,2,4-12)])

section \<open>Witnesses\<close>

lemma mcp_endpoint_answers_witness:
  "\<exists>err st ops out1 page a.
     run (ex_env None) '':8080'' '':9443'' no_tls (''dev'', [], []) = (err, Some st, ops) \<and>
     serve_each (hv_Handler (st_http st)) [ex_get, ex_post] (st_app st) = ([out1, Served page], a) \<and>
     hs_status page \<in> {200, 202, 405}"
proof -
  obtain err st ops where run: "run (ex_env None) '':8080'' '':9443'' no_tls (''dev'', [], []) = (err, Some st, ops)"
    by (rule ex_process)
  obtain outs a where served: "serve_each (hv_Handler (st_http st)) [ex_get, ex_post] (st_app st) = (outs, a)" by fastforce
  note * = mcp_endpoint_answers [OF run served]
  then obtain out1 out2 where outs: "outs = [out1, out2]"
    by (auto simp: length_Suc_conv numeral_2_eq_2)
  from * have "case out2 of Served p \<Rightarrow> hs_status p \<in> {200, 202, 405} | _ \<Rightarrow> False"
    by (auto simp: outs ex_http_simps less_Suc_eq all_conj_distrib split: served.splits)
  then show ?thesis using run served outs by (cases out2) auto
qed

lemma http_apply_audited_witness:
  "\<exists>err st ops page w' ev.
     run (ex_env None) '':8080'' '':9443'' no_tls (''dev'', [], []) = (err, Some st, ops) \<and>
     hv_Handler (st_http st) ex_post (st_app st) = (Served page, (st_app st)\<lparr>ap_world := w'\<rparr>) \<and>
     hs_status page = 200 \<and> w_cluster w' = [(''a'', ex_obj ''a'')] \<and> ae_Reason ev = ''ResourceApply'' \<and>
     audited ev (ap_world (st_app st)) w'"
proof -
  obtain err st ops where run: "run (ex_env None) '':8080'' '':9443'' no_tls (''dev'', [], []) = (err, Some st, ops)"
    and svc: "srv_dyn (st_service st) = Some ex_dyn" "w_cluster (ap_world (st_app st)) = []"
    by (rule ex_process)
  have none: "serve_each (hv_Handler (st_http st)) [] (st_app st) = ([], st_app st)" by simp
  have "broker_inv (w_audit (ap_world (st_app st)))" by (rule run_state_inv [OF run none])
  then obtain res w where "ResourceApply ex_codec_of ex_unstructured (st_service st) (ex_apply ''a'' False)
      (ap_world (st_app st)) = Some (Inr res, w)" "w_cluster w = [(''a'', ex_obj ''a'')]"
    by (rule ex_apply_run [OF svc(1) _ svc(2)])
  then show ?thesis
    using run http_apply_audited [OF run ex_client none ex_http_simps(1,2), of ex_apply_request
        "\<lparr>cp_Name = ''resource_apply'', cp_Arguments = ''a''\<rparr>" "\<lparr>aa_Manifest = ''a'', aa_DryRun = False, aa_Force = False\<rparr>"]
    by (auto simp: ex_http_simps ex_apply_def)
qed

end
